(* ===== verification/Ph_Prelude.thy ===== *)
theory Ph_Prelude
  imports Main "HOL-Library.Word" "HOL-Library.AList" "HOL-Library.Multiset"
begin

text \<open>
  What the components share: faults of the C++ code as values, the containers of
  \<^verbatim>\<open>common/include/types.hpp\<close>, the string operations of the standard library that the
  sources call, machine integers and time.

  \<^item> \<open>res\<close> is the result of code that can leave the defined behaviour of C++ or throw:
    \<open>Ok x\<close>, or \<open>Fault f\<close> with the reason. Every indexing, iterator dereference and
    conversion of the sources that has a precondition is a branch of the model.
  \<^item> \<^verbatim>\<open>map\<close> of the sources is \<^verbatim>\<open>std::unordered_map\<close>. One that the code only
    looks up is a HOL map; one that the code also iterates over is an association list with
    distinct keys, whose order is the iteration order of the container. A new key goes to the
    end; C++ leaves that position open, and no property of the library depends on it.
  \<^item> \<^verbatim>\<open>set\<close> is \<^verbatim>\<open>std::unordered_set\<close>: a distinct list, again in iteration order.
\<close>

named_theorems res_simps \<open>evaluation of results\<close>
named_theorems str_simps \<open>evaluation of string operations\<close>

section \<open>Results\<close>

datatype fault =
    Out_Of_Range        \<comment> \<open>an index or iterator outside its container\<close>
  | Null_Pointer        \<comment> \<open>a dereferenced null pointer\<close>
  | Invalid_Argument    \<comment> \<open>\<^verbatim>\<open>std::invalid_argument\<close>, thrown by \<^verbatim>\<open>std::stoi\<close>\<close>
  | Value_Out_Of_Range  \<comment> \<open>\<^verbatim>\<open>std::out_of_range\<close>, thrown by \<^verbatim>\<open>std::stoi\<close>\<close>
  | Division_By_Zero    \<comment> \<open>a modulus by zero\<close>
  | Uninitialized       \<comment> \<open>a read of a member that no constructor has set\<close>
  | Invalid_Iterator    \<comment> \<open>an iterator used after its container has changed\<close>
  | Diverges            \<comment> \<open>a loop that is never left\<close>
  | Key_Error           \<comment> \<open>Python: a key that is not in a dictionary\<close>
  | Type_Error          \<comment> \<open>Python: an operation on a value of the wrong type\<close>
  | Value_Error         \<comment> \<open>Python: a value that is not accepted\<close>
  | Attribute_Error     \<comment> \<open>Python: an attribute that does not exist\<close>
  | Name_Error          \<comment> \<open>Python: a variable that has no value\<close>
  | Not_Implemented     \<comment> \<open>Python: a method that a class does not provide\<close>

datatype 'a res = Ok 'a | Fault fault

fun res_bind :: "'a res \<Rightarrow> ('a \<Rightarrow> 'b res) \<Rightarrow> 'b res" where
  "res_bind (Ok x) f = f x"
| "res_bind (Fault e) f = Fault e"

fun res_fold :: "('a \<Rightarrow> 's \<Rightarrow> 's res) \<Rightarrow> 'a list \<Rightarrow> 's \<Rightarrow> 's res" where
  "res_fold f [] s = Ok s"
| "res_fold f (x # xs) s = res_bind (f x s) (res_fold f xs)"

fun res_map :: "('a \<Rightarrow> 'b res) \<Rightarrow> 'a list \<Rightarrow> 'b list res" where
  "res_map f [] = Ok []"
| "res_map f (x # xs) = res_bind (f x) (\<lambda>y. res_bind (res_map f xs) (\<lambda>ys. Ok (y # ys)))"

definition is_ok :: "'a res \<Rightarrow> bool" where
  "is_ok r = (case r of Ok _ \<Rightarrow> True | Fault _ \<Rightarrow> False)"

lemma is_ok_simps [simp, res_simps]: "is_ok (Ok x)" "\<not> is_ok (Fault e)"
  by (simp_all add: is_ok_def)

lemma is_ok_iff: "is_ok r \<longleftrightarrow> (\<exists>x. r = Ok x)"
  by (cases r) auto

lemma res_bind_Ok_iff: "res_bind r f = Ok y \<longleftrightarrow> (\<exists>x. r = Ok x \<and> f x = Ok y)"
  by (cases r) auto

lemma res_bind_OkE [elim!]:
  assumes "res_bind r f = Ok y"
  obtains x where "r = Ok x" and "f x = Ok y"
  using assms by (auto simp: res_bind_Ok_iff)

lemma res_bind_Ok_right [simp]: "res_bind r Ok = r"
  by (cases r) auto

lemma res_bind_assoc: "res_bind (res_bind r f) g = res_bind r (\<lambda>x. res_bind (f x) g)"
  by (cases r) auto

lemma res_fold_append:
  "res_fold f (xs @ ys) s = res_bind (res_fold f xs s) (res_fold f ys)"
proof (induction xs arbitrary: s)
  case (Cons x xs)
  show ?case by (cases "f x s") (simp_all add: Cons.IH)
qed simp

text \<open>A loop keeps every invariant that its body keeps, and returns if its body does.\<close>

lemma res_fold_invariant:
  assumes "res_fold f xs s = Ok s'" and "P s"
    and "\<And>x s s'. x \<in> set xs \<Longrightarrow> P s \<Longrightarrow> f x s = Ok s' \<Longrightarrow> P s'"
  shows "P s'"
  using assms by (induction xs arbitrary: s) auto

lemma res_fold_ok:
  assumes "P s"
    and "\<And>x s. x \<in> set xs \<Longrightarrow> P s \<Longrightarrow> \<exists>s'. f x s = Ok s' \<and> P s'"
  shows "\<exists>s'. res_fold f xs s = Ok s' \<and> P s'"
  using assms
proof (induction xs arbitrary: s)
  case Nil
  then show ?case by simp
next
  case (Cons x xs)
  obtain s1 where s1: "f x s = Ok s1" "P s1"
    using Cons.prems by (metis list.set_intros(1))
  have "\<exists>s'. res_fold f xs s1 = Ok s' \<and> P s'"
    by (rule Cons.IH [OF s1(2)]) (use Cons.prems(2) in auto)
  with s1 show ?case by simp
qed

lemma res_map_Ok_iff:
  "res_map f xs = Ok ys \<longleftrightarrow> length ys = length xs \<and> (\<forall>i < length xs. f (xs ! i) = Ok (ys ! i))"
proof (induction xs arbitrary: ys)
  case Nil
  then show ?case by auto
next
  case (Cons x xs)
  show ?case
    by (cases ys) (auto simp: res_bind_Ok_iff Cons.IH nth_Cons split: nat.splits)
qed

lemma res_map_total: "(\<And>x. x \<in> set xs \<Longrightarrow> f x = Ok (g x)) \<Longrightarrow> res_map f xs = Ok (map g xs)"
  by (induction xs) auto

definition nth_res :: "'a list \<Rightarrow> nat \<Rightarrow> 'a res" where
  "nth_res xs i = (if i < length xs then Ok (xs ! i) else Fault Out_Of_Range)"

lemma nth_res_simps [simp, res_simps]:
  "nth_res [] i = Fault Out_Of_Range"
  "nth_res (x # xs) 0 = Ok x"
  "nth_res (x # xs) (Suc i) = nth_res xs i"
  by (auto simp: nth_res_def)

lemma nth_res_ok: "i < length xs \<Longrightarrow> nth_res xs i = Ok (xs ! i)"
  by (simp add: nth_res_def)

lemma nth_res_Ok_iff: "nth_res xs i = Ok x \<longleftrightarrow> i < length xs \<and> xs ! i = x"
  by (auto simp: nth_res_def)


section \<open>Containers\<close>

text \<open>\<^verbatim>\<open>m[k]\<close> on an \<^verbatim>\<open>unordered_map\<close>: the value, or a default one that is stored.\<close>

definition map_at :: "'v \<Rightarrow> ('k \<rightharpoonup> 'v) \<Rightarrow> 'k \<Rightarrow> 'v" where
  "map_at d m k = (case m k of None \<Rightarrow> d | Some v \<Rightarrow> v)"

definition map_touch :: "'v \<Rightarrow> ('k \<rightharpoonup> 'v) \<Rightarrow> 'k \<Rightarrow> ('k \<rightharpoonup> 'v)" where
  "map_touch d m k = (case m k of None \<Rightarrow> m(k \<mapsto> d) | Some _ \<Rightarrow> m)"

definition map_erase :: "('k \<rightharpoonup> 'v) \<Rightarrow> 'k \<Rightarrow> ('k \<rightharpoonup> 'v)" where
  "map_erase m k = m(k := None)"

lemma map_at_upd [simp]: "map_at d (m(k \<mapsto> v)) k' = (if k' = k then v else map_at d m k')"
  by (simp add: map_at_def)

lemma map_at_empty [simp]: "map_at d Map.empty k = d"
  by (simp add: map_at_def)

lemma map_at_None [simp]: "m k = None \<Longrightarrow> map_at d m k = d"
  by (simp add: map_at_def)

lemma map_at_Some [simp]: "m k = Some v \<Longrightarrow> map_at d m k = v"
  by (simp add: map_at_def)

lemma map_at_touch [simp]: "map_at d (map_touch d m k) k' = map_at d m k'"
  by (auto simp: map_at_def map_touch_def split: option.splits)

lemma map_touch_apply:
  "map_touch d m k k' = (if k' = k then Some (map_at d m k) else m k')"
  by (auto simp: map_at_def map_touch_def split: option.splits)

lemma dom_map_touch [simp]: "dom (map_touch d m k) = insert k (dom m)"
  by (auto simp: map_touch_def split: option.splits)

lemma map_erase_apply [simp]: "map_erase m k k' = (if k' = k then None else m k')"
  by (simp add: map_erase_def)

lemma dom_map_erase [simp]: "dom (map_erase m k) = dom m - {k}"
  by (auto simp: map_erase_def)

lemma map_at_erase: "map_at d (map_erase m k) k' = (if k' = k then d else map_at d m k')"
  by (simp add: map_at_def)

text \<open>\<^verbatim>\<open>unordered_set\<close>: a distinct list in iteration order.\<close>

definition uset_insert :: "'a \<Rightarrow> 'a list \<Rightarrow> 'a list" where
  "uset_insert x xs = (if x \<in> set xs then xs else xs @ [x])"

definition uset_of :: "'a list \<Rightarrow> 'a list" where
  "uset_of xs = fold uset_insert xs []"

definition uset_erase :: "'a \<Rightarrow> 'a list \<Rightarrow> 'a list" where
  "uset_erase x xs = filter (\<lambda>y. y \<noteq> x) xs"

lemma set_uset_insert [simp]: "set (uset_insert x xs) = insert x (set xs)"
  by (auto simp: uset_insert_def)

lemma distinct_uset_insert [simp]: "distinct (uset_insert x xs) = distinct xs"
  by (auto simp: uset_insert_def)

lemma length_uset_insert:
  "length (uset_insert x xs) = (if x \<in> set xs then length xs else Suc (length xs))"
  by (simp add: uset_insert_def)

lemma uset_insert_not_Nil [simp]: "uset_insert x xs \<noteq> []"
  by (auto simp: uset_insert_def)

lemma set_uset_erase [simp]: "set (uset_erase x xs) = set xs - {x}"
  by (auto simp: uset_erase_def)

lemma distinct_uset_erase [simp]: "distinct xs \<Longrightarrow> distinct (uset_erase x xs)"
  by (simp add: uset_erase_def)

lemma fold_uset_insert_distinct:
  "distinct (acc @ xs) \<Longrightarrow> fold uset_insert xs acc = acc @ xs"
  by (induction xs arbitrary: acc) (auto simp: uset_insert_def)

lemma uset_of_distinct [simp]: "distinct xs \<Longrightarrow> uset_of xs = xs"
  by (simp add: uset_of_def fold_uset_insert_distinct)

lemma set_fold_uset_insert: "set (fold uset_insert xs acc) = set acc \<union> set xs"
  by (induction xs arbitrary: acc) auto

lemma distinct_fold_uset_insert: "distinct acc \<Longrightarrow> distinct (fold uset_insert xs acc)"
  by (induction xs arbitrary: acc) auto

lemma set_uset_of [simp]: "set (uset_of xs) = set xs"
  by (simp add: uset_of_def set_fold_uset_insert)

lemma distinct_uset_of [simp]: "distinct (uset_of xs)"
  by (simp add: uset_of_def distinct_fold_uset_insert)

lemma distinct_subset_eq_length:
  assumes "distinct xs" and "distinct ys" and "set xs \<subseteq> set ys"
  shows "length xs = length ys \<longleftrightarrow> set xs = set ys"
  using assms by (metis List.finite_set card_subset_eq distinct_card)

text \<open>An iterated \<^verbatim>\<open>unordered_map\<close>: an association list in iteration order.\<close>

definition umap_at :: "'v \<Rightarrow> ('k \<times> 'v) list \<Rightarrow> 'k \<Rightarrow> 'v" where
  "umap_at d m k = map_at d (map_of m) k"

definition umap_touch :: "'v \<Rightarrow> 'k \<Rightarrow> ('k \<times> 'v) list \<Rightarrow> ('k \<times> 'v) list" where
  "umap_touch d k m = (if k \<in> fst ` set m then m else m @ [(k, d)])"

abbreviation umap_ok :: "('k \<times> 'v) list \<Rightarrow> bool" where
  "umap_ok m \<equiv> distinct (map fst m)"

lemma umap_at_update [simp]:
  "umap_at d (AList.update k v m) k' = (if k' = k then v else umap_at d m k')"
  by (simp add: umap_at_def map_at_def update_conv')

lemma umap_at_Nil [simp]: "umap_at d [] k = d"
  by (simp add: umap_at_def)

lemma umap_ok_update [simp]: "umap_ok m \<Longrightarrow> umap_ok (AList.update k v m)"
  by (rule distinct_update)

lemma map_of_append_single:
  "k \<notin> fst ` set m \<Longrightarrow> map_of (m @ [(k, d)]) = (map_of m)(k \<mapsto> d)"
  by (induction m) auto

lemma map_of_umap_touch: "map_of (umap_touch d k m) = map_touch d (map_of m) k"
proof (cases "k \<in> fst ` set m")
  case True
  then obtain v where "map_of m k = Some v"
    by (metis map_of_eq_None_iff option.exhaust)
  with True show ?thesis by (simp add: umap_touch_def map_touch_def)
next
  case False
  then have "map_of m k = None" by (simp add: map_of_eq_None_iff)
  with False show ?thesis
    by (simp add: umap_touch_def map_touch_def map_of_append_single del: map_of_append)
qed

lemma umap_at_touch [simp]: "umap_at d (umap_touch d k m) k' = umap_at d m k'"
  by (simp add: umap_at_def map_of_umap_touch)

lemma umap_ok_touch [simp]: "umap_ok m \<Longrightarrow> umap_ok (umap_touch d k m)"
  by (auto simp: umap_touch_def)

lemma umap_at_mem: "umap_at d m k \<noteq> d \<Longrightarrow> (k, umap_at d m k) \<in> set m"
  by (auto simp: umap_at_def map_at_def split: option.splits dest: map_of_SomeD)

lemma update_new: "k \<notin> fst ` set m \<Longrightarrow> AList.update k v m = m @ [(k, v)]"
  by (induction m) auto

lemma set_AList_update_subset: "set (AList.update k v m) \<subseteq> insert (k, v) (set m)"
  by (induction m) auto

lemma keys_umap_touch [simp]: "fst ` set (umap_touch d k m) = insert k (fst ` set m)"
  by (auto simp: umap_touch_def)


lemma map_of_filter_umap:
  "umap_ok m \<Longrightarrow> map_of (filter P m) k =
     (case map_of m k of None \<Rightarrow> None | Some v \<Rightarrow> if P (k, v) then Some v else None)"
proof (induction m)
  case (Cons kv m)
  have "map_of (filter P m) k = None" if "k = fst kv"
    using Cons.prems that by (auto simp: map_of_eq_None_iff)
  with Cons show ?case by (cases kv) (auto split: option.splits)
qed simp

lemma umap_ok_filter: "umap_ok m \<Longrightarrow> umap_ok (filter P m)"
  by (induction m) auto

lemma umap_ok_delete: "umap_ok m \<Longrightarrow> umap_ok (AList.delete k m)"
  by (rule distinct_delete)

lemma set_delete_subset: "set (AList.delete k m) \<subseteq> set m"
  by (auto simp: AList.delete_eq)

lemma umap_all_update:
  assumes "\<forall>(k, v) \<in> set m. P k v" and "P k0 v0"
  shows "\<forall>(k, v) \<in> set (AList.update k0 v0 m). P k v"
  using assms set_AList_update_subset [of k0 v0 m] by blast


section \<open>Machine integers and time\<close>

type_synonym uint8 = "8 word"
type_synonym uint32 = "32 word"
type_synonym uint64 = "64 word"

lemma sum_list_map_int: "sum_list (map int xs) = int (sum_list xs)"
  by (induction xs) simp_all

lemma unat_uint32_less: "unat (w :: uint32) < 4294967296"
  using unsigned_less [of w, where 'a = nat] by simp

lemma unat_Suc_less: "unat (c :: uint32) < unat (d :: uint32) \<Longrightarrow> unat (c + 1) = Suc (unat c)"
proof -
  assume "unat c < unat d"
  then have "Suc (unat c) < 2 ^ 32" using unat_uint32_less [of d] by simp
  then show ?thesis by (simp add: unat_word_ariths)
qed

text \<open>
  A C++ \<^verbatim>\<open>int\<close> compared with a \<^verbatim>\<open>size_t\<close> is converted to 64 unsigned bits first; a
  negative one becomes a huge number.
\<close>

definition int_to_size :: "32 word \<Rightarrow> nat" where
  "int_to_size x = nat (sint x mod 2 ^ 64)"

lemma int_to_size_nonneg: "0 \<le> sint x \<Longrightarrow> int_to_size x = nat (sint x)"
  using sint_lt [of x] by (simp add: int_to_size_def)

lemma int_to_size_neg:
  assumes "sint x < 0"
  shows "2 ^ 63 \<le> int_to_size x"
proof -
  have "sint x mod 2 ^ 64 = (sint x + 2 ^ 64) mod 2 ^ 64" by simp
  also have "\<dots> = sint x + 2 ^ 64"
    by (rule mod_pos_pos_trivial) (use assms sint_ge [of x] in simp_all)
  finally have eq: "sint x mod 2 ^ 64 = sint x + 2 ^ 64" .
  have "(2::int) ^ 63 \<le> sint x + 2 ^ 64"
    using sint_ge [of x] by simp
  then show ?thesis
    unfolding int_to_size_def eq by (simp add: nat_le_iff le_nat_iff)
qed

text \<open>
  \<^verbatim>\<open>system_clock\<close> counts nanoseconds; \<^verbatim>\<open>duration_cast\<close> truncates towards zero.
\<close>

type_synonym time = int

definition trunc_div :: "int \<Rightarrow> int \<Rightarrow> int" where
  "trunc_div a b = sgn a * sgn b * (\<bar>a\<bar> div \<bar>b\<bar>)"

definition cast_us :: "int \<Rightarrow> int" where
  "cast_us d = trunc_div d 1000"

definition cast_ms :: "int \<Rightarrow> int" where
  "cast_ms d = trunc_div d 1000000"

lemma trunc_div_nonneg: "0 \<le> a \<Longrightarrow> 0 < b \<Longrightarrow> trunc_div a b = a div b"
  by (cases "a = 0") (auto simp: trunc_div_def sgn_if)


section \<open>Runs\<close>

text \<open>A stateful operation over a stream of inputs: the outputs in order and the last state.\<close>

fun run :: "('s \<Rightarrow> 'i \<Rightarrow> 'o list \<times> 's) \<Rightarrow> 's \<Rightarrow> 'i list \<Rightarrow> 'o list \<times> 's" where
  "run step s [] = ([], s)"
| "run step s (x # xs) =
     (case step s x of
        (out, s') \<Rightarrow> (case run step s' xs of (outs, s'') \<Rightarrow> (out @ outs, s'')))"

lemma run_append:
  "run step s (xs @ ys) =
     (case run step s xs of
        (out, s') \<Rightarrow> (case run step s' ys of (outs, s'') \<Rightarrow> (out @ outs, s'')))"
  by (induction xs arbitrary: s) (auto split: prod.splits)

lemma run_invariant:
  assumes "run step s xs = (out, s')" and "P s"
    and "\<And>x s out s'. x \<in> set xs \<Longrightarrow> P s \<Longrightarrow> step s x = (out, s') \<Longrightarrow> P s'"
  shows "P s'"
  using assms by (induction xs arbitrary: s out) (auto split: prod.splits, metis)

lemma run_outputs:
  assumes "run step s xs = (out, s')" and "P s"
    and "\<And>x s out s'. x \<in> set xs \<Longrightarrow> P s \<Longrightarrow> step s x = (out, s') \<Longrightarrow> P s' \<and> (\<forall>a \<in> set out. Q a)"
  shows "\<forall>a \<in> set out. Q a"
  using assms
proof (induction xs arbitrary: s out)
  case (Cons x xs)
  obtain o1 s1 o2 where eq: "step s x = (o1, s1)" "run step s1 xs = (o2, s')" "out = o1 @ o2"
    using Cons.prems(1) by (auto split: prod.splits)
  have 1: "P s1 \<and> (\<forall>a \<in> set o1. Q a)"
    using Cons.prems(2,3) eq(1) by (metis list.set_intros(1))
  have "\<forall>a \<in> set o2. Q a"
  proof (rule Cons.IH [OF eq(2)])
    show "P s1" using 1 by simp
    show "P t' \<and> (\<forall>a \<in> set out'. Q a)"
      if "y \<in> set xs" "P t" "step t y = (out', t')" for y t out' t'
      using Cons.prems(3) [of y t out' t'] that by simp
  qed
  with 1 eq(3) show ?case by auto
qed simp

text \<open>The same for an operation that may fail: the run ends at the first fault.\<close>

fun res_run :: "('s \<Rightarrow> 'i \<Rightarrow> ('o list \<times> 's) res) \<Rightarrow> 's \<Rightarrow> 'i list \<Rightarrow> ('o list \<times> 's) res" where
  "res_run step s [] = Ok ([], s)"
| "res_run step s (x # xs) =
     res_bind (step s x) (\<lambda>(out, s').
     res_bind (res_run step s' xs) (\<lambda>(outs, s''). Ok (out @ outs, s'')))"

lemma res_run_ConsE:
  assumes "res_run step s (x # xs) = Ok (out, s')"
  obtains o1 s1 o2 where "step s x = Ok (o1, s1)" and "res_run step s1 xs = Ok (o2, s')" and "out = o1 @ o2"
  using assms by auto

lemma res_run_invariant:
  assumes "res_run step s xs = Ok (out, s')" and "P s"
    and "\<And>x s out s'. x \<in> set xs \<Longrightarrow> P s \<Longrightarrow> step s x = Ok (out, s') \<Longrightarrow> P s'"
  shows "P s'"
  using assms
proof (induction xs arbitrary: s out)
  case (Cons x xs)
  from Cons.prems(1) obtain o1 s1 o2 where "step s x = Ok (o1, s1)" "res_run step s1 xs = Ok (o2, s')"
    by (rule res_run_ConsE)
  with Cons show ?case by (metis list.set_intros(1) list.set_intros(2))
qed simp

text \<open>
  A component whose detailed state is related to an abstract one by a function: if every step does
  what the abstract step does, every run produces the outputs of the abstract run.
\<close>

locale simulation =
  fixes cstep :: "'s \<Rightarrow> 'i \<Rightarrow> 'o list \<times> 's"
    and astep :: "'a \<Rightarrow> 'i \<Rightarrow> 'o list \<times> 'a"
    and abs :: "'s \<Rightarrow> 'a"
    and inv :: "'s \<Rightarrow> bool"
  assumes simulates: "inv s \<Longrightarrow> cstep s x = (out, s') \<Longrightarrow> astep (abs s) x = (out, abs s')"
    and inv_step: "inv s \<Longrightarrow> cstep s x = (out, s') \<Longrightarrow> inv s'"
begin

lemma inv_run: "inv s \<Longrightarrow> run cstep s xs = (out, s') \<Longrightarrow> inv s'"
  by (induction xs arbitrary: s out) (auto split: prod.splits dest: inv_step)

lemma run_simulates:
  "inv s \<Longrightarrow> run cstep s xs = (out, s') \<Longrightarrow> run astep (abs s) xs = (out, abs s')"
proof (induction xs arbitrary: s out)
  case (Cons x xs)
  obtain o1 s1 o2 where eq: "cstep s x = (o1, s1)" "run cstep s1 xs = (o2, s')" "out = o1 @ o2"
    using Cons.prems(2) by (auto split: prod.splits)
  have "astep (abs s) x = (o1, abs s1)" by (rule simulates [OF Cons.prems(1) eq(1)])
  moreover have "run astep (abs s1) xs = (o2, abs s')"
    by (rule Cons.IH [OF inv_step [OF Cons.prems(1) eq(1)] eq(2)])
  ultimately show ?case by (simp add: eq(3))
qed simp

end

end
