(* ===== verification/Ph_Strings.thy ===== *)
theory Ph_Strings
  imports Ph_Prelude
begin

text \<open>
  The string operations of the C++ standard library that the sources use: \<^verbatim>\<open>std::getline\<close>
  over a \<^verbatim>\<open>stringstream\<close> (the \<^verbatim>\<open>split\<close> of \<^verbatim>\<open>common.hpp\<close>), \<^verbatim>\<open>std::to_string\<close> on
  unsigned values, \<^verbatim>\<open>std::stoi\<close>, and the conversion of a character array to a string, which
  stops at the first null character. A string is a list of bytes.
\<close>

section \<open>Splitting at a delimiter\<close>

text \<open>
  \<^verbatim>\<open>common/include/common.hpp\<close>, \<^verbatim>\<open>split\<close>: each \<^verbatim>\<open>getline\<close> takes the characters up to the
  next delimiter, which it drops, and fails only when no character is left. So an empty item is
  kept between two delimiters and lost at the very end.
\<close>

function split :: "string \<Rightarrow> char \<Rightarrow> string list" where
  "split s delim =
     (if s = [] then []
      else takeWhile (\<lambda>c. c \<noteq> delim) s # split (drop 1 (dropWhile (\<lambda>c. c \<noteq> delim) s)) delim)"
  by pat_completeness auto
termination
proof (relation "measure (\<lambda>(s, delim). length s)", goal_cases)
  case (2 s delim)
  then show ?case
    using length_dropWhile_le [of "\<lambda>c. c \<noteq> delim" s]
    by (cases s) (auto simp: less_Suc_eq_le intro: le_trans [OF diff_le_self])
qed simp

declare split.simps [simp del]

lemma split_Nil [simp, str_simps]: "split [] delim = []"
  by (simp add: split.simps)

lemma split_no_delim: "s \<noteq> [] \<Longrightarrow> delim \<notin> set s \<Longrightarrow> split s delim = [s]"
proof -
  assume s: "s \<noteq> []" "delim \<notin> set s"
  then have "takeWhile (\<lambda>c. c \<noteq> delim) s = s" and "dropWhile (\<lambda>c. c \<noteq> delim) s = []"
    by (auto simp: dropWhile_eq_Nil_conv)
  with s(1) show ?thesis by (simp only: split.simps [of s] if_False drop_Nil split_Nil)
qed

lemma split_item:
  assumes "delim \<notin> set x"
  shows "split (x @ delim # rest) delim = x # split rest delim"
proof -
  have "takeWhile (\<lambda>c. c \<noteq> delim) (x @ delim # rest) = x"
    and "dropWhile (\<lambda>c. c \<noteq> delim) (x @ delim # rest) = delim # rest"
    using assms by (auto simp: takeWhile_append dropWhile_append takeWhile_eq_all_conv)
  then show ?thesis by (subst split.simps) simp
qed

lemma split_items_no_delim: "x \<in> set (split s delim) \<Longrightarrow> delim \<notin> set x"
proof (induction s delim rule: split.induct)
  case (1 s delim)
  show ?case
  proof (cases "s = []")
    case False
    with "1.prems" consider "x = takeWhile (\<lambda>c. c \<noteq> delim) s"
      | "x \<in> set (split (drop 1 (dropWhile (\<lambda>c. c \<noteq> delim) s)) delim)"
      by (subst (asm) split.simps) auto
    then show ?thesis
      using "1.IH" [OF False] by cases (auto dest: set_takeWhileD)
  qed (use "1.prems" in simp)
qed

text \<open>The delimiter-separated concatenation, as the sources build it with \<^verbatim>\<open>+ "|" +\<close>.\<close>

fun join :: "char \<Rightarrow> string list \<Rightarrow> string" where
  "join delim [] = []"
| "join delim [x] = x"
| "join delim (x # y # ys) = x @ delim # join delim (y # ys)"

lemma join_Cons: "ys \<noteq> [] \<Longrightarrow> join delim (x # ys) = x @ delim # join delim ys"
  by (cases ys) auto

lemma join_append:
  "xs \<noteq> [] \<Longrightarrow> ys \<noteq> [] \<Longrightarrow> join delim (xs @ ys) = join delim xs @ delim # join delim ys"
  by (induction xs rule: induct_list012) (auto simp: join_Cons)

lemma set_join: "set (join delim xs) \<subseteq> insert delim (\<Union> (set ` set xs))"
  by (induction delim xs rule: join.induct) auto

text \<open>
  Splitting undoes joining, except that an empty last item is lost.
\<close>

lemma split_join:
  assumes "\<forall>x \<in> set xs. delim \<notin> set x" and "xs \<noteq> []" and "last xs \<noteq> []"
  shows "split (join delim xs) delim = xs"
  using assms by (induction delim xs rule: join.induct) (auto simp: split_no_delim split_item)

lemma split_join_empty_last:
  assumes "\<forall>x \<in> set xs. delim \<notin> set x"
  shows "split (join delim (xs @ [[]])) delim = xs"
  using assms
proof (induction xs)
  case (Cons x xs)
  then show ?case by (simp add: join_Cons split_item)
qed simp

text \<open>Splitting a joined list whose items hold delimiters themselves gives all the parts.\<close>

lemma split_append_delim:
  "x \<noteq> [] \<Longrightarrow> last x \<noteq> delim \<Longrightarrow> split (x @ delim # rest) delim = split x delim @ split rest delim"
proof (induction x delim rule: split.induct)
  case (1 x delim)
  show ?case
  proof (cases "delim \<in> set x")
    case False
    with "1.prems" show ?thesis by (simp add: split_item split_no_delim)
  next
    case True
    then obtain a b where x: "x = a @ delim # b" and a: "delim \<notin> set a"
      by (auto dest: split_list_first)
    from "1.prems" x have b: "b \<noteq> []" "last b \<noteq> delim" by (auto split: if_splits)
    have drop: "drop 1 (dropWhile (\<lambda>c. c \<noteq> delim) x) = b"
      using a by (simp add: x dropWhile_append)
    have "split (b @ delim # rest) delim = split b delim @ split rest delim"
      using "1.IH" [unfolded drop] b "1.prems"(1) by blast
    then show ?thesis using a by (simp add: x split_item)
  qed
qed


section \<open>Numbers\<close>

definition digit :: "nat \<Rightarrow> char" where
  "digit d = char_of (48 + d)"

fun to_string :: "nat \<Rightarrow> string" where
  "to_string n = (if n < 10 then [digit n] else to_string (n div 10) @ [digit (n mod 10)])"

declare to_string.simps [simp del]

definition is_space :: "char \<Rightarrow> bool" where
  "is_space c \<longleftrightarrow> (of_char c :: nat) = 32 \<or> (9 \<le> (of_char c :: nat) \<and> (of_char c :: nat) \<le> 13)"

definition is_digit :: "char \<Rightarrow> bool" where
  "is_digit c \<longleftrightarrow> 48 \<le> (of_char c :: nat) \<and> (of_char c :: nat) \<le> 57"

definition digits_val :: "string \<Rightarrow> nat" where
  "digits_val ds = foldl (\<lambda>v c. 10 * v + (of_char c - 48)) 0 ds"

definition stoi_sign :: "string \<Rightarrow> bool \<times> string" where
  "stoi_sign s =
     (case s of
        [] \<Rightarrow> (False, [])
      | c # cs \<Rightarrow> if c = CHR ''-'' then (True, cs)
                  else if c = CHR ''+'' then (False, cs) else (False, s))"

definition stoi :: "string \<Rightarrow> int res" where
  "stoi s =
     (case stoi_sign (dropWhile is_space s) of
        (neg, t) \<Rightarrow>
          (let ds = takeWhile is_digit t;
               v = (if neg then - int (digits_val ds) else int (digits_val ds))
           in if ds = [] then Fault Invalid_Argument
              else if v < - (2 ^ 31) \<or> 2 ^ 31 \<le> v then Fault Value_Out_Of_Range
              else Ok v))"

lemma of_char_digit [simp]: "d < 10 \<Longrightarrow> (of_char (digit d) :: nat) = 48 + d"
  by (simp add: digit_def)

lemma is_digit_digit [simp]: "d < 10 \<Longrightarrow> is_digit (digit d)"
  by (simp add: is_digit_def)

lemma to_string_digits: "c \<in> set (to_string n) \<Longrightarrow> is_digit c"
proof (induction n rule: to_string.induct)
  case (1 n)
  then show ?case
    by (subst (asm) to_string.simps) (auto split: if_splits)
qed

lemma to_string_not_Nil [simp]: "to_string n \<noteq> []"
  by (subst to_string.simps) simp

lemma digits_val_snoc: "digits_val (ds @ [c]) = 10 * digits_val ds + (of_char c - 48)"
  by (simp add: digits_val_def)

lemma digits_val_to_string [simp]: "digits_val (to_string n) = n"
proof (induction n rule: to_string.induct)
  case (1 n)
  show ?case
  proof (cases "n < 10")
    case True
    then show ?thesis
      by (subst to_string.simps) (simp add: digits_val_def)
  next
    case False
    then show ?thesis
      using "1.IH" by (subst to_string.simps) (simp add: digits_val_snoc)
  qed
qed

lemma to_string_inject [simp]: "to_string m = to_string n \<longleftrightarrow> m = n"
  by (metis digits_val_to_string)

lemma digit_not_special:
  assumes "is_digit c"
  shows "\<not> is_space c" and "c \<noteq> CHR ''-''" and "c \<noteq> CHR ''+''" and "c \<noteq> CHR ''|''"
    and "c \<noteq> CHR '':''" and "c \<noteq> CHR ''_''" and "c \<noteq> CHR 0x00"
  using assms by (auto simp: is_digit_def is_space_def)

lemma to_string_no_delim [simp]:
  "CHR ''|'' \<notin> set (to_string n)" "CHR '':'' \<notin> set (to_string n)"
  "CHR ''_'' \<notin> set (to_string n)" "CHR 0x00 \<notin> set (to_string n)"
  using to_string_digits digit_not_special by blast+

lemma stoi_digits:
  assumes "ds \<noteq> []" and "\<And>c. c \<in> set ds \<Longrightarrow> is_digit c" and "digits_val ds < 2 ^ 31"
  shows "stoi ds = Ok (int (digits_val ds))"
proof -
  obtain c cs where ds: "ds = c # cs" using assms(1) by (cases ds) auto
  have c: "is_digit c" using assms(2) ds by simp
  have "dropWhile is_space ds = ds" using digit_not_special(1) [OF c] by (simp add: ds)
  moreover have "stoi_sign ds = (False, ds)"
    using digit_not_special(2,3) [OF c] by (simp add: ds stoi_sign_def)
  moreover have tw: "takeWhile is_digit ds = ds"
    using assms(2) by (simp add: takeWhile_eq_all_conv)
  ultimately show ?thesis
    using assms(1,3) unfolding stoi_def by (simp add: tw Let_def del: takeWhile_eq_all_conv)
qed

lemma stoi_to_string [simp]: "n < 2 ^ 31 \<Longrightarrow> stoi (to_string n) = Ok (int n)"
  using stoi_digits [of "to_string n"] to_string_digits by simp

lemma stoi_range: "stoi s = Ok v \<Longrightarrow> - (2 ^ 31) \<le> v \<and> v < 2 ^ 31"
  by (auto simp: stoi_def Let_def split: prod.splits if_splits)


section \<open>Character arrays\<close>

text \<open>
  \<^verbatim>\<open>string s(ptr)\<close> reads up to the first null character. Messages on the shared-memory
  channels are sent with their terminating null, so reading never runs past the end.
\<close>

definition c_str :: "string \<Rightarrow> string" where
  "c_str s = takeWhile (\<lambda>c. c \<noteq> CHR 0x00) s"

lemma c_str_id: "CHR 0x00 \<notin> set s \<Longrightarrow> c_str s = s"
  by (auto simp: c_str_def)

text \<open>A byte pushed onto a string, and read back as \<^verbatim>\<open>uint8_t\<close>.\<close>

definition byte :: "uint8 \<Rightarrow> char" where
  "byte w = char_of (unat w)"

definition unbyte :: "char \<Rightarrow> uint8" where
  "unbyte c = word_of_nat (of_char c)"

lemma unbyte_byte [simp]: "unbyte (byte w) = w"
proof -
  have "unat w < 256" using unsigned_less [of w] by simp
  then show ?thesis by (simp add: unbyte_def byte_def)
qed

lemma byte_unbyte [simp]: "byte (unbyte c) = c"
proof -
  have "(of_char c :: nat) < 256" by (metis of_char_mod_256 mod_less_divisor zero_less_numeral)
  then show ?thesis by (simp add: unbyte_def byte_def unat_of_nat)
qed

lemma byte_inject [simp]: "byte a = byte b \<longleftrightarrow> a = b"
  by (metis unbyte_byte)

section \<open>Messages as items\<close>

text \<open>
  A list of strings in one string, and back: a concrete encoding of messages, at which hypotheses on
  the generated code are shown to hold.
\<close>

definition put_items :: "string list \<Rightarrow> string" where
  "put_items xs = concat (map (\<lambda>s. concat (map (\<lambda>c. [CHR ''c'', c]) s) @ ''.'') xs)"

fun get_items :: "string \<Rightarrow> string \<Rightarrow> string list" where
  "get_items item [] = []"
| "get_items item [c] = (if c = CHR ''.'' then [item] else [])"
| "get_items item (c # d # cs) = (if c = CHR ''.'' then item # get_items [] (d # cs) else get_items (item @ [d]) cs)"

lemma get_item: "get_items item (concat (map (\<lambda>c. [CHR ''c'', c]) s) @ CHR ''.'' # rest) = (item @ s) # get_items [] rest"
  by (induction s arbitrary: item) (cases rest, simp_all)

lemma get_put_items [simp]: "get_items [] (put_items xs) = xs"
  by (induction xs) (simp_all add: put_items_def get_item)

definition put_number :: "'w::len word \<Rightarrow> string" where
  "put_number w = to_string (unat w)"

definition get_number :: "string \<Rightarrow> 'w::len word" where
  "get_number s = word_of_nat (digits_val s)"

lemma get_put_number [simp]: "get_number (put_number w) = w"
  by (simp add: get_number_def put_number_def digits_val_to_string)

end
