(* ===== verification/Ph_Common.thy ===== *)
theory Ph_Common
  imports Ph_Strings
begin

text \<open>
  \<^verbatim>\<open>common/include/common.hpp\<close>, first part: the constants, object names, \<^verbatim>\<open>BucketKey\<close> and its
  conversions, random session ids and timestamps. The messages of
  \<^verbatim>\<open>common/proto/common.proto\<close> are records. \<^verbatim>\<open>rand_r\<close> of the C library is a parameter: a
  function from the seed to a non-negative number and the next seed.
\<close>

type_synonym Address = string
type_synonym Key = string
type_synonym Bucket = string
type_synonym Session = string

type_synonym rand_fun = "uint32 \<Rightarrow> nat \<times> uint32"

definition kDelimiter :: string where
  "kDelimiter = ''|''"

definition msgDataPackingThreshold :: nat where
  "msgDataPackingThreshold = 1024"

definition bucketNameDirectInvoc :: string where
  "bucketNameDirectInvoc = ''direct_invoc''"

definition kvsKeyPrefix :: string where
  "kvsKeyPrefix = ''KVS''"

definition get_key_session_name :: "string \<Rightarrow> string \<Rightarrow> string" where
  "get_key_session_name key session = key @ session"

definition get_local_object_name :: "string \<Rightarrow> string \<Rightarrow> string \<Rightarrow> string" where
  "get_local_object_name bucket key session =
     bucket @ kDelimiter @ get_key_session_name key session"

record BucketKey =
  bk_bucket :: Bucket
  bk_key :: Key
  bk_session :: Session

text \<open>The constructor from a bucket and a key with its session appended.\<close>

definition BucketKey_of :: "Bucket \<Rightarrow> string \<Rightarrow> BucketKey" where
  "BucketKey_of bucket session_key =
     (let key_size = length session_key
      in if 16 < key_size
         then \<lparr>bk_bucket = bucket, bk_key = take (key_size - 16) session_key,
               bk_session = drop (key_size - 16) session_key\<rparr>
         else \<lparr>bk_bucket = bucket, bk_key = [], bk_session = []\<rparr>)"

definition shm_key_name :: "BucketKey \<Rightarrow> string" where
  "shm_key_name bk = get_local_object_name (bk_bucket bk) (bk_key bk) (bk_session bk)"

text \<open>
  Without a delimiter \<^verbatim>\<open>find\<close> gives \<^verbatim>\<open>npos\<close>, and \<^verbatim>\<open>npos + 1\<close> wraps to 0: both parts are
  the whole name.
\<close>

definition get_bucket_key_from_string :: "string \<Rightarrow> BucketKey" where
  "get_bucket_key_from_string key_name =
     (if CHR ''|'' \<in> set key_name
      then BucketKey_of (takeWhile (\<lambda>c. c \<noteq> CHR ''|'') key_name)
             (drop 1 (dropWhile (\<lambda>c. c \<noteq> CHR ''|'') key_name))
      else BucketKey_of key_name key_name)"

text \<open>\<^verbatim>\<open>BucketKeyTuple\<close> and \<^verbatim>\<open>BucketKeyAddress\<close> of \<^verbatim>\<open>common.proto\<close>.\<close>

record BucketKeyTuple =
  bkt_bucket :: string
  bkt_key :: string
  bkt_session :: string
  bkt_payload :: string

record BucketKeyAddress =
  bka_bucket :: string
  bka_key :: string
  bka_session :: string
  bka_ips :: "string list"
  bka_payload :: string

definition get_tuple_from_bucket_key :: "BucketKey \<Rightarrow> BucketKeyTuple \<Rightarrow> BucketKeyTuple" where
  "get_tuple_from_bucket_key bk tp =
     tp\<lparr>bkt_bucket := bk_bucket bk, bkt_key := bk_key bk, bkt_session := bk_session bk\<rparr>"

definition get_bucket_key_from_tuple :: "BucketKeyTuple \<Rightarrow> BucketKey" where
  "get_bucket_key_from_tuple tuple =
     \<lparr>bk_bucket = bkt_bucket tuple, bk_key = bkt_key tuple, bk_session = bkt_session tuple\<rparr>"

definition get_addr_from_bucket_key :: "BucketKey \<Rightarrow> BucketKeyAddress \<Rightarrow> BucketKeyAddress" where
  "get_addr_from_bucket_key bk addr =
     addr\<lparr>bka_bucket := bk_bucket bk, bka_key := bk_key bk, bka_session := bk_session bk\<rparr>"

definition get_bucket_key_from_addr :: "BucketKeyAddress \<Rightarrow> BucketKey" where
  "get_bucket_key_from_addr addr =
     \<lparr>bk_bucket = bka_bucket addr, bk_key = bka_key addr, bk_session = bka_session addr\<rparr>"

text \<open>A message as its constructor leaves it.\<close>

definition empty_addr :: BucketKeyAddress where
  "empty_addr = \<lparr>bka_bucket = [], bka_key = [], bka_session = [], bka_ips = [], bka_payload = []\<rparr>"


section \<open>Random ids and timestamps\<close>

definition alpha_num :: string where
  "alpha_num = ''0123456789ABCDEFGHIJKLMNOPQRSTUVWXYZabcdefghijklmnopqrstuvwxyz''"

fun gen_random :: "rand_fun \<Rightarrow> uint32 \<Rightarrow> nat \<Rightarrow> string \<times> uint32" where
  "gen_random rand_r seed 0 = ([], seed)"
| "gen_random rand_r seed (Suc len) =
     (case rand_r seed of
        (r, seed') \<Rightarrow>
          (case gen_random rand_r seed' len of
             (s, seed'') \<Rightarrow> (alpha_num ! (r mod length alpha_num) # s, seed'')))"

text \<open>
  \<^verbatim>\<open>while (id >= pow) pow *= 10\<close> with 32-bit \<^verbatim>\<open>pow\<close>; \<open>None\<close> is the loop that never ends.
\<close>

partial_function (option) timestamp_pow :: "uint32 \<Rightarrow> uint32 \<Rightarrow> uint32 option" where
  "timestamp_pow i pow = (if pow \<le> i then timestamp_pow i (pow * 10) else Some pow)"

definition get_time :: "time \<Rightarrow> uint64" where
  "get_time now = word_of_int (cast_ms now)"

definition generate_timestamp :: "time \<Rightarrow> uint32 \<Rightarrow> uint64 option" where
  "generate_timestamp now i =
     map_option (\<lambda>pow. get_time now * word_of_nat (unat pow) + word_of_nat (unat i))
       (timestamp_pow i 10)"


section \<open>Lemmas\<close>

lemma length_alpha_num [simp]: "length alpha_num = 62"
  by (simp add: alpha_num_def)

lemma alpha_num_safe: "c \<in> set alpha_num \<Longrightarrow> c \<noteq> CHR ''|'' \<and> c \<noteq> CHR 0x00 \<and> c \<noteq> CHR '':''"
  by (auto simp: alpha_num_def)

lemma gen_random_length [simp]: "length (fst (gen_random rand_r seed len)) = len"
  by (induction rand_r seed len rule: gen_random.induct) (auto split: prod.splits)

lemma gen_random_chars: "c \<in> set (fst (gen_random rand_r seed len)) \<Longrightarrow> c \<in> set alpha_num"
proof (induction rand_r seed len rule: gen_random.induct)
  case (2 rand_r seed len)
  then show ?case
    by (auto split: prod.splits intro!: nth_mem simp del: length_alpha_num)
      (simp add: alpha_num_def)
qed simp

lemma BucketKey_of_append:
  assumes "length session = 16" and "key \<noteq> []"
  shows "BucketKey_of bucket (key @ session) =
    \<lparr>bk_bucket = bucket, bk_key = key, bk_session = session\<rparr>"
  using assms by (simp add: BucketKey_of_def)

lemma get_bucket_key_from_addr_inverse [simp]:
  "get_bucket_key_from_addr (get_addr_from_bucket_key bk addr) = bk"
  by (simp add: get_bucket_key_from_addr_def get_addr_from_bucket_key_def)

lemma get_bucket_key_from_tuple_inverse [simp]:
  "get_bucket_key_from_tuple (get_tuple_from_bucket_key bk tp) = bk"
  by (simp add: get_bucket_key_from_tuple_def get_tuple_from_bucket_key_def)


lemma pow10_le: "j \<le> 9 \<Longrightarrow> (10::nat) ^ j < 2 ^ 32"
  using power_increasing [of j 9 "10::nat"] by simp

lemma unat_pow10:
  assumes "j \<le> 9"
  shows "unat (10 ^ j :: uint32) = 10 ^ j"
proof -
  have "(10 ^ j :: uint32) = word_of_nat (10 ^ j)" by simp
  also have "unat \<dots> = 10 ^ j"
    using pow10_le [OF assms] by (simp only: unat_of_nat) simp
  finally show ?thesis .
qed

lemma timestamp_pow_from:
  assumes "unat i < 10 ^ 9" and "1 \<le> j" and "j \<le> 9" and "j = 1 \<or> 10 ^ (j - 1) \<le> unat i"
  shows "\<exists>k. timestamp_pow i (10 ^ j) = Some (10 ^ k) \<and>
    1 \<le> k \<and> k \<le> 9 \<and> unat i < 10 ^ k \<and> (k = 1 \<or> 10 ^ (k - 1) \<le> unat i)"
  using assms
proof (induction "9 - j" arbitrary: j)
  case 0
  then have j: "j = 9" by simp
  have "\<not> (10 ^ j :: uint32) \<le> i"
    using 0 by (simp add: word_le_nat_alt unat_pow10 j)
  then have "timestamp_pow i (10 ^ j) = Some (10 ^ j)"
    by (subst timestamp_pow.simps) simp
  with 0 j show ?case by (intro exI [of _ 9]) auto
next
  case (Suc d)
  then have j: "j \<le> 8" by simp
  show ?case
  proof (cases "10 ^ j \<le> unat i")
    case True
    have step: "(10 ^ j :: uint32) * 10 = 10 ^ Suc j"
      by simp
    have "(10 ^ j :: uint32) \<le> i"
      using True j by (simp add: word_le_nat_alt unat_pow10)
    then have "timestamp_pow i (10 ^ j) = timestamp_pow i (10 ^ Suc j)"
      by (subst timestamp_pow.simps) (simp only: step if_True)
    moreover have "\<exists>k. timestamp_pow i (10 ^ Suc j) = Some (10 ^ k) \<and>
      1 \<le> k \<and> k \<le> 9 \<and> unat i < 10 ^ k \<and> (k = 1 \<or> 10 ^ (k - 1) \<le> unat i)"
      by (rule Suc.hyps(1)) (use Suc.prems Suc.hyps(2) True j in auto)
    ultimately show ?thesis by simp
  next
    case False
    have "\<not> (10 ^ j :: uint32) \<le> i"
      using False j by (simp add: word_le_nat_alt unat_pow10)
    then have "timestamp_pow i (10 ^ j) = Some (10 ^ j)"
      by (subst timestamp_pow.simps) simp
    with False Suc.prems show ?thesis by (intro exI [of _ j]) auto
  qed
qed

lemma timestamp_pow_small:
  assumes "unat i < 10 ^ 9"
  shows "\<exists>k. timestamp_pow i 10 = Some (10 ^ k) \<and>
    1 \<le> k \<and> k \<le> 9 \<and> unat i < 10 ^ k \<and> (k = 1 \<or> 10 ^ (k - 1) \<le> unat i)"
  using timestamp_pow_from [OF assms, of 1] by simp

lemma unat_timestamp:
  assumes "m * p + i < 2 ^ 64" and "p < 2 ^ 32" and "i < 2 ^ 32"
  shows "unat (word_of_int (int m) * word_of_nat p + word_of_nat i :: uint64) = m * p + i"
proof -
  have "(word_of_int (int m) * word_of_nat p + word_of_nat i :: uint64) = word_of_nat (m * p + i)"
    by simp
  also have "unat \<dots> = m * p + i"
    using assms(1) by (simp only: unat_of_nat) simp
  finally show ?thesis .
qed

text \<open>
  Property C34: for thread ids below \<open>10 ^ 9\<close> the loop of \<^verbatim>\<open>generate_timestamp\<close> returns, and as
  long as the product fits into 64 bits the timestamp carries the clock's milliseconds in front of
  exactly the digits that the thread id needs, so that both can be read back: timestamps of one
  thread grow with the clock, and threads with ids of the same number of digits never share one.
\<close>

theorem generate_timestamp_decodes:
  assumes "unat i < 10 ^ 9" and "0 \<le> cast_ms now"
    and "(nat (cast_ms now) + 1) * (10 * max 1 (unat i)) < 2 ^ 64"
  shows "\<exists>ts k. generate_timestamp now i = Some ts \<and> unat i < 10 ^ k \<and>
    (k = 1 \<or> 10 ^ (k - 1) \<le> unat i) \<and>
    int (unat ts div 10 ^ k) = cast_ms now \<and> unat ts mod 10 ^ k = unat i"
proof -
  obtain k where k: "timestamp_pow i 10 = Some (10 ^ k)" "1 \<le> k" "k \<le> 9"
    "unat i < 10 ^ k" "k = 1 \<or> 10 ^ (k - 1) \<le> unat i"
    using timestamp_pow_small [OF assms(1)] by blast
  let ?m = "nat (cast_ms now)"
  have up: "10 ^ k \<le> 10 * max 1 (unat i)"
    using k(2,5) by (cases k) auto
  note assms(3)
  moreover have "?m * 10 ^ k + unat i < (?m + 1) * 10 ^ k" using k(4) by simp
  moreover have "(?m + 1) * 10 ^ k \<le> (?m + 1) * (10 * max 1 (unat i))"
    using up by (rule mult_le_mono2)
  ultimately have bound: "?m * 10 ^ k + unat i < 2 ^ 64" by linarith
  let ?ts = "get_time now * word_of_nat (10 ^ k) + word_of_nat (unat i)"
  have ts: "unat ?ts = ?m * 10 ^ k + unat i"
    using unat_timestamp [OF bound] pow10_le [OF k(3)] unsigned_less [of i] assms(2)
    by (simp add: get_time_def)
  have "generate_timestamp now i = Some ?ts"
    by (simp only: generate_timestamp_def k(1) option.map unat_pow10 [OF k(3)])
  moreover have "unat ?ts div 10 ^ k = ?m" "unat ?ts mod 10 ^ k = unat i"
    unfolding ts using k(4) by simp_all
  ultimately show ?thesis using k(4,5) assms(2) by (intro exI [of _ ?ts] exI [of _ k]) simp
qed
theorem generate_timestamp_decodes_witness:
  "unat (3 :: uint32) < 10 ^ 9 \<and> 0 \<le> cast_ms 1700000000000000000 \<and>
   (\<exists>ts k. generate_timestamp 1700000000000000000 3 = Some ts \<and> unat (3 :: uint32) < 10 ^ k \<and>
     int (unat ts div 10 ^ k) = 1700000000000 \<and> unat ts mod 10 ^ k = 3)"
proof -
  have c: "cast_ms 1700000000000000000 = 1700000000000"
    by (simp add: cast_ms_def trunc_div_def)
  show ?thesis
    using generate_timestamp_decodes [of 3 1700000000000000000] by (auto simp: c)
qed

end
