(* ===== verification/Ph_Trigger.thy ===== *)
theory Ph_Trigger
  imports Ph_Common
begin

text \<open>
  \<^verbatim>\<open>common/include/trigger.hpp\<close>: the trigger primitives of a bucket. A trigger object is the
  record of the base class with a body for its class; the seven classes are records of their own
  and \<open>trigger_body\<close> is the hierarchy. A member function that changes the object returns it
  changed. The clock is an argument. Messages of the generated protocol-buffer classes are
  tuples, and \<open>prim_codec\<close> stands for the generated \<^verbatim>\<open>SerializeToString\<close> and
  \<^verbatim>\<open>ParseFromString\<close> of the seven primitive messages.
\<close>

section \<open>Data\<close>

text \<open>An enumeration of proto3 is open: any number can arrive.\<close>

datatype PrimitiveType =
    IMMEDIATE | BY_NAME | BY_BATCH_SIZE | BY_SET | DYNAMIC_GROUP | REDUNDANT | BY_TIME
  | UNKNOWN_PRIMITIVE nat

type_synonym session_key = "Session \<times> Key"

record TriggerAction =
  act_function :: string
  act_session_keys :: "session_key list"

record TriggerFunctionMetadata =
  tfm_func_name :: string
  tfm_func_args :: "string list"
  tfm_arg_flag :: int

record RerunMetadata =
  rr_source_func :: string
  rr_source_key :: string
  rr_timeout :: uint32

type_synonym status_cache = "string \<rightharpoonup> TriggerFunctionMetadata"

record ImmediateTrigger =
  im_cache :: status_cache

record ByNameTrigger =
  bn_key_name :: string
  bn_cache :: status_cache

record ByBatchSizeTrigger =
  bb_count :: "32 word"
  bb_buffer :: "session_key list"
  bb_cache :: status_cache

record BySetTrigger =
  bs_key_set :: "Key list"
  bs_prepared :: "Session \<rightharpoonup> Key list"
  bs_func_key_map :: "(string \<times> Key) list"
  bs_cache :: status_cache

record DynamicGroupTrigger =
  dg_data_groups :: "(string \<times> Key list) list"
  dg_control_group :: "Key list"
  dg_cur_control :: "Key list"

record RedundantTrigger =
  rd_k :: uint32
  rd_n :: uint32
  rd_count :: uint32
  rd_buffer :: "session_key list"

record ByTimeTrigger =
  bt_time_window :: uint32
  bt_buffer :: "session_key list"
  bt_last_stamp :: time

datatype trigger_body =
    Immediate ImmediateTrigger
  | ByName ByNameTrigger
  | ByBatchSize ByBatchSizeTrigger
  | BySet BySetTrigger
  | DynamicGroup DynamicGroupTrigger
  | Redundant RedundantTrigger
  | ByTime ByTimeTrigger

record Trigger =
  target_function :: string
  trigger_name :: string
  trigger_type :: PrimitiveType
  trigger_option :: int
  trigger_body :: trigger_body

definition group_delimiter :: char where
  "group_delimiter = CHR '':''"

definition control_group_prefix :: string where
  "control_group_prefix = ''ctrl''"


section \<open>Constructors\<close>

definition new_trigger :: "string \<Rightarrow> string \<Rightarrow> PrimitiveType \<Rightarrow> trigger_body \<Rightarrow> Trigger" where
  "new_trigger function_name name type body =
     \<lparr>target_function = function_name, trigger_name = name, trigger_type = type,
      trigger_option = 0, trigger_body = body\<rparr>"

definition new_Immediate :: "string \<Rightarrow> string \<Rightarrow> Trigger" where
  "new_Immediate function_name name =
     new_trigger function_name name IMMEDIATE (Immediate \<lparr>im_cache = Map.empty\<rparr>)"

definition new_ByName :: "string \<Rightarrow> string \<Rightarrow> string \<Rightarrow> Trigger" where
  "new_ByName function_name name key_name =
     new_trigger function_name name BY_NAME
       (ByName \<lparr>bn_key_name = key_name, bn_cache = Map.empty\<rparr>)"

definition new_ByBatchSize :: "string \<Rightarrow> string \<Rightarrow> 32 word \<Rightarrow> Trigger" where
  "new_ByBatchSize function_name name cnt =
     new_trigger function_name name BY_BATCH_SIZE
       (ByBatchSize \<lparr>bb_count = cnt, bb_buffer = [], bb_cache = Map.empty\<rparr>)"

definition new_BySet :: "string \<Rightarrow> string \<Rightarrow> Key list \<Rightarrow> Trigger" where
  "new_BySet function_name name key_set =
     new_trigger function_name name BY_SET
       (BySet \<lparr>bs_key_set = key_set, bs_prepared = Map.empty, bs_func_key_map = [],
               bs_cache = Map.empty\<rparr>)"

definition new_DynamicGroup :: "string \<Rightarrow> string \<Rightarrow> Key list \<Rightarrow> Trigger" where
  "new_DynamicGroup function_name name control_group =
     new_trigger function_name name DYNAMIC_GROUP
       (DynamicGroup \<lparr>dg_data_groups = [], dg_control_group = control_group,
                      dg_cur_control = []\<rparr>)"

definition new_Redundant :: "string \<Rightarrow> string \<Rightarrow> uint32 \<Rightarrow> uint32 \<Rightarrow> Trigger" where
  "new_Redundant function_name name k n =
     new_trigger function_name name REDUNDANT
       (Redundant \<lparr>rd_k = k, rd_n = n, rd_count = 0, rd_buffer = []\<rparr>)"

definition new_ByTime :: "time \<Rightarrow> string \<Rightarrow> string \<Rightarrow> uint32 \<Rightarrow> Trigger" where
  "new_ByTime now function_name name time_window =
     new_trigger function_name name BY_TIME
       (ByTime \<lparr>bt_time_window = time_window, bt_buffer = [], bt_last_stamp = now\<rparr>)"

definition set_trigger_option :: "int \<Rightarrow> Trigger \<Rightarrow> Trigger" where
  "set_trigger_option option t = t\<lparr>trigger_option := option\<rparr>"


section \<open>A new object arrives\<close>

definition session_key_of :: "BucketKey \<Rightarrow> session_key" where
  "session_key_of bk = (bk_session bk, bk_key bk)"

definition immediate_action ::
  "string \<Rightarrow> BucketKey \<Rightarrow> ImmediateTrigger \<Rightarrow> TriggerAction list \<times> ImmediateTrigger" where
  "immediate_action target bk t =
     ([\<lparr>act_function = target, act_session_keys = [session_key_of bk]\<rparr>],
      t\<lparr>im_cache := map_erase (im_cache t) (bk_session bk)\<rparr>)"

definition by_name_action ::
  "string \<Rightarrow> BucketKey \<Rightarrow> ByNameTrigger \<Rightarrow> TriggerAction list \<times> ByNameTrigger" where
  "by_name_action target bk t =
     (if bk_key bk = bn_key_name t
      then [\<lparr>act_function = target, act_session_keys = [session_key_of bk]\<rparr>] else [],
      t\<lparr>bn_cache := map_erase (bn_cache t) (bk_session bk)\<rparr>)"

definition by_batch_size_action ::
  "string \<Rightarrow> BucketKey \<Rightarrow> ByBatchSizeTrigger \<Rightarrow> TriggerAction list \<times> ByBatchSizeTrigger" where
  "by_batch_size_action target bk t =
     (let buffer = bb_buffer t @ [session_key_of bk];
          t' = t\<lparr>bb_buffer := buffer, bb_cache := map_erase (bb_cache t) (bk_session bk)\<rparr>
      in if int_to_size (bb_count t) \<le> length buffer
         then ([\<lparr>act_function = target, act_session_keys = buffer\<rparr>], t'\<lparr>bb_buffer := []\<rparr>)
         else ([], t'))"

definition by_set_action ::
  "string \<Rightarrow> BucketKey \<Rightarrow> BySetTrigger \<Rightarrow> TriggerAction list \<times> BySetTrigger" where
  "by_set_action target bk t =
     (if bk_key bk \<in> set (bs_key_set t)
      then
        (let keys = uset_insert (bk_key bk) (map_at [] (bs_prepared t) (bk_session bk));
             t' = t\<lparr>bs_prepared := (bs_prepared t)(bk_session bk \<mapsto> keys),
                    bs_cache := map_erase (bs_cache t) (bk_key bk @ bk_session bk)\<rparr>
         in if length keys = length (bs_key_set t)
            then ([\<lparr>act_function = target,
                    act_session_keys = map (\<lambda>key. (bk_session bk, key)) (bs_key_set t)\<rparr>],
                  t'\<lparr>bs_prepared := map_erase (bs_prepared t') (bk_session bk)\<rparr>)
            else ([], t'))
      else ([], t))"

text \<open>
  \<^verbatim>\<open>key.substr(0, key.find(":"))\<close>: up to the delimiter, or the whole key without one.
\<close>

definition group_of :: "Key \<Rightarrow> string" where
  "group_of key = takeWhile (\<lambda>c. c \<noteq> group_delimiter) key"

definition dynamic_group_action ::
  "string \<Rightarrow> BucketKey \<Rightarrow> DynamicGroupTrigger \<Rightarrow> TriggerAction list \<times> DynamicGroupTrigger" where
  "dynamic_group_action target bk t =
     (let group = group_of (bk_key bk)
      in if group = control_group_prefix
         then
           (let cur = (if bk_key bk \<in> set (dg_control_group t)
                       then uset_insert (bk_key bk) (dg_cur_control t) else dg_cur_control t)
            in if length cur = length (dg_control_group t)
               then (map (\<lambda>group_keys.
                            \<lparr>act_function = target,
                             act_session_keys = map (\<lambda>key. (bk_session bk, key)) (snd group_keys)\<rparr>)
                       (dg_data_groups t),
                     t\<lparr>dg_data_groups := [], dg_cur_control := []\<rparr>)
               else ([], t\<lparr>dg_cur_control := cur\<rparr>))
         else ([], t\<lparr>dg_data_groups :=
                       AList.update group
                         (uset_insert (bk_key bk) (umap_at [] (dg_data_groups t) group))
                         (dg_data_groups t)\<rparr>))"

definition redundant_action ::
  "string \<Rightarrow> BucketKey \<Rightarrow> RedundantTrigger \<Rightarrow> TriggerAction list \<times> RedundantTrigger" where
  "redundant_action target bk t =
     (let cnt = rd_count t + 1
      in if cnt \<le> rd_k t
         then
           (let buffer = rd_buffer t @ [session_key_of bk]
            in if cnt = rd_k t
               then ([\<lparr>act_function = target, act_session_keys = buffer\<rparr>],
                     t\<lparr>rd_count := cnt, rd_buffer := []\<rparr>)
               else ([], t\<lparr>rd_count := cnt, rd_buffer := buffer\<rparr>))
         else if rd_n t \<le> cnt then ([], t\<lparr>rd_count := 0\<rparr>)
         else ([], t\<lparr>rd_count := cnt\<rparr>))"

definition by_time_action ::
  "time \<Rightarrow> string \<Rightarrow> BucketKey \<Rightarrow> ByTimeTrigger \<Rightarrow> TriggerAction list \<times> ByTimeTrigger" where
  "by_time_action cur_stamp target bk t =
     (let buffer = bt_buffer t @ [session_key_of bk]
      in if uint (bt_time_window t) \<le> cast_ms (cur_stamp - bt_last_stamp t)
         then ([\<lparr>act_function = target, act_session_keys = buffer\<rparr>],
               t\<lparr>bt_buffer := [], bt_last_stamp := cur_stamp\<rparr>)
         else ([], t\<lparr>bt_buffer := buffer\<rparr>))"

text \<open>The virtual call \<^verbatim>\<open>trigger->action_for_new_object(bucket_key)\<close>.\<close>

definition body_action ::
  "time \<Rightarrow> string \<Rightarrow> BucketKey \<Rightarrow> trigger_body \<Rightarrow> TriggerAction list \<times> trigger_body" where
  "body_action now target bk body =
     (case body of
        Immediate t \<Rightarrow> map_prod id Immediate (immediate_action target bk t)
      | ByName t \<Rightarrow> map_prod id ByName (by_name_action target bk t)
      | ByBatchSize t \<Rightarrow> map_prod id ByBatchSize (by_batch_size_action target bk t)
      | BySet t \<Rightarrow> map_prod id BySet (by_set_action target bk t)
      | DynamicGroup t \<Rightarrow> map_prod id DynamicGroup (dynamic_group_action target bk t)
      | Redundant t \<Rightarrow> map_prod id Redundant (redundant_action target bk t)
      | ByTime t \<Rightarrow> map_prod id ByTime (by_time_action now target bk t))"

definition action_for_new_object ::
  "time \<Rightarrow> BucketKey \<Rightarrow> Trigger \<Rightarrow> TriggerAction list \<times> Trigger" where
  "action_for_new_object now bk t =
     (case body_action now (target_function t) bk (trigger_body t) of
        (actions, body) \<Rightarrow> (actions, t\<lparr>trigger_body := body\<rparr>))"


section \<open>Re-execution and clearing\<close>

definition mk_tfm :: "string \<Rightarrow> string list \<Rightarrow> int \<Rightarrow> TriggerFunctionMetadata" where
  "mk_tfm func_name func_args arg_flag =
     \<lparr>tfm_func_name = func_name, tfm_func_args = func_args, tfm_arg_flag = arg_flag\<rparr>"

definition immediate_notify ::
  "string \<Rightarrow> string \<Rightarrow> string list \<Rightarrow> int \<Rightarrow> ImmediateTrigger \<Rightarrow> ImmediateTrigger" where
  "immediate_notify func_name session_id func_args arg_flag t =
     t\<lparr>im_cache := (im_cache t)(session_id \<mapsto> mk_tfm func_name func_args arg_flag)\<rparr>"

definition by_name_notify ::
  "string \<Rightarrow> string \<Rightarrow> string list \<Rightarrow> int \<Rightarrow> ByNameTrigger \<Rightarrow> ByNameTrigger" where
  "by_name_notify func_name session_id func_args arg_flag t =
     t\<lparr>bn_cache := (bn_cache t)(session_id \<mapsto> mk_tfm func_name func_args arg_flag)\<rparr>"

definition by_batch_size_notify ::
  "string \<Rightarrow> string \<Rightarrow> string list \<Rightarrow> int \<Rightarrow> ByBatchSizeTrigger \<Rightarrow> ByBatchSizeTrigger" where
  "by_batch_size_notify func_name session_id func_args arg_flag t =
     t\<lparr>bb_cache := (bb_cache t)(session_id \<mapsto> mk_tfm func_name func_args arg_flag)\<rparr>"

definition by_set_notify ::
  "string \<Rightarrow> string \<Rightarrow> string list \<Rightarrow> int \<Rightarrow> BySetTrigger \<Rightarrow> BySetTrigger" where
  "by_set_notify func_name session_id func_args arg_flag t =
     (if bs_func_key_map t = [] then t
      else t\<lparr>bs_func_key_map := umap_touch [] func_name (bs_func_key_map t),
             bs_cache := (bs_cache t)(umap_at [] (bs_func_key_map t) func_name @ session_id \<mapsto>
                            mk_tfm func_name func_args arg_flag)\<rparr>)"

text \<open>The classes that do not override \<^verbatim>\<open>notify_source_func\<close> inherit the empty one.\<close>

definition notify_source_func ::
  "string \<Rightarrow> string \<Rightarrow> string list \<Rightarrow> int \<Rightarrow> Trigger \<Rightarrow> Trigger" where
  "notify_source_func func_name session_id func_args arg_flag tr =
     tr\<lparr>trigger_body :=
       (case trigger_body tr of
          Immediate t \<Rightarrow> Immediate (immediate_notify func_name session_id func_args arg_flag t)
        | ByName t \<Rightarrow> ByName (by_name_notify func_name session_id func_args arg_flag t)
        | ByBatchSize t \<Rightarrow> ByBatchSize (by_batch_size_notify func_name session_id func_args arg_flag t)
        | BySet t \<Rightarrow> BySet (by_set_notify func_name session_id func_args arg_flag t)
        | b \<Rightarrow> b)\<rparr>"

definition cached :: "status_cache \<Rightarrow> string \<Rightarrow> TriggerFunctionMetadata list" where
  "cached cache key = (case cache key of None \<Rightarrow> [] | Some meta \<Rightarrow> [meta])"

definition immediate_rerun :: "string \<Rightarrow> ImmediateTrigger \<Rightarrow> TriggerFunctionMetadata list" where
  "immediate_rerun session_id t = cached (im_cache t) session_id"

definition by_name_rerun :: "string \<Rightarrow> ByNameTrigger \<Rightarrow> TriggerFunctionMetadata list" where
  "by_name_rerun session_id t = cached (bn_cache t) session_id"

definition by_batch_size_rerun :: "string \<Rightarrow> ByBatchSizeTrigger \<Rightarrow> TriggerFunctionMetadata list" where
  "by_batch_size_rerun session_id t = cached (bb_cache t) session_id"

definition by_set_rerun :: "string \<Rightarrow> BySetTrigger \<Rightarrow> TriggerFunctionMetadata list" where
  "by_set_rerun session_id t =
     (if bs_func_key_map t = [] then []
      else concat (map (\<lambda>key. cached (bs_cache t) (key @ session_id)) (bs_key_set t)))"

definition action_for_rerun :: "string \<Rightarrow> Trigger \<Rightarrow> TriggerFunctionMetadata list" where
  "action_for_rerun session_id tr =
     (case trigger_body tr of
        Immediate t \<Rightarrow> immediate_rerun session_id t
      | ByName t \<Rightarrow> by_name_rerun session_id t
      | ByBatchSize t \<Rightarrow> by_batch_size_rerun session_id t
      | BySet t \<Rightarrow> by_set_rerun session_id t
      | _ \<Rightarrow> [])"

definition by_set_set_rerun :: "RerunMetadata list \<Rightarrow> BySetTrigger \<Rightarrow> BySetTrigger" where
  "by_set_set_rerun metas t =
     t\<lparr>bs_func_key_map :=
       fold (\<lambda>meta. AList.update (rr_source_func meta) (rr_source_key meta)) metas
         (bs_func_key_map t)\<rparr>"

definition set_rerun_metadata :: "RerunMetadata list \<Rightarrow> Trigger \<Rightarrow> Trigger" where
  "set_rerun_metadata metas tr =
     (case trigger_body tr of
        BySet t \<Rightarrow> tr\<lparr>trigger_body := BySet (by_set_set_rerun metas t)\<rparr>
      | _ \<Rightarrow> tr)"

text \<open>\<^verbatim>\<open>clear\<close> of the immediate and the by-name trigger does nothing.\<close>

definition by_batch_size_clear :: "string \<Rightarrow> ByBatchSizeTrigger \<Rightarrow> ByBatchSizeTrigger" where
  "by_batch_size_clear session t = t\<lparr>bb_buffer := [], bb_cache := Map.empty\<rparr>"

definition by_set_clear :: "string \<Rightarrow> BySetTrigger \<Rightarrow> BySetTrigger" where
  "by_set_clear session t =
     t\<lparr>bs_prepared := map_erase (bs_prepared t) session,
        bs_cache := map_erase (bs_cache t) session\<rparr>"

definition dynamic_group_clear :: "string \<Rightarrow> DynamicGroupTrigger \<Rightarrow> DynamicGroupTrigger" where
  "dynamic_group_clear session t = t\<lparr>dg_data_groups := [], dg_cur_control := []\<rparr>"

definition redundant_clear :: "string \<Rightarrow> RedundantTrigger \<Rightarrow> RedundantTrigger" where
  "redundant_clear session t = t\<lparr>rd_count := rd_count t + rd_k t, rd_buffer := []\<rparr>"

definition by_time_clear :: "string \<Rightarrow> ByTimeTrigger \<Rightarrow> ByTimeTrigger" where
  "by_time_clear session t = t\<lparr>bt_buffer := []\<rparr>"

definition clear_trigger :: "string \<Rightarrow> Trigger \<Rightarrow> Trigger" where
  "clear_trigger session tr =
     tr\<lparr>trigger_body :=
       (case trigger_body tr of
          Immediate t \<Rightarrow> Immediate t
        | ByName t \<Rightarrow> ByName t
        | ByBatchSize t \<Rightarrow> ByBatchSize (by_batch_size_clear session t)
        | BySet t \<Rightarrow> BySet (by_set_clear session t)
        | DynamicGroup t \<Rightarrow> DynamicGroup (dynamic_group_clear session t)
        | Redundant t \<Rightarrow> Redundant (redundant_clear session t)
        | ByTime t \<Rightarrow> ByTime (by_time_clear session t))\<rparr>"


section \<open>Serialization\<close>

text \<open>
  The messages of \<^verbatim>\<open>operation.proto\<close>, field by field, and the generated code that converts
  them to and from strings.
\<close>

type_synonym ImmediatePrimitive = string
type_synonym ByNamePrimitive = "string \<times> string"
type_synonym ByBatchSizePrimitive = "string \<times> uint32"
type_synonym BySetPrimitive = "string \<times> string list"
type_synonym DynamicGroupPrimitive = "string \<times> string list"
type_synonym RedundantPrimitive = "string \<times> uint32 \<times> uint32"
type_synonym ByTimePrimitive = "string \<times> uint32"

record prim_codec =
  ser_Immediate :: "ImmediatePrimitive \<Rightarrow> string"
  parse_Immediate :: "string \<Rightarrow> ImmediatePrimitive"
  ser_ByName :: "ByNamePrimitive \<Rightarrow> string"
  parse_ByName :: "string \<Rightarrow> ByNamePrimitive"
  ser_ByBatchSize :: "ByBatchSizePrimitive \<Rightarrow> string"
  parse_ByBatchSize :: "string \<Rightarrow> ByBatchSizePrimitive"
  ser_BySet :: "BySetPrimitive \<Rightarrow> string"
  parse_BySet :: "string \<Rightarrow> BySetPrimitive"
  ser_DynamicGroup :: "DynamicGroupPrimitive \<Rightarrow> string"
  parse_DynamicGroup :: "string \<Rightarrow> DynamicGroupPrimitive"
  ser_Redundant :: "RedundantPrimitive \<Rightarrow> string"
  parse_Redundant :: "string \<Rightarrow> RedundantPrimitive"
  ser_ByTime :: "ByTimePrimitive \<Rightarrow> string"
  parse_ByTime :: "string \<Rightarrow> ByTimePrimitive"

definition immediate_dump :: "prim_codec \<Rightarrow> string \<Rightarrow> ImmediateTrigger \<Rightarrow> string" where
  "immediate_dump pb target t = ser_Immediate pb target"

definition by_name_dump :: "prim_codec \<Rightarrow> string \<Rightarrow> ByNameTrigger \<Rightarrow> string" where
  "by_name_dump pb target t = ser_ByName pb (target, bn_key_name t)"

definition by_batch_size_dump :: "prim_codec \<Rightarrow> string \<Rightarrow> ByBatchSizeTrigger \<Rightarrow> string" where
  "by_batch_size_dump pb target t = ser_ByBatchSize pb (target, bb_count t)"

definition by_set_dump :: "prim_codec \<Rightarrow> string \<Rightarrow> BySetTrigger \<Rightarrow> string" where
  "by_set_dump pb target t = ser_BySet pb (target, bs_key_set t)"

definition dynamic_group_dump :: "prim_codec \<Rightarrow> string \<Rightarrow> DynamicGroupTrigger \<Rightarrow> string" where
  "dynamic_group_dump pb target t = ser_DynamicGroup pb (target, dg_control_group t)"

definition redundant_dump :: "prim_codec \<Rightarrow> string \<Rightarrow> RedundantTrigger \<Rightarrow> string" where
  "redundant_dump pb target t = ser_Redundant pb (target, rd_k t, rd_n t)"

definition by_time_dump :: "prim_codec \<Rightarrow> string \<Rightarrow> ByTimeTrigger \<Rightarrow> string" where
  "by_time_dump pb target t = ser_ByTime pb (target, bt_time_window t)"

definition dump_pritimive :: "prim_codec \<Rightarrow> Trigger \<Rightarrow> string" where
  "dump_pritimive pb tr =
     (case trigger_body tr of
        Immediate t \<Rightarrow> immediate_dump pb (target_function tr) t
      | ByName t \<Rightarrow> by_name_dump pb (target_function tr) t
      | ByBatchSize t \<Rightarrow> by_batch_size_dump pb (target_function tr) t
      | BySet t \<Rightarrow> by_set_dump pb (target_function tr) t
      | DynamicGroup t \<Rightarrow> dynamic_group_dump pb (target_function tr) t
      | Redundant t \<Rightarrow> redundant_dump pb (target_function tr) t
      | ByTime t \<Rightarrow> by_time_dump pb (target_function tr) t)"

lemmas trigger_defs =
  immediate_notify_def by_name_notify_def by_batch_size_notify_def by_set_notify_def
  notify_source_func_def immediate_rerun_def by_name_rerun_def by_batch_size_rerun_def
  by_set_rerun_def action_for_rerun_def by_batch_size_clear_def by_set_clear_def
  dynamic_group_clear_def redundant_clear_def by_time_clear_def clear_trigger_def
  immediate_dump_def by_name_dump_def by_batch_size_dump_def by_set_dump_def
  dynamic_group_dump_def redundant_dump_def by_time_dump_def dump_pritimive_def

text \<open>\<open>None\<close> is the null pointer of the last branch.\<close>

definition gen_trigger_pointer ::
  "prim_codec \<Rightarrow> time \<Rightarrow> PrimitiveType \<Rightarrow> string \<Rightarrow> string \<Rightarrow> Trigger option" where
  "gen_trigger_pointer pb now type name serialized =
     (case type of
        IMMEDIATE \<Rightarrow> Some (new_Immediate (parse_Immediate pb serialized) name)
      | BY_NAME \<Rightarrow>
          (case parse_ByName pb serialized of
             (function, key_name) \<Rightarrow> Some (new_ByName function name key_name))
      | BY_BATCH_SIZE \<Rightarrow>
          (case parse_ByBatchSize pb serialized of
             (function, cnt) \<Rightarrow> Some (new_ByBatchSize function name cnt))
      | BY_SET \<Rightarrow>
          (case parse_BySet pb serialized of
             (function, keys) \<Rightarrow> Some (new_BySet function name (uset_of keys)))
      | DYNAMIC_GROUP \<Rightarrow>
          (case parse_DynamicGroup pb serialized of
             (function, keys) \<Rightarrow> Some (new_DynamicGroup function name (uset_of keys)))
      | REDUNDANT \<Rightarrow>
          (case parse_Redundant pb serialized of
             (function, k, n) \<Rightarrow> Some (new_Redundant function name k n))
      | BY_TIME \<Rightarrow>
          (case parse_ByTime pb serialized of
             (function, time_window) \<Rightarrow> Some (new_ByTime now function name time_window))
      | UNKNOWN_PRIMITIVE _ \<Rightarrow> None)"

end
