(* ===== verification/Ph_Threads.thy ===== *)
theory Ph_Threads
  imports Ph_Common
begin

text \<open>
  The addresses of the services: \<^verbatim>\<open>common/include/anna_threads.hpp\<close>, \<^verbatim>\<open>kvs_threads.hpp\<close> and
  \<^verbatim>\<open>op_threads.hpp\<close>. Every class there has the members \<^verbatim>\<open>ip_\<close>, \<^verbatim>\<open>ip_base_\<close> and
  \<^verbatim>\<open>tid_\<close>, one constructor, and one function per service and side; they share the record
  \<open>NodeThread\<close> here. Ports are 32-bit sums of a base port and the thread id.
\<close>

record NodeThread =
  th_ip :: Address
  th_ip_base :: Address
  th_tid :: uint32

definition new_thread :: "Address \<Rightarrow> uint32 \<Rightarrow> NodeThread" where
  "new_thread ip tid = \<lparr>th_ip = ip, th_ip_base = ''tcp://'' @ ip @ '':'', th_tid = tid\<rparr>"

definition has_same_ip_tid :: "NodeThread \<Rightarrow> Address \<Rightarrow> uint32 \<Rightarrow> bool" where
  "has_same_ip_tid th ip tid \<longleftrightarrow> th_ip th = ip \<and> th_tid th = tid"

definition kBindBase :: string where
  "kBindBase = ''tcp://*:''"

definition bind_address :: "NodeThread \<Rightarrow> uint32 \<Rightarrow> Address" where
  "bind_address th port = kBindBase @ to_string (unat (th_tid th + port))"

definition connect_address :: "NodeThread \<Rightarrow> uint32 \<Rightarrow> Address" where
  "connect_address th port = th_ip_base th @ to_string (unat (th_tid th + port))"


section \<open>Ports\<close>

text \<open>The constants of the three headers, by name.\<close>

datatype anna_port_name =
    kKeyAddressPort | kUserResponsePort | kUserKeyAddressPort | kCacheUpdatePort

fun anna_port :: "anna_port_name \<Rightarrow> uint32" where
  "anna_port kKeyAddressPort = 6450"
| "anna_port kUserResponsePort = 6800"
| "anna_port kUserKeyAddressPort = 6850"
| "anna_port kCacheUpdatePort = 7150"

datatype kvs_port_name =
    funcExecPort | internalFuncCallPort | dataAccessServerPort | dataAccessClientPort
  | forwardFuncPort | kRemoteResponsePort | kRemoteGetPort | kNotifyPort | kQueryPort
  | kNotifyHandlerPort | kQueryHandlerPort | TriggerUpdatePort | updateStatusHandlerPort
  | bucketQueryPort | bucketUpdatePort

fun kvs_port :: "kvs_port_name \<Rightarrow> uint32" where
  "kvs_port funcExecPort = 4300"
| "kvs_port internalFuncCallPort = 4350"
| "kvs_port dataAccessServerPort = 4400"
| "kvs_port dataAccessClientPort = 4450"
| "kvs_port forwardFuncPort = 4500"
| "kvs_port kRemoteResponsePort = 7500"
| "kvs_port kRemoteGetPort = 7550"
| "kvs_port kNotifyPort = 7600"
| "kvs_port kQueryPort = 7650"
| "kvs_port kNotifyHandlerPort = 7350"
| "kvs_port kQueryHandlerPort = 7400"
| "kvs_port TriggerUpdatePort = 7700"
| "kvs_port updateStatusHandlerPort = 7750"
| "kvs_port bucketQueryPort = 8150"
| "kvs_port bucketUpdatePort = 8250"

datatype op_port_name =
    funcCreatePort | appRegistPort | funcCallPort | coordSyncPort | coordQueryPort | oBucketPort
  | oTriggerPort

fun op_port :: "op_port_name \<Rightarrow> uint32" where
  "op_port funcCreatePort = 5000"
| "op_port appRegistPort = 5020"
| "op_port funcCallPort = 5050"
| "op_port coordSyncPort = 6001"
| "op_port coordQueryPort = 6002"
| "op_port oBucketPort = 7800"
| "op_port oTriggerPort = 7900"

declare anna_port.simps [simp del] kvs_port.simps [simp del] op_port.simps [simp del]

section \<open>Addresses\<close>

text \<open>
  What the member functions of the classes \<^verbatim>\<open>CacheThread\<close>, \<^verbatim>\<open>KVSThread\<close> and \<^verbatim>\<open>ManagementServerThread\<close>
  return, in their order; nothing else uses them. The remaining functions of \<^verbatim>\<open>UserThread\<close>,
  \<^verbatim>\<open>CommHelperThread\<close> and \<^verbatim>\<open>OperationThread\<close> that nothing else uses are listed in the same way.
\<close>

definition CacheThread_addresses :: "NodeThread \<Rightarrow> Address list" where
  "CacheThread_addresses th =
     [''ipc:///requests/get'', ''ipc:///requests/get'', ''ipc:///requests/put'', ''ipc:///requests/put'',
      bind_address th (anna_port kCacheUpdatePort), connect_address th (anna_port kCacheUpdatePort)]"

definition KVSThread_addresses :: "NodeThread \<Rightarrow> Address list" where
  "KVSThread_addresses th =
     [''ipc:///requests/get'', ''ipc:///requests/get'', ''ipc:///requests/put'', ''ipc:///requests/put'',
      bind_address th (kvs_port kRemoteGetPort), connect_address th (kvs_port kRemoteGetPort)]"

definition ManagementServerThread_addresses :: "NodeThread \<Rightarrow> Address list" where
  "ManagementServerThread_addresses th =
     [connect_address th (kvs_port bucketQueryPort), bind_address th (kvs_port bucketQueryPort),
      connect_address th (kvs_port bucketUpdatePort), bind_address th (kvs_port bucketUpdatePort)]"

definition UserThread_binds :: "NodeThread \<Rightarrow> Address list" where
  "UserThread_binds th =
     [bind_address th (anna_port kUserResponsePort), bind_address th (anna_port kUserKeyAddressPort)]"

definition CommHelperThread_connects :: "NodeThread \<Rightarrow> Address list" where
  "CommHelperThread_connects th = map (\<lambda>port. connect_address th (kvs_port port))
     [kRemoteResponsePort, kNotifyPort, TriggerUpdatePort, dataAccessServerPort, dataAccessClientPort]"

definition OperationThread_connects :: "NodeThread \<Rightarrow> Address list" where
  "OperationThread_connects th =
     [connect_address th (op_port oBucketPort), connect_address th (op_port oTriggerPort)]"

text \<open>The functions that bind a puller, by the constant that they use.\<close>

definition CommHelperThread_bind :: "kvs_port_name \<Rightarrow> NodeThread \<Rightarrow> Address" where
  "CommHelperThread_bind port th = bind_address th (kvs_port port)"

definition HandlerThread_bind :: "kvs_port_name \<Rightarrow> NodeThread \<Rightarrow> Address" where
  "HandlerThread_bind port th = bind_address th (kvs_port port)"

definition routing_key_address_connect_address :: "NodeThread \<Rightarrow> Address" where
  "routing_key_address_connect_address th = connect_address th (anna_port kKeyAddressPort)"

definition routing_key_address_bind_address :: "NodeThread \<Rightarrow> Address" where
  "routing_key_address_bind_address th = bind_address th (anna_port kKeyAddressPort)"

definition user_response_connect_address :: "NodeThread \<Rightarrow> Address" where
  "user_response_connect_address th = connect_address th (anna_port kUserResponsePort)"

definition user_key_address_connect_address :: "NodeThread \<Rightarrow> Address" where
  "user_key_address_connect_address th = connect_address th (anna_port kUserKeyAddressPort)"

definition key_query_connect_address :: "NodeThread \<Rightarrow> Address" where
  "key_query_connect_address th = connect_address th (kvs_port kQueryPort)"

definition notify_handler_connect_address :: "NodeThread \<Rightarrow> Address" where
  "notify_handler_connect_address th = connect_address th (kvs_port kNotifyHandlerPort)"

definition key_query_handler_connect_address :: "NodeThread \<Rightarrow> Address" where
  "key_query_handler_connect_address th = connect_address th (kvs_port kQueryHandlerPort)"

definition update_handler_connect_address :: "NodeThread \<Rightarrow> Address" where
  "update_handler_connect_address th = connect_address th (kvs_port updateStatusHandlerPort)"

definition forward_func_connect_address :: "NodeThread \<Rightarrow> Address" where
  "forward_func_connect_address th = connect_address th (kvs_port forwardFuncPort)"

definition bucket_op_bind_address :: "NodeThread \<Rightarrow> Address" where
  "bucket_op_bind_address th = bind_address th (op_port oBucketPort)"

definition trigger_op_bind_address :: "NodeThread \<Rightarrow> Address" where
  "trigger_op_bind_address th = bind_address th (op_port oTriggerPort)"

definition func_create_bind_address :: "NodeThread \<Rightarrow> Address" where
  "func_create_bind_address th = bind_address th (op_port funcCreatePort)"

definition app_regist_bind_address :: "NodeThread \<Rightarrow> Address" where
  "app_regist_bind_address th = bind_address th (op_port appRegistPort)"

definition func_call_bind_address :: "NodeThread \<Rightarrow> Address" where
  "func_call_bind_address th = bind_address th (op_port funcCallPort)"

section \<open>The sockets a node binds\<close>

text \<open>
  The pullers of one coordinator thread (\<^verbatim>\<open>coordinator.cpp\<close>, \<^verbatim>\<open>run\<close>), and those of a
  scheduler with \<open>n\<close> input/output threads: the ones of the \<^verbatim>\<open>CommHelper\<close> constructor and, for
  each further thread, those of \<^verbatim>\<open>run_io_thread_loop\<close>.
\<close>

definition coordinator_binds :: "Address \<Rightarrow> uint32 \<Rightarrow> Address list" where
  "coordinator_binds private_ip thread_id =
     (let th = new_thread private_ip thread_id
      in [HandlerThread_bind kNotifyHandlerPort th, HandlerThread_bind kQueryHandlerPort th,
          bucket_op_bind_address th, trigger_op_bind_address th, HandlerThread_bind updateStatusHandlerPort th,
          func_create_bind_address th, app_regist_bind_address th, func_call_bind_address th,
          HandlerThread_bind forwardFuncPort th])"

definition comm_helper_binds :: "Address \<Rightarrow> Address list" where
  "comm_helper_binds ip =
     (let ut = new_thread ip 0
      in [CommHelperThread_bind kQueryPort ut, CommHelperThread_bind kRemoteResponsePort ut, CommHelperThread_bind kNotifyPort ut,
          CommHelperThread_bind TriggerUpdatePort ut, CommHelperThread_bind dataAccessServerPort ut,
          CommHelperThread_bind dataAccessClientPort ut, kBindBase @ to_string (unat (kvs_port funcExecPort))])"

definition io_thread_binds :: "Address \<Rightarrow> uint32 \<Rightarrow> Address list" where
  "io_thread_binds ip tid =
     (let ut = new_thread ip tid
      in [kBindBase @ to_string (unat ((kvs_port funcExecPort) + tid)), CommHelperThread_bind dataAccessServerPort ut,
          CommHelperThread_bind dataAccessClientPort ut])"

lemma unat_port:
  "n < 1000 \<Longrightarrow> p < 10000 \<Longrightarrow> unat (word_of_nat n + word_of_nat p :: uint32) = n + p"
proof -
  assume "n < 1000" "p < 10000"
  then have "n + p < 2 ^ 32" by simp
  then have "unat (word_of_nat (n + p) :: uint32) = n + p" by (simp only: unat_of_nat) simp
  then show ?thesis by simp
qed

lemma bind_address_num:
  assumes "n < 1000" and "p < 10000"
  shows "bind_address (new_thread ip (word_of_nat n)) (word_of_nat p) = kBindBase @ to_string (n + p)"
  unfolding bind_address_def using unat_port [OF assms] by (simp add: new_thread_def)

lemmas coordinator_port_defs =
  HandlerThread_bind_def bucket_op_bind_address_def trigger_op_bind_address_def func_create_bind_address_def
  app_regist_bind_address_def func_call_bind_address_def kvs_port.simps op_port.simps

lemma coordinator_binds_ports:
  assumes "n < 1000"
  shows "coordinator_binds ip (word_of_nat n) = map (\<lambda>p. kBindBase @ to_string (n + p))
    [7350, 7400, 7800, 7900, 7750, 5000, 5020, 5050, 4500]"
  using bind_address_num [OF assms, where p = 7350 and ip = ip]
    bind_address_num [OF assms, where p = 7400 and ip = ip]
    bind_address_num [OF assms, where p = 7800 and ip = ip]
    bind_address_num [OF assms, where p = 7900 and ip = ip]
    bind_address_num [OF assms, where p = 7750 and ip = ip]
    bind_address_num [OF assms, where p = 5000 and ip = ip]
    bind_address_num [OF assms, where p = 5020 and ip = ip]
    bind_address_num [OF assms, where p = 5050 and ip = ip]
    bind_address_num [OF assms, where p = 4500 and ip = ip]
  by (simp add: coordinator_binds_def coordinator_port_defs)

lemma distinct_addresses:
  "distinct (map (\<lambda>p. base @ to_string p) ports) \<longleftrightarrow> distinct ports"
  by (simp add: distinct_map inj_on_def)

lemma distinct_concat_blocks:
  assumes "distinct (concat (map f [0..<m]))" and "n \<le> m"
  shows "distinct (concat (map f [0..<n]))"
  using assms upt_add_eq_append [of 0 n "m - n"] by simp

lemma coordinator_ports_20: "distinct (concat (map (\<lambda>n. map (\<lambda>p. n + p)
    [7350, 7400, 7800, 7900, 7750, 5000, 5020, 5050, 4500 :: nat]) [0..<20]))"
  by (simp add: upt_rec)

text \<open>
  Property C35: a node can run up to 20 coordinator threads: all the sockets that their event loops bind have
  different addresses. With a 21st thread that is no longer so: its socket for creating functions
  has the address of the first thread's socket for registering applications.
\<close>

theorem coordinator_binds_distinct:
  assumes "n \<le> 20"
  shows "distinct (concat (map (\<lambda>tid. coordinator_binds ip (word_of_nat tid)) [0..<n])) \<and>
    \<not> distinct (concat (map (\<lambda>tid. coordinator_binds ip (word_of_nat tid)) [0..<21]))"
proof
  let ?ports = "\<lambda>n. map (\<lambda>p. n + p) [7350, 7400, 7800, 7900, 7750, 5000, 5020, 5050, 4500 :: nat]"
  let ?f = "\<lambda>tid. coordinator_binds ip (word_of_nat tid)"
  have "map ?f [0..<n] = map (\<lambda>n. map (\<lambda>p. kBindBase @ to_string p) (?ports n)) [0..<n]"
    by (rule map_cong) (use assms in \<open>simp_all add: coordinator_binds_ports\<close>)
  then have "concat (map ?f [0..<n]) =
      map (\<lambda>p. kBindBase @ to_string p) (concat (map ?ports [0..<n]))"
    by (simp only: map_concat map_map comp_def)
  moreover have "distinct (concat (map ?ports [0..<n]))"
    by (rule distinct_concat_blocks [OF coordinator_ports_20 assms])
  ultimately show "distinct (concat (map ?f [0..<n]))" by (simp only: distinct_addresses)
  have "kBindBase @ to_string 5020 \<in> set (?f 0) \<inter> set (?f 20)"
    by (simp only: coordinator_binds_ports) (simp add: coordinator_binds_ports [of 0, simplified]
        coordinator_binds_ports [of 20, simplified])
  then have "?f 0 \<noteq> []" "set (?f 0) \<inter> set (?f 20) \<noteq> {}" by auto
  moreover have "[0..<21] = 0 # [1..<20] @ [20]" by (simp add: upt_rec)
  ultimately show "\<not> distinct (concat (map ?f [0..<21]))" by auto
qed

theorem coordinator_binds_distinct_witness:
  "distinct (concat (map (\<lambda>tid. coordinator_binds ''10.0.0.1'' (word_of_nat tid)) [0..<4]))"
  using coordinator_binds_distinct [of 4 "''10.0.0.1''"] by simp

end
