(* ===== verification/Ph_Protocol.thy ===== *)
theory Ph_Protocol
  imports Ph_Trigger Ph_Threads
begin

text \<open>
  The messages that the components exchange (\<^verbatim>\<open>common/proto/operation.proto\<close>, \<^verbatim>\<open>kvs.proto\<close>,
  \<^verbatim>\<open>common.proto\<close>), as records with the fields of the protocol-buffer messages, and each message as
  its constructor leaves it. Handlers start from a parsed message and end with the messages they
  hand to \<^verbatim>\<open>send_string\<close>; the generated conversions between the two are not part of the sources.
  An unknown number of an open enumeration is the last constructor.
\<close>

section \<open>Functions and applications\<close>

record Argument =
  ar_body :: string
  ar_arg_flag :: uint32
  ar_data_address :: string

record FunctionRequest =
  fr_name :: string
  fr_arguments :: "Argument list"

record FunctionCall =
  fc_app_name :: string
  fc_requests :: "FunctionRequest list"
  fc_source :: string
  fc_request_id :: string
  fc_resp_address :: string
  fc_session_id :: string
  fc_sync_data_status :: bool

record FunctionCallResponse =
  fcr_app_name :: string
  fcr_request_id :: string
  fcr_output :: string
  fcr_error_no :: uint32

datatype DependencyType = DIRECT | MANY_TO_ONE | K_OUT_OF_N | PERIODIC | UNKNOWN_DEPENDENCY nat

record DataDependency =
  dd_type :: DependencyType
  dd_src_functions :: "string list"
  dd_tgt_functions :: "string list"
  dd_description :: string

record AppRegistration =
  apr_app_name :: string
  apr_functions :: "string list"
  apr_dependencies :: "DataDependency list"

definition empty_call :: FunctionCall where
  "empty_call = \<lparr>fc_app_name = [], fc_requests = [], fc_source = [], fc_request_id = [],
                 fc_resp_address = [], fc_session_id = [], fc_sync_data_status = False\<rparr>"

definition empty_call_response :: FunctionCallResponse where
  "empty_call_response = \<lparr>fcr_app_name = [], fcr_request_id = [], fcr_output = [], fcr_error_no = 0\<rparr>"

definition empty_argument :: Argument where
  "empty_argument = \<lparr>ar_body = [], ar_arg_flag = 0, ar_data_address = []\<rparr>"


section \<open>Buckets and triggers\<close>

datatype KVSError =
    SUCCESS | BUCKET_NE | KEY_NE | SESSION_NE | KVS_ND | TYPE_NM | BUCKET_EXIST | REQ_TIMEOUT

datatype BucketOperationType = CREATE_BUCKET | DELETE_BUCKET | UNKNOWN_BUCKET_OP nat

datatype TriggerOperationType = ADD_TRIGGER | DELETE_TRIGGER | UNKNOWN_TRIGGER_OP nat

record BucketOperationRequest =
  bor_operation_type :: BucketOperationType
  bor_app_name :: string
  bor_bucket_name :: string
  bor_request_id :: string
  bor_response_address :: string

record BucketOperationResponse =
  bop_operation_type :: BucketOperationType
  bop_bucket_name :: string
  bop_response_id :: string
  bop_error :: KVSError

record RerunHint =
  rh_source_function :: string
  rh_source_key :: string
  rh_timeout :: uint32

record TriggerOperationRequest =
  tor_operation_type :: TriggerOperationType
  tor_app_name :: string
  tor_bucket_name :: string
  tor_trigger_name :: string
  tor_trigger_option :: uint32
  tor_primitive_type :: PrimitiveType
  tor_primitive :: string
  tor_request_id :: string
  tor_response_address :: string
  tor_hints :: "RerunHint list"

record TriggerOperationResponse =
  top_operation_type :: TriggerOperationType
  top_bucket_name :: string
  top_trigger_name :: string
  top_response_id :: string
  top_error :: KVSError

record TriggerEntity =
  te_bucket_name :: string
  te_trigger_name :: string
  te_trigger_option :: uint32
  te_primitive_type :: PrimitiveType
  te_primitive :: string
  te_session :: string
  te_hints :: "RerunHint list"

record UpdateStatusMessage =
  us_ip :: string
  us_avail_executors :: uint32
  us_functions :: "string list"

record UpdateCoordMsg =
  uc_ip :: string
  uc_thread_id :: uint32
  uc_app_name :: string
  uc_functions :: "string list"
  uc_dependencies :: "DataDependency list"
  uc_triggers :: "TriggerEntity list"
  uc_msg_type :: uint32

definition empty_bucket_response :: BucketOperationResponse where
  "empty_bucket_response = \<lparr>bop_operation_type = CREATE_BUCKET, bop_bucket_name = [],
                            bop_response_id = [], bop_error = SUCCESS\<rparr>"

definition empty_trigger_response :: TriggerOperationResponse where
  "empty_trigger_response = \<lparr>top_operation_type = ADD_TRIGGER, top_bucket_name = [],
                             top_trigger_name = [], top_response_id = [], top_error = SUCCESS\<rparr>"

definition empty_entity :: TriggerEntity where
  "empty_entity = \<lparr>te_bucket_name = [], te_trigger_name = [], te_trigger_option = 0,
                   te_primitive_type = IMMEDIATE, te_primitive = [], te_session = [], te_hints = []\<rparr>"

definition empty_update :: UpdateCoordMsg where
  "empty_update = \<lparr>uc_ip = [], uc_thread_id = 0, uc_app_name = [], uc_functions = [],
                   uc_dependencies = [], uc_triggers = [], uc_msg_type = 0\<rparr>"


section \<open>Objects\<close>

record KeyQueryRequest =
  kq_response_address :: string
  kq_addresses :: "BucketKeyAddress list"
  kq_request_id :: string

record KeyQueryResponse =
  kqr_addresses :: "BucketKeyAddress list"
  kqr_error :: KVSError
  kqr_response_id :: string

record KeyNotifyRequest =
  kn_response_address :: string
  kn_addresses :: "BucketKeyAddress list"
  kn_active_trigger_names :: "string list"
  kn_request_id :: string

record KeyNotifyResponse =
  knr_error :: KVSError
  knr_key_counts :: "uint32 list"
  knr_response_id :: string


section \<open>Membership\<close>

record CoordSync =
  cs_public_ip :: string
  cs_private_ip :: string
  cs_thread_id :: uint32
  cs_workload :: uint32

record CoordQuery =
  cq_application :: string
  cq_request_id :: string

record CoordResponse =
  cr_coord_ip :: string
  cr_thread_id :: uint32
  cr_request_id :: string

text \<open>What a component hands to \<^verbatim>\<open>send_string\<close>: the address of the socket and the message.\<close>

datatype message =
    Call_Msg FunctionCall
  | Call_Response_Msg FunctionCallResponse
  | Bucket_Request_Msg BucketOperationRequest
  | Bucket_Response_Msg BucketOperationResponse
  | Trigger_Request_Msg TriggerOperationRequest
  | Trigger_Response_Msg TriggerOperationResponse
  | Update_Msg UpdateCoordMsg
  | Status_Msg UpdateStatusMessage
  | Query_Msg KeyQueryRequest
  | Query_Response_Msg KeyQueryResponse
  | Notify_Msg KeyNotifyRequest
  | Notify_Response_Msg KeyNotifyResponse
  | Sync_Msg CoordSync
  | Coord_Query_Msg CoordQuery
  | Coord_Response_Msg CoordResponse
  | App_Msg AppRegistration
  | Text_Msg string

datatype send = Send (send_to: Address) (send_msg: message)

end
