(* ===== verification/Ph_Trigger_Rerun.thy ===== *)
theory Ph_Trigger_Rerun
  imports Ph_Trigger
begin

text \<open>
  Two further contracts of \<^verbatim>\<open>common/include/trigger.hpp\<close>: a trigger that the coordinator dumps
  and a scheduler builds again is the freshly constructed trigger of the same configuration, and
  the re-execution metadata of a set trigger lives from the start of the source function to the
  arrival of its object.
\<close>

section \<open>Dumping and building again\<close>

text \<open>The trigger of the same configuration as the constructors leave it.\<close>

definition fresh_body :: "time \<Rightarrow> trigger_body \<Rightarrow> trigger_body" where
  "fresh_body now body =
     (case body of
        Immediate t \<Rightarrow> Immediate \<lparr>im_cache = Map.empty\<rparr>
      | ByName t \<Rightarrow> ByName \<lparr>bn_key_name = bn_key_name t, bn_cache = Map.empty\<rparr>
      | ByBatchSize t \<Rightarrow> ByBatchSize \<lparr>bb_count = bb_count t, bb_buffer = [], bb_cache = Map.empty\<rparr>
      | BySet t \<Rightarrow> BySet \<lparr>bs_key_set = bs_key_set t, bs_prepared = Map.empty,
                          bs_func_key_map = [], bs_cache = Map.empty\<rparr>
      | DynamicGroup t \<Rightarrow> DynamicGroup \<lparr>dg_data_groups = [],
                          dg_control_group = dg_control_group t, dg_cur_control = []\<rparr>
      | Redundant t \<Rightarrow> Redundant \<lparr>rd_k = rd_k t, rd_n = rd_n t, rd_count = 0, rd_buffer = []\<rparr>
      | ByTime t \<Rightarrow> ByTime \<lparr>bt_time_window = bt_time_window t, bt_buffer = [], bt_last_stamp = now\<rparr>)"

text \<open>The type that the constructor of each class passes to the base class.\<close>

fun body_type :: "trigger_body \<Rightarrow> PrimitiveType" where
  "body_type (Immediate _) = IMMEDIATE"
| "body_type (ByName _) = BY_NAME"
| "body_type (ByBatchSize _) = BY_BATCH_SIZE"
| "body_type (BySet _) = BY_SET"
| "body_type (DynamicGroup _) = DYNAMIC_GROUP"
| "body_type (Redundant _) = REDUNDANT"
| "body_type (ByTime _) = BY_TIME"

text \<open>The generated code reads back the messages that it has written.\<close>

definition codec_inverse :: "prim_codec \<Rightarrow> bool" where
  "codec_inverse pb \<longleftrightarrow>
     (\<forall>x. parse_Immediate pb (ser_Immediate pb x) = x) \<and> (\<forall>x. parse_ByName pb (ser_ByName pb x) = x) \<and>
     (\<forall>x. parse_ByBatchSize pb (ser_ByBatchSize pb x) = x) \<and> (\<forall>x. parse_BySet pb (ser_BySet pb x) = x) \<and>
     (\<forall>x. parse_DynamicGroup pb (ser_DynamicGroup pb x) = x) \<and> (\<forall>x. parse_Redundant pb (ser_Redundant pb x) = x) \<and>
     (\<forall>x. parse_ByTime pb (ser_ByTime pb x) = x)"

text \<open>What every constructed trigger has: the type of its class, and sets for its key sets.\<close>

definition trigger_wf :: "Trigger \<Rightarrow> bool" where
  "trigger_wf tr \<longleftrightarrow> trigger_type tr = body_type (trigger_body tr) \<and>
     (case trigger_body tr of
        BySet t \<Rightarrow> distinct (bs_key_set t)
      | DynamicGroup t \<Rightarrow> distinct (dg_control_group t)
      | _ \<Rightarrow> True)"

lemma action_for_new_object_wf:
  "trigger_wf tr \<Longrightarrow> action_for_new_object now bk tr = (acts, tr') \<Longrightarrow> trigger_wf tr'"
  by (cases "trigger_body tr")
    (auto simp: trigger_wf_def action_for_new_object_def body_action_def by_set_action_def
      dynamic_group_action_def Let_def map_prod_def split: prod.splits if_splits)

lemma clear_trigger_wf: "trigger_wf tr \<Longrightarrow> trigger_wf (clear_trigger session tr)"
  by (cases "trigger_body tr") (auto simp: trigger_wf_def trigger_defs)

lemma notify_source_func_wf:
  "trigger_wf tr \<Longrightarrow> trigger_wf (notify_source_func func_name session_id func_args arg_flag tr)"
  by (cases "trigger_body tr")
    (auto simp: trigger_wf_def trigger_defs)

lemma gen_trigger_pointer_wf:
  "gen_trigger_pointer pb now type name serialized = Some tr \<Longrightarrow> trigger_wf tr"
  by (cases type)
    (auto simp: gen_trigger_pointer_def trigger_wf_def new_Immediate_def new_ByName_def
      new_ByBatchSize_def new_BySet_def new_DynamicGroup_def new_Redundant_def new_ByTime_def
      new_trigger_def split: prod.splits)

text \<open>
  A trigger in any state, dumped with \<^verbatim>\<open>dump_pritimive\<close> and built again with
  \<^verbatim>\<open>gen_trigger_pointer\<close> under its own type and name, is the freshly constructed trigger of the
  same target function and configuration. This is what a scheduler holds after the coordinator
  has synchronized the trigger.
\<close>

lemma gen_trigger_pointer_dump:
  assumes "trigger_wf tr" and "codec_inverse pb"
  shows "gen_trigger_pointer pb now (trigger_type tr) (trigger_name tr) (dump_pritimive pb tr) =
    Some (tr\<lparr>trigger_option := 0, trigger_body := fresh_body now (trigger_body tr)\<rparr>)"
  using assms
  by (cases "trigger_body tr")
    (auto simp: trigger_wf_def codec_inverse_def trigger_defs gen_trigger_pointer_def fresh_body_def Let_def
      new_Immediate_def new_ByName_def new_ByBatchSize_def new_BySet_def new_DynamicGroup_def
      new_Redundant_def new_ByTime_def new_trigger_def)

text \<open>A complete pair of serializers and parsers: the items of a message one by one.\<close>

definition item_codec :: prim_codec where
  "item_codec =
     (let f = (\<lambda>s. get_items [] s ! 0); x = (\<lambda>s. get_items [] s ! 1); w = (\<lambda>i s. get_number (get_items [] s ! i))
      in \<lparr>ser_Immediate = (\<lambda>m. put_items [m]), parse_Immediate = f,
          ser_ByName = (\<lambda>(m, key). put_items [m, key]), parse_ByName = (\<lambda>s. (f s, x s)),
          ser_ByBatchSize = (\<lambda>(m, n). put_items [m, put_number n]), parse_ByBatchSize = (\<lambda>s. (f s, w 1 s)),
          ser_BySet = (\<lambda>(m, keys). put_items (m # keys)), parse_BySet = (\<lambda>s. (f s, tl (get_items [] s))),
          ser_DynamicGroup = (\<lambda>(m, keys). put_items (m # keys)), parse_DynamicGroup = (\<lambda>s. (f s, tl (get_items [] s))),
          ser_Redundant = (\<lambda>(m, k, n). put_items [m, put_number k, put_number n]), parse_Redundant = (\<lambda>s. (f s, w 1 s, w 2 s)),
          ser_ByTime = (\<lambda>(m, n). put_items [m, put_number n]), parse_ByTime = (\<lambda>s. (f s, w 1 s))\<rparr>)"

lemma item_codec_inverse: "codec_inverse item_codec"
  by (auto simp: codec_inverse_def item_codec_def Let_def)

definition ex_codec :: prim_codec where
  "ex_codec =
     \<lparr>ser_Immediate = (\<lambda>_. []), parse_Immediate = (\<lambda>_. []),
      ser_ByName = (\<lambda>_. []), parse_ByName = (\<lambda>_. ([], [])),
      ser_ByBatchSize = (\<lambda>_. []), parse_ByBatchSize = (\<lambda>_. ([], 0)),
      ser_BySet = (\<lambda>m. join CHR '','' (fst m # snd m)),
      parse_BySet = (\<lambda>s. (hd (split s CHR '',''), tl (split s CHR '',''))),
      ser_DynamicGroup = (\<lambda>_. []), parse_DynamicGroup = (\<lambda>_. ([], [])),
      ser_Redundant = (\<lambda>_. []), parse_Redundant = (\<lambda>_. ([], 0, 0)),
      ser_ByTime = (\<lambda>_. []), parse_ByTime = (\<lambda>_. ([], 0))\<rparr>"

definition ex_set_body :: "Key list \<Rightarrow> (string \<times> Key) list \<Rightarrow> BySetTrigger" where
  "ex_set_body keys funcs =
     \<lparr>bs_key_set = keys, bs_prepared = [''s'' \<mapsto> [''a'']], bs_func_key_map = funcs,
      bs_cache = Map.empty\<rparr>"

section \<open>Re-execution metadata\<close>

lemma cached_upd: "cached (c(k \<mapsto> m)) k' = (if k' = k then [m] else cached c k')"
  by (simp add: cached_def)

lemma cached_erase: "cached (map_erase c k) k' = (if k' = k then [] else cached c k')"
  by (simp add: cached_def)

text \<open>Concatenated keys and sessions determine both when the sessions have the same length.\<close>

lemma key_session_inject:
  "length s = length s' \<Longrightarrow> key @ s = key' @ s' \<longleftrightarrow> key = key' \<and> s = s'"
  by auto

lemma concat_map_except:
  "concat (map (\<lambda>x. if x = y then [] else f x) xs) = concat (map f (filter (\<lambda>x. x \<noteq> y) xs))"
  by (induction xs) auto

lemma umap_ne: "map_of m k = Some v \<Longrightarrow> m \<noteq> []"
  by auto

lemma umap_mem: "map_of m k = Some v \<Longrightarrow> k \<in> fst ` set m"
  by (force dest: map_of_SomeD)

lemma by_set_notify_cache:
  assumes "map_of (bs_func_key_map t) func = Some key"
  shows "bs_cache (by_set_notify func session args flag t) =
      (bs_cache t)(key @ session \<mapsto> mk_tfm func args flag)"
    and "bs_func_key_map (by_set_notify func session args flag t) = bs_func_key_map t"
    and "bs_key_set (by_set_notify func session args flag t) = bs_key_set t"
  using umap_ne [OF assms] umap_mem [OF assms] assms
  by (simp_all add: by_set_notify_def umap_at_def umap_touch_def)

lemma by_set_action_cache:
  assumes "by_set_action target bk t = (acts, t')" and "bk_key bk \<in> set (bs_key_set t)"
  shows "bs_cache t' = map_erase (bs_cache t) (bk_key bk @ bk_session bk)"
    and "bs_func_key_map t' = bs_func_key_map t" and "bs_key_set t' = bs_key_set t"
  using assms by (auto simp: by_set_action_def Let_def split: if_splits)

text \<open>
  Property C27: for a set trigger with re-execution configured, once a source function has been started
  in a session its metadata is among what would be re-executed for that session; once its object
  has arrived there, exactly that entry is gone; sessions of the same length are never affected.
\<close>

theorem by_set_rerun_lifecycle:
  assumes "map_of (bs_func_key_map t) func = Some key" and "key \<in> set (bs_key_set t)"
    and "bk_key bk = key" and "bk_session bk = session"
    and "started = by_set_notify func session args flag t"
    and "arrived = snd (by_set_action target bk started)"
    and "length other = length session" and "other \<noteq> session"
  shows "mk_tfm func args flag \<in> set (by_set_rerun session started) \<and>
    by_set_rerun session arrived =
      concat (map (\<lambda>k. cached (bs_cache t) (k @ session)) (filter (\<lambda>k. k \<noteq> key) (bs_key_set t))) \<and>
    by_set_rerun other arrived = by_set_rerun other t"
proof -
  note ne = umap_ne [OF assms(1)]
  note st = by_set_notify_cache [OF assms(1), of session args flag, folded assms(5)]
  obtain acts where step: "by_set_action target bk started = (acts, arrived)"
    unfolding assms(6) by (cases "by_set_action target bk started") simp
  note ar = by_set_action_cache [OF step, unfolded st assms(3,4), OF assms(2)]
  have "mk_tfm func args flag \<in> set (by_set_rerun session started)"
    using ne assms(2) by (auto simp: by_set_rerun_def st cached_upd)
  moreover have "cached (bs_cache arrived) (k @ session) =
      (if k = key then [] else cached (bs_cache t) (k @ session))" for k
    by (simp add: ar cached_erase cached_upd)
  then have "by_set_rerun session arrived =
      concat (map (\<lambda>k. cached (bs_cache t) (k @ session)) (filter (\<lambda>k. k \<noteq> key) (bs_key_set t)))"
    using ne by (simp add: by_set_rerun_def ar(2,3) concat_map_except)
  moreover have "cached (bs_cache arrived) (k @ other) = cached (bs_cache t) (k @ other)" for k
    using assms(7,8) by (simp add: ar cached_erase cached_upd key_session_inject)
  then have "by_set_rerun other arrived = by_set_rerun other t"
    using ne by (simp add: by_set_rerun_def ar(2,3))
  ultimately show ?thesis by blast
qed

theorem by_set_rerun_lifecycle_witness:
  "let t = ex_set_body [''a'', ''b''] [(''src'', ''a'')];
       bk = \<lparr>bk_bucket = ''bkt'', bk_key = ''a'', bk_session = ''s''\<rparr>;
       started = by_set_notify ''src'' ''s'' [''x''] 0 t;
       arrived = snd (by_set_action ''f'' bk started)
   in mk_tfm ''src'' [''x''] 0 \<in> set (by_set_rerun ''s'' started) \<and>
      by_set_rerun ''s'' arrived = [] \<and> by_set_rerun ''u'' arrived = []"
proof -
  let ?t = "ex_set_body [''a'', ''b''] [(''src'', ''a'')]"
  let ?bk = "\<lparr>bk_bucket = ''bkt'', bk_key = ''a'', bk_session = ''s''\<rparr>"
  have "map_of (bs_func_key_map ?t) ''src'' = Some ''a''" "''a'' \<in> set (bs_key_set ?t)"
    by (simp_all add: ex_set_body_def)
  from by_set_rerun_lifecycle [OF this, of ?bk "''s''" _ "[''x'']" 0 _ "''f''" "''u''"]
  show ?thesis by (simp add: ex_set_body_def cached_def by_set_rerun_def Let_def)
qed

text \<open>
  \<^verbatim>\<open>clear\<close> of a set trigger does not reach that metadata. It erases the cache entry named by
  the session alone, while entries are named by key and session, so for non-empty keys everything
  that would have been re-executed for a cleared session still would be.
\<close>

lemma by_set_clear_keeps_rerun:
  assumes "trigger_body tr = BySet t" and "[] \<notin> set (bs_key_set t)"
  shows "action_for_rerun session (clear_trigger session tr) = action_for_rerun session tr"
proof -
  have "cached (map_erase (bs_cache t) session) (k @ session) = cached (bs_cache t) (k @ session)"
    if "k \<in> set (bs_key_set t)" for k
    using assms(2) that by (auto simp: cached_erase)
  then show ?thesis
    by (simp add: trigger_defs assms(1) cong: map_cong)
qed

end
