(* ===== verification/Ph_Coord_State.thy ===== *)
theory Ph_Coord_State
  imports Ph_Protocol Ph_Trigger_Rerun
begin

text \<open>
  The state of a coordinator thread (the local variables of \<^verbatim>\<open>run\<close> in
  \<^verbatim>\<open>src/coordinator/coordinator.cpp\<close>, which the handlers take by reference) and the helpers of
  \<^verbatim>\<open>include/coordinator/coord_handlers.hpp\<close>. The seed is a global variable that all threads of the
  process share; a thread's model has its own. The map of node states is iterated, so it is an
  association list. Every trigger is pushed into one bucket only and reached through it, so triggers
  are held by value.
\<close>

record NodeStatus =
  ns_tp :: time
  ns_avail_executors :: int
  ns_functions :: "string list"

text \<open>A node that \<^verbatim>\<open>operator[]\<close> inserts: its members are zero.\<close>

definition new_NodeStatus :: NodeStatus where
  "new_NodeStatus = \<lparr>ns_tp = 0, ns_avail_executors = 0, ns_functions = []\<rparr>"

definition update_status :: "time \<Rightarrow> int \<Rightarrow> string list \<Rightarrow> NodeStatus \<Rightarrow> NodeStatus" where
  "update_status now avail_executors functions ns =
     ns\<lparr>ns_avail_executors := avail_executors, ns_functions := functions, ns_tp := now\<rparr>"

type_synonym node_map = "(Address \<times> NodeStatus) list"

type_synonym address_map = "Bucket \<rightharpoonup> (Key \<rightharpoonup> Address list)"

record CoordState =
  co_address_map :: address_map                     \<comment> \<open>\<^verbatim>\<open>bucket_key_address_map\<close>\<close>
  co_val_map :: "string \<rightharpoonup> string"                   \<comment> \<open>\<^verbatim>\<open>bucket_key_val_map\<close>\<close>
  co_bucket_node :: "string \<rightharpoonup> Address list"         \<comment> \<open>\<^verbatim>\<open>bucket_node_map\<close>\<close>
  co_triggers :: "Bucket \<rightharpoonup> Trigger list"            \<comment> \<open>\<^verbatim>\<open>bucket_triggers_map\<close>\<close>
  co_app_buckets :: "string \<rightharpoonup> Bucket list"          \<comment> \<open>\<^verbatim>\<open>app_buckets_map\<close>\<close>
  co_bucket_app :: "Bucket \<rightharpoonup> string"                \<comment> \<open>\<^verbatim>\<open>bucket_app_map\<close>\<close>
  co_node_status :: node_map                         \<comment> \<open>\<^verbatim>\<open>node_status_map\<close>\<close>
  co_seed :: uint32

definition init_coord :: "uint32 \<Rightarrow> CoordState" where
  "init_coord seed =
     \<lparr>co_address_map = Map.empty, co_val_map = Map.empty, co_bucket_node = Map.empty,
      co_triggers = Map.empty, co_app_buckets = Map.empty, co_bucket_app = Map.empty,
      co_node_status = [], co_seed = seed\<rparr>"

text \<open>
  What a handler takes from its surroundings: the addresses of the thread, the number of
  input/output threads of every scheduler, the random generator, the generated serializers and the
  clock.
\<close>

record coord_env =
  ce_private_ip :: Address
  ce_thread_id :: uint32
  ce_io_thread_num :: nat
  ce_rand :: rand_fun
  ce_codec :: prim_codec
  ce_now :: time

record GetAddressResult =
  ga_error :: KVSError
  ga_addr :: "Address list"

definition get_func_exec_address :: "string \<Rightarrow> uint32 \<Rightarrow> Address" where
  "get_func_exec_address ip io_thread =
     ''tcp://'' @ ip @ '':'' @ to_string (unat (kvs_port funcExecPort + io_thread))"

text \<open>\<^verbatim>\<open>get_func_exec_address(ip, rand_r(&seed) % io_thread_num)\<close>.\<close>

definition random_exec_address :: "coord_env \<Rightarrow> string \<Rightarrow> uint32 \<Rightarrow> (Address \<times> uint32) res" where
  "random_exec_address env ip seed =
     (if ce_io_thread_num env = 0 then Fault Division_By_Zero
      else case ce_rand env seed of
        (r, seed') \<Rightarrow>
          Ok (get_func_exec_address ip (word_of_nat (r mod ce_io_thread_num env)), seed'))"

definition trigger_update_address :: "string \<Rightarrow> Address" where
  "trigger_update_address ip = ''tcp://'' @ ip @ '':'' @ to_string (unat (kvs_port TriggerUpdatePort))"

text \<open>
  \<^verbatim>\<open>addr.substr(6, addr.find(":", 6) - 6)\<close>: the host of \<^verbatim>\<open>tcp://host:port\<close>, or all that
  follows if there is no port. \<^verbatim>\<open>substr\<close> throws when the address is shorter.
\<close>

definition host_of :: "Address \<Rightarrow> string res" where
  "host_of addr =
     (if length addr < 6 then Fault Value_Out_Of_Range
      else Ok (takeWhile (\<lambda>c. c \<noteq> CHR '':'') (drop 6 addr)))"

definition update_address :: "BucketKey \<Rightarrow> Address \<Rightarrow> address_map \<Rightarrow> address_map" where
  "update_address bk addr m =
     (let keys = map_at Map.empty m (bk_bucket bk)
      in m(bk_bucket bk \<mapsto> keys(bk_key bk \<mapsto> uset_insert addr (map_at [] keys (bk_key bk)))))"

definition get_address :: "BucketKey \<Rightarrow> address_map \<Rightarrow> GetAddressResult" where
  "get_address bk m =
     (case m (bk_bucket bk) of
        None \<Rightarrow> \<lparr>ga_error = KEY_NE, ga_addr = []\<rparr>
      | Some keys \<Rightarrow>
          (case keys (bk_key bk) of
             None \<Rightarrow> \<lparr>ga_error = KEY_NE, ga_addr = []\<rparr>
           | Some addrs \<Rightarrow> \<lparr>ga_error = SUCCESS, ga_addr = addrs\<rparr>))"

text \<open>The addresses known for a key.\<close>

definition addresses_of :: "address_map \<Rightarrow> Bucket \<Rightarrow> Key \<Rightarrow> Address list" where
  "addresses_of m bucket key = map_at [] (map_at Map.empty m bucket) key"

lemma addresses_of_update [simp]:
  "addresses_of (update_address bk addr m) bucket key =
     (if bucket = bk_bucket bk \<and> key = bk_key bk
      then uset_insert addr (addresses_of m bucket key) else addresses_of m bucket key)"
  by (simp add: addresses_of_def update_address_def Let_def)

lemma get_address_addr: "ga_addr (get_address bk m) = addresses_of m (bk_bucket bk) (bk_key bk)"
  by (simp add: get_address_def addresses_of_def split: option.splits)

text \<open>The host of a well-formed address is read back.\<close>

lemma host_of_tcp:
  "CHR '':'' \<notin> set ip \<Longrightarrow> host_of (''tcp://'' @ ip @ '':'' @ port) = Ok ip"
  by (simp add: host_of_def takeWhile_append takeWhile_eq_all_conv)

end
