(* ===== verification/Ph_Coord_Notify.thy ===== *)
theory Ph_Coord_Notify
  imports Ph_Coord_State
begin

text \<open>
  \<^verbatim>\<open>src/coordinator/notify_handler.cpp\<close>: a scheduler reports new objects. The coordinator records
  where they are, runs the triggers of their bucket, sends the triggered calls to nodes, and tells the
  nodes of the bucket which triggers have fired. Dereferencing the first element of an empty set of
  addresses, an address too short for \<^verbatim>\<open>substr\<close> and a message without an address are faults.
\<close>

section \<open>Packaging a triggered call\<close>

definition object_name :: "Bucket \<Rightarrow> session_key \<Rightarrow> string" where
  "object_name bucket session_key = get_local_object_name bucket (snd session_key) (fst session_key)"

text \<open>The values of the objects, or \<open>None\<close> as soon as one of them is not known here.\<close>

fun batch_values :: "(string \<rightharpoonup> string) \<Rightarrow> string list \<Rightarrow> string list option" where
  "batch_values vals [] = Some []"
| "batch_values vals (key_name # rest) =
     (case vals key_name of
        None \<Rightarrow> None
      | Some val \<Rightarrow> map_option ((#) val) (batch_values vals rest))"

text \<open>\<^verbatim>\<open>std::ostream_iterator\<close> writes the delimiter after every value, also after the last.\<close>

definition imploded :: "string list \<Rightarrow> string" where
  "imploded vals = concat (map (\<lambda>val. val @ kDelimiter) vals)"

definition key_argument ::
  "CoordState \<Rightarrow> Bucket \<Rightarrow> uint32 \<Rightarrow> session_key \<Rightarrow> (Argument \<times> string) res" where
  "key_argument s bucket arg_flag session_key =
     (case addresses_of (co_address_map s) bucket (snd session_key) of
        [] \<Rightarrow> Fault Out_Of_Range
      | data_address # _ \<Rightarrow>
          res_bind (host_of data_address) (\<lambda>ip.
          Ok (\<lparr>ar_body = object_name bucket session_key, ar_arg_flag = arg_flag,
               ar_data_address = data_address\<rparr>, ip)))"

text \<open>The arguments of the call and the nodes that have its data.\<close>

definition package_arguments ::
  "CoordState \<Rightarrow> Bucket \<Rightarrow> uint32 \<Rightarrow> TriggerAction \<Rightarrow> (Argument list \<times> string list) res" where
  "package_arguments s bucket arg_flag action =
     (case batch_values (co_val_map s) (map (object_name bucket) (act_session_keys action)) of
        Some val_to_batch \<Rightarrow>
          Ok ([\<lparr>ar_body = imploded val_to_batch, ar_arg_flag = 0, ar_data_address = []\<rparr>], [])
      | None \<Rightarrow>
          res_bind (res_map (key_argument s bucket arg_flag) (act_session_keys action)) (\<lambda>args.
          Ok (map fst args, uset_of (map snd args))))"


section \<open>Choosing a node\<close>

text \<open>\<^verbatim>\<open>node_status_map[ip]\<close> inserts a node without executors if it is not there.\<close>

definition pick_data_node ::
  "string \<Rightarrow> int \<times> string \<times> node_map \<Rightarrow> int \<times> string \<times> node_map" where
  "pick_data_node ip acc =
     (case acc of
        (max_executors, routed_worker, nodes) \<Rightarrow>
          (let avail = ns_avail_executors (umap_at new_NodeStatus nodes ip);
               nodes' = umap_touch new_NodeStatus ip nodes
           in if max_executors < avail then (avail, ip, nodes')
              else (max_executors, routed_worker, nodes')))"

definition pick_any_node :: "Address \<times> NodeStatus \<Rightarrow> int \<times> string \<Rightarrow> int \<times> string" where
  "pick_any_node ip_status acc =
     (if fst acc < ns_avail_executors (snd ip_status)
      then (ns_avail_executors (snd ip_status), fst ip_status) else acc)"

definition pick_worker :: "string list \<Rightarrow> node_map \<Rightarrow> string \<times> node_map" where
  "pick_worker data_node nodes =
     (case fold pick_data_node data_node (0, [], nodes) of
        (max_executors, routed_worker, nodes') \<Rightarrow>
          (if routed_worker = [] then snd (fold pick_any_node nodes' (max_executors, [])) else routed_worker,
           nodes'))"


section \<open>The handler\<close>

definition take_executor :: "string \<Rightarrow> node_map \<Rightarrow> node_map" where
  "take_executor ip nodes =
     (let ns = umap_at new_NodeStatus nodes ip
      in AList.update ip (ns\<lparr>ns_avail_executors := ns_avail_executors ns - 1\<rparr>) nodes)"

definition schedule_action ::
  "coord_env \<Rightarrow> KeyNotifyRequest \<Rightarrow> BucketKey \<Rightarrow> uint32 \<Rightarrow> TriggerAction \<Rightarrow>
   send list \<times> CoordState \<Rightarrow> (send list \<times> CoordState) res" where
  "schedule_action env request bucket_key arg_flag action acc =
     (case acc of
        (out, s) \<Rightarrow>
          res_bind (package_arguments s (bk_bucket bucket_key) arg_flag action) (\<lambda>(args, data_node).
          let app_name = map_at [] (co_bucket_app s) (bk_bucket bucket_key);
              internalCall = empty_call\<lparr>fc_app_name := app_name,
                fc_resp_address := kn_response_address request, fc_sync_data_status := True,
                fc_session_id := bk_session bucket_key,
                fc_requests := [\<lparr>fr_name = act_function action, fr_arguments = args\<rparr>]\<rparr>;
              s1 = s\<lparr>co_bucket_app := map_touch [] (co_bucket_app s) (bk_bucket bucket_key)\<rparr>
          in case pick_worker data_node (co_node_status s1) of
               (routed_worker, nodes) \<Rightarrow>
                 if routed_worker = [] then Ok (out, s1\<lparr>co_node_status := nodes\<rparr>)
                 else res_bind (random_exec_address env routed_worker (co_seed s1)) (\<lambda>(address, seed).
                      Ok (out @ [Send address (Call_Msg internalCall)],
                          s1\<lparr>co_node_status := take_executor routed_worker nodes,
                             co_seed := seed\<rparr>))))"

definition notify_trigger ::
  "coord_env \<Rightarrow> KeyNotifyRequest \<Rightarrow> BucketKey \<Rightarrow> Trigger \<Rightarrow> Trigger list \<times> string list \<times> send list \<times> CoordState \<Rightarrow>
   (Trigger list \<times> string list \<times> send list \<times> CoordState) res" where
  "notify_trigger env request bucket_key trigger acc =
     (case acc of
        (triggers, triggered_name, out, s) \<Rightarrow>
          (case action_for_new_object (ce_now env) bucket_key trigger of
             (actions, trigger') \<Rightarrow>
               if trigger_name trigger \<in> set (kn_active_trigger_names request)
               then Ok (triggers @ [trigger'], triggered_name, out, s)
               else if actions = [] then Ok (triggers @ [trigger'], triggered_name, out, s)
               else (let arg_flag = word_of_int (trigger_option trigger + 1);
                         names = (if trigger_type trigger \<noteq> BY_TIME
                                  then triggered_name @ [trigger_name trigger] else triggered_name)
                     in res_bind (res_fold (schedule_action env request bucket_key arg_flag) actions (out, s))
                          (\<lambda>(out', s'). Ok (triggers @ [trigger'], names, out', s')))))"

definition sync_nodes :: "BucketKey \<Rightarrow> string list \<Rightarrow> CoordState \<Rightarrow> send list \<times> CoordState" where
  "sync_nodes bucket_key triggered_name s =
     (if triggered_name = [] then ([], s)
      else (let coord_msg = empty_update\<lparr>uc_msg_type := 1,
                  uc_triggers := map (\<lambda>name. empty_entity\<lparr>te_bucket_name := bk_bucket bucket_key,
                                    te_trigger_name := name, te_session := bk_session bucket_key\<rparr>)
                                  triggered_name\<rparr>
            in (map (\<lambda>ip. Send (trigger_update_address ip) (Update_Msg coord_msg))
                  (map_at [] (co_bucket_node s) (bk_bucket bucket_key)),
                s\<lparr>co_bucket_node := map_touch [] (co_bucket_node s) (bk_bucket bucket_key)\<rparr>)))"

definition notify_triggers ::
  "coord_env \<Rightarrow> KeyNotifyRequest \<Rightarrow> BucketKey \<Rightarrow> CoordState \<Rightarrow> (send list \<times> CoordState) res" where
  "notify_triggers env request bucket_key s =
     res_bind (res_fold (notify_trigger env request bucket_key)
                 (map_at [] (co_triggers s) (bk_bucket bucket_key)) ([], [], [], s))
       (\<lambda>(triggers, triggered_name, out, s').
       case sync_nodes bucket_key triggered_name
              (s'\<lparr>co_triggers := (co_triggers s')(bk_bucket bucket_key \<mapsto> triggers)\<rparr>) of
         (syncs, s'') \<Rightarrow> Ok (out @ syncs, s''))"

definition record_object :: "BucketKey \<Rightarrow> Address \<Rightarrow> CoordState \<Rightarrow> CoordState res" where
  "record_object bucket_key ip s =
     res_bind (host_of ip) (\<lambda>host.
     Ok (s\<lparr>co_bucket_node := (co_bucket_node s)(bk_bucket bucket_key \<mapsto>
              uset_insert host (map_at [] (co_bucket_node s) (bk_bucket bucket_key))),
            co_address_map := update_address bucket_key ip (co_address_map s)\<rparr>))"

fun notify_addresses ::
  "coord_env \<Rightarrow> KeyNotifyRequest \<Rightarrow> BucketKeyAddress list \<Rightarrow> CoordState \<Rightarrow> (send list \<times> CoordState) res" where
  "notify_addresses env request [] s = Ok ([], s)"
| "notify_addresses env request (address # rest) s =
     (let bucket_key = get_bucket_key_from_addr address; payload = bka_payload address
      in res_bind (nth_res (bka_ips address) 0) (\<lambda>ip.
         if payload = [] \<and> co_bucket_app s (bk_bucket bucket_key) = None then Ok ([], s)
         else res_bind (record_object bucket_key ip s) (\<lambda>s1.
              let s2 = (if payload \<noteq> []
                        then s1\<lparr>co_val_map := (co_val_map s1)(shm_key_name bucket_key \<mapsto> payload)\<rparr>
                        else s1)
              in res_bind (notify_triggers env request bucket_key s2) (\<lambda>(out, s3).
                 res_bind (notify_addresses env request rest s3) (\<lambda>(outs, s4).
                 Ok (out @ outs, s4))))))"

definition notify_handler ::
  "coord_env \<Rightarrow> KeyNotifyRequest \<Rightarrow> CoordState \<Rightarrow> (send list \<times> CoordState) res" where
  "notify_handler env request s = notify_addresses env request (kn_addresses request) s"

end
