(* ===== verification/Ph_Trigger_Laws.thy ===== *)
theory Ph_Trigger_Laws
  imports Ph_Trigger
begin

text \<open>
  What the trigger primitives guarantee. Buffering triggers neither lose, duplicate nor reorder
  objects (locale \<open>conserving_trigger\<close>); a set trigger implements, session by session, the
  specification ``fire when every key of the set has arrived'' (an instance of
  \<open>simulation\<close>); a dynamic-group trigger emits every data key once, in the action of its
  group; a redundant trigger fires once per round; serializing a trigger and building it again
  gives the freshly constructed trigger; re-execution metadata lives from the start of the source
  function to the arrival of its object.
\<close>

section \<open>Buffering triggers\<close>

locale conserving_trigger =
  fixes step :: "'s \<Rightarrow> 'i \<Rightarrow> TriggerAction list \<times> 's"
    and pending :: "'s \<Rightarrow> session_key list"
    and obj :: "'i \<Rightarrow> session_key"
  assumes step_conserves:
    "step s x = (acts, s') \<Longrightarrow> concat (map act_session_keys acts) @ pending s' = pending s @ [obj x]"
begin

lemma run_conserves:
  "run step s xs = (acts, s') \<Longrightarrow>
   concat (map act_session_keys acts) @ pending s' = pending s @ map obj xs"
proof (induction xs arbitrary: s acts)
  case (Cons x xs)
  obtain o1 s1 o2 where eq: "step s x = (o1, s1)" "run step s1 xs = (o2, s')" "acts = o1 @ o2"
    using Cons.prems by (auto split: prod.splits)
  have "concat (map act_session_keys acts) @ pending s' =
    concat (map act_session_keys o1) @ (concat (map act_session_keys o2) @ pending s')"
    by (simp add: eq(3))
  also have "\<dots> = (concat (map act_session_keys o1) @ pending s1) @ map obj xs"
    by (simp add: Cons.IH [OF eq(2)])
  also have "\<dots> = pending s @ map obj (x # xs)"
    by (simp add: step_conserves [OF eq(1)])
  finally show ?case .
qed simp

end

interpretation batch: conserving_trigger
  "\<lambda>t bk. by_batch_size_action target bk t" bb_buffer session_key_of for target
  by unfold_locales (auto simp: by_batch_size_action_def Let_def split: if_splits)

interpretation timed: conserving_trigger
  "\<lambda>t x. by_time_action (fst x) target (snd x) t" bt_buffer "\<lambda>x. session_key_of (snd x)" for target
  by unfold_locales (auto simp: by_time_action_def Let_def split: if_splits)

interpretation immediate: conserving_trigger
  "\<lambda>t bk. immediate_action target bk t" "\<lambda>_. []" session_key_of for target
  by unfold_locales (auto simp: immediate_action_def)

text \<open>The configuration of a batch trigger never changes, and every batch has the configured size.\<close>

definition batch_inv :: "32 word \<Rightarrow> ByBatchSizeTrigger \<Rightarrow> bool" where
  "batch_inv c t \<longleftrightarrow> bb_count t = c \<and> 0 < sint c \<and> length (bb_buffer t) < nat (sint c)"

lemma by_batch_size_action_inv:
  assumes "batch_inv c t" and "by_batch_size_action target bk t = (acts, t')"
  shows "batch_inv c t' \<and>
    (\<forall>a \<in> set acts. act_function a = target \<and> length (act_session_keys a) = nat (sint c))"
  using assms int_to_size_nonneg [of c]
  by (auto simp: batch_inv_def by_batch_size_action_def Let_def split: if_splits)

text \<open>
  Property C24: over any stream of objects a batch trigger hands every object on exactly once and in
  order: the objects of the fired actions followed by the buffered ones are the objects that were
  buffered before followed by the stream. Every fired action calls the target function with exactly
  the configured number of objects, and fewer than that number stay buffered.
\<close>

theorem by_batch_size_stream:
  assumes "0 < sint (bb_count t)" and "length (bb_buffer t) < nat (sint (bb_count t))"
    and "run (\<lambda>t bk. by_batch_size_action target bk t) t bks = (acts, t')"
  shows "concat (map act_session_keys acts) @ bb_buffer t' = bb_buffer t @ map session_key_of bks \<and>
    (\<forall>a \<in> set acts. act_function a = target \<and>
       length (act_session_keys a) = nat (sint (bb_count t))) \<and>
    length (bb_buffer t') < nat (sint (bb_count t))"
proof -
  let ?c = "bb_count t"
  have inv: "batch_inv ?c t" using assms(1,2) by (simp add: batch_inv_def)
  have "\<forall>a \<in> set acts. act_function a = target \<and> length (act_session_keys a) = nat (sint ?c)"
    by (rule run_outputs [where P = "batch_inv ?c", OF assms(3) inv])
      (rule by_batch_size_action_inv)
  moreover have "batch_inv ?c t'"
    by (rule run_invariant [where P = "batch_inv ?c", OF assms(3) inv])
      (use by_batch_size_action_inv in blast)
  ultimately show ?thesis
    using batch.run_conserves [OF assms(3)] by (simp add: batch_inv_def)
qed

definition ex_bk :: "string \<Rightarrow> string \<Rightarrow> BucketKey" where
  "ex_bk session key = \<lparr>bk_bucket = ''b'', bk_key = key, bk_session = session\<rparr>"

theorem by_batch_size_stream_witness:
  "let t = \<lparr>bb_count = 2, bb_buffer = [], bb_cache = Map.empty\<rparr>;
       r = run (\<lambda>t bk. by_batch_size_action ''f'' bk t) t
             [ex_bk ''s'' ''a'', ex_bk ''s'' ''b'', ex_bk ''s'' ''c'']
   in map act_session_keys (fst r) = [[(''s'', ''a''), (''s'', ''b'')]] \<and>
      bb_buffer (snd r) = [(''s'', ''c'')] \<and>
      length (bb_buffer (snd r)) < 2"
proof -
  let ?t = "\<lparr>bb_count = 2, bb_buffer = [], bb_cache = Map.empty\<rparr>"
  let ?bks = "[ex_bk ''s'' ''a'', ex_bk ''s'' ''b'', ex_bk ''s'' ''c'']"
  obtain acts t' where r: "run (\<lambda>t bk. by_batch_size_action ''f'' bk t) ?t ?bks = (acts, t')"
    by fastforce
  have "length (bb_buffer t') < nat (sint (bb_count ?t))"
    using by_batch_size_stream [OF _ _ r] by simp
  moreover have "map act_session_keys acts = [[(''s'', ''a''), (''s'', ''b'')]] \<and>
      bb_buffer t' = [(''s'', ''c'')]"
    using r by (auto simp: by_batch_size_action_def ex_bk_def session_key_of_def int_to_size_def)
  ultimately show ?thesis unfolding r Let_def by simp
qed

lemma by_time_quiet:
  assumes "run (\<lambda>t x. by_time_action (fst x) target (snd x) t) t xs = (acts, t')"
    and "\<forall>x \<in> set xs. cast_ms (fst x - bt_last_stamp t) < uint (bt_time_window t)"
  shows "acts = []"
  using assms
proof (induction xs arbitrary: t acts)
  case (Cons x xs)
  then show ?case
    by (fastforce simp: by_time_action_def Let_def split: prod.splits if_splits)
qed simp

text \<open>
  A time-window trigger conserves its stream in the same way: what it fires, followed by
  what stays buffered, is what was buffered followed by the stream. It fires only if some object of
  the stream arrives at least the window after the last firing.
\<close>

lemma by_time_stream:
  assumes "run (\<lambda>t x. by_time_action (fst x) target (snd x) t) t xs = (acts, t')"
  shows "concat (map act_session_keys acts) @ bt_buffer t' =
      bt_buffer t @ map (\<lambda>x. session_key_of (snd x)) xs \<and>
    (acts = [] \<or> (\<exists>x \<in> set xs. uint (bt_time_window t) \<le> cast_ms (fst x - bt_last_stamp t)))"
  using timed.run_conserves [OF assms] by_time_quiet [OF assms] by fastforce

section \<open>The set trigger\<close>

text \<open>
  The specification: per session, the keys of the set that have arrived since the last firing. The
  trigger fires when they are all there, and starts again.
\<close>

type_synonym by_set_spec = "Session \<Rightarrow> Key set"

definition spec_by_set :: "string \<Rightarrow> Key list \<Rightarrow> by_set_spec \<Rightarrow> BucketKey \<Rightarrow> TriggerAction list \<times> by_set_spec"
  where
  "spec_by_set target keys seen bk =
     (let here = insert (bk_key bk) (seen (bk_session bk))
      in if bk_key bk \<notin> set keys then ([], seen)
         else if here = set keys
         then ([\<lparr>act_function = target, act_session_keys = map (Pair (bk_session bk)) keys\<rparr>],
               seen(bk_session bk := {}))
         else ([], seen(bk_session bk := here)))"

definition by_set_seen :: "BySetTrigger \<Rightarrow> by_set_spec" where
  "by_set_seen t = (\<lambda>session. set (map_at [] (bs_prepared t) session))"

definition by_set_inv :: "Key list \<Rightarrow> BySetTrigger \<Rightarrow> bool" where
  "by_set_inv keys t \<longleftrightarrow> bs_key_set t = keys \<and> distinct keys \<and>
     (\<forall>s. distinct (map_at [] (bs_prepared t) s) \<and> set (map_at [] (bs_prepared t) s) \<subseteq> set keys)"

lemma by_set_seen_upd:
  "by_set_seen (t\<lparr>bs_prepared := (bs_prepared t)(s \<mapsto> ks), bs_cache := c\<rparr>) =
   (by_set_seen t)(s := set ks)"
  by (auto simp: by_set_seen_def fun_eq_iff)

lemma by_set_complete_iff:
  assumes "by_set_inv keys t" and "bk_key bk \<in> set keys"
  shows "length (uset_insert (bk_key bk) (map_at [] (bs_prepared t) (bk_session bk))) = length keys \<longleftrightarrow>
    insert (bk_key bk) (by_set_seen t (bk_session bk)) = set keys"
  using assms by (subst distinct_subset_eq_length) (auto simp: by_set_inv_def by_set_seen_def)

lemma by_set_action_inv:
  assumes "by_set_inv keys t" and "by_set_action target bk t = (acts, t')"
  shows "by_set_inv keys t'"
  using assms unfolding by_set_inv_def by_set_action_def Let_def
  by (auto simp: map_at_erase subset_iff split: if_splits)

lemma by_set_action_simulates:
  assumes "by_set_inv keys t" and "by_set_action target bk t = (acts, t')"
  shows "spec_by_set target keys (by_set_seen t) bk = (acts, by_set_seen t')"
proof (cases "bk_key bk \<in> set keys")
  case False
  with assms show ?thesis
    by (auto simp: spec_by_set_def by_set_action_def by_set_inv_def)
next
  case True
  have ks: "bs_key_set t = keys" using assms(1) by (simp add: by_set_inv_def)
  have seen: "by_set_seen t (bk_session bk) = set (map_at [] (bs_prepared t) (bk_session bk))"
    by (simp add: by_set_seen_def)
  show ?thesis
    using assms(2) True by_set_complete_iff [OF assms(1) True]
    by (auto simp: spec_by_set_def by_set_action_def ks Let_def by_set_seen_upd seen
        map_at_erase by_set_seen_def fun_eq_iff split: if_splits)
qed

interpretation by_set: simulation
  "\<lambda>t bk. by_set_action target bk t" "spec_by_set target keys" by_set_seen "by_set_inv keys"
  for target keys
  by unfold_locales (auto dest: by_set_action_simulates by_set_action_inv)

text \<open>
  Property C3: a set trigger, run over any stream of objects of any number of interleaved sessions,
  fires exactly when and what its specification fires: for a session, once all keys of its set
  have arrived there since its last firing, with every key of the set paired with that session.
\<close>

theorem by_set_refines_spec:
  assumes "bs_key_set t = keys" and "distinct keys" and "bs_prepared t = Map.empty"
    and "run (\<lambda>t bk. by_set_action target bk t) t bks = (acts, t')"
  shows "run (spec_by_set target keys) (\<lambda>_. {}) bks = (acts, by_set_seen t')"
proof -
  have "by_set_inv keys t" using assms(1-3) by (simp add: by_set_inv_def)
  moreover have "by_set_seen t = (\<lambda>_. {})" using assms(3) by (simp add: by_set_seen_def)
  ultimately show ?thesis using by_set.run_simulates [OF _ assms(4), of keys] by simp
qed

theorem by_set_refines_spec_witness:
  "let t = \<lparr>bs_key_set = [''a'', ''b''], bs_prepared = Map.empty, bs_func_key_map = [],
            bs_cache = Map.empty\<rparr>;
       bks = [ex_bk ''s'' ''a'', ex_bk ''u'' ''b'', ex_bk ''s'' ''b'']
   in fst (run (spec_by_set ''f'' [''a'', ''b'']) (\<lambda>_. {}) bks) =
        fst (run (\<lambda>t bk. by_set_action ''f'' bk t) t bks) \<and>
      map act_session_keys (fst (run (\<lambda>t bk. by_set_action ''f'' bk t) t bks)) =
        [[(''s'', ''a''), (''s'', ''b'')]]"
proof -
  let ?t = "\<lparr>bs_key_set = [''a'', ''b''], bs_prepared = Map.empty, bs_func_key_map = [],
            bs_cache = Map.empty\<rparr>"
  let ?bks = "[ex_bk ''s'' ''a'', ex_bk ''u'' ''b'', ex_bk ''s'' ''b'']"
  obtain acts t' where r: "run (\<lambda>t bk. by_set_action ''f'' bk t) ?t ?bks = (acts, t')"
    by fastforce
  have "fst (run (spec_by_set ''f'' [''a'', ''b'']) (\<lambda>_. {}) ?bks) = acts"
    using by_set_refines_spec [OF _ _ _ r] by simp
  moreover have "map act_session_keys acts = [[(''s'', ''a''), (''s'', ''b'')]]"
    using r by (auto simp: by_set_action_def ex_bk_def uset_insert_def Let_def)
  ultimately show ?thesis unfolding Let_def r by simp
qed


section \<open>The redundant trigger\<close>

lemma redundant_collect:
  assumes "run (\<lambda>t bk. redundant_action target bk t) t bks = (acts, t')"
    and "unat (rd_count t) + length bks < unat (rd_k t)"
  shows "acts = [] \<and> t' = t\<lparr>rd_count := rd_count t + word_of_nat (length bks),
                            rd_buffer := rd_buffer t @ map session_key_of bks\<rparr>"
  using assms
proof (induction bks arbitrary: t acts)
  case Nil
  then show ?case by simp
next
  case (Cons bk bks)
  let ?t1 = "t\<lparr>rd_count := rd_count t + 1, rd_buffer := rd_buffer t @ [session_key_of bk]\<rparr>"
  have u: "unat (rd_count t + 1) = Suc (unat (rd_count t))"
    by (rule unat_Suc_less [of _ "rd_k t"]) (use Cons.prems in simp)
  have step: "redundant_action target bk t = ([], ?t1)"
    using Cons.prems(2) u
    by (simp add: redundant_action_def Let_def word_le_nat_alt word_unat_eq_iff)
  have "run (\<lambda>t bk. redundant_action target bk t) ?t1 bks = (acts, t')"
    using Cons.prems(1) by (simp add: step split: prod.splits)
  then have "acts = [] \<and> t' = ?t1\<lparr>rd_count := rd_count ?t1 + word_of_nat (length bks),
      rd_buffer := rd_buffer ?t1 @ map session_key_of bks\<rparr>"
    by (rule Cons.IH) (use Cons.prems(2) u in simp)
  then show ?case by (simp add: add.assoc)
qed

lemma redundant_drop:
  assumes "run (\<lambda>t bk. redundant_action target bk t) t bks = (acts, t')"
    and "unat (rd_k t) \<le> unat (rd_count t)" and "unat (rd_count t) + length bks < unat (rd_n t)"
  shows "acts = [] \<and> t' = t\<lparr>rd_count := rd_count t + word_of_nat (length bks)\<rparr>"
  using assms
proof (induction bks arbitrary: t acts)
  case Nil
  then show ?case by simp
next
  case (Cons bk bks)
  let ?t1 = "t\<lparr>rd_count := rd_count t + 1\<rparr>"
  have u: "unat (rd_count t + 1) = Suc (unat (rd_count t))"
    by (rule unat_Suc_less [of _ "rd_n t"]) (use Cons.prems in simp)
  have step: "redundant_action target bk t = ([], ?t1)"
    using Cons.prems(2,3) u
    by (simp add: redundant_action_def Let_def word_le_nat_alt)
  have "run (\<lambda>t bk. redundant_action target bk t) ?t1 bks = (acts, t')"
    using Cons.prems(1) by (simp add: step split: prod.splits)
  then have "acts = [] \<and> t' = ?t1\<lparr>rd_count := rd_count ?t1 + word_of_nat (length bks)\<rparr>"
    by (rule Cons.IH) (use Cons.prems(2,3) u in simp_all)
  then show ?case by (simp add: add.assoc)
qed

lemma redundant_fire:
  assumes "rd_count t + 1 = rd_k t"
  shows "redundant_action target bk t =
    ([\<lparr>act_function = target, act_session_keys = rd_buffer t @ [session_key_of bk]\<rparr>],
     t\<lparr>rd_count := rd_k t, rd_buffer := []\<rparr>)"
  using assms by (simp add: redundant_action_def Let_def)

lemma redundant_reset:
  assumes "unat (rd_k t) < Suc (unat (rd_count t))" and "unat (rd_n t) \<le> Suc (unat (rd_count t))"
    and "Suc (unat (rd_count t)) < 2 ^ 32"
  shows "redundant_action target bk t = ([], t\<lparr>rd_count := 0\<rparr>)"
proof -
  have "unat (rd_count t + 1) = Suc (unat (rd_count t))"
    using assms(3) by (simp add: unat_word_ariths)
  then show ?thesis
    using assms by (simp add: redundant_action_def Let_def word_le_nat_alt)
qed

text \<open>The first phase of a round: the k-th object fires.\<close>

lemma redundant_first_k:
  assumes "rd_count t = 0" and "rd_buffer t = []" and "length bks = unat (rd_k t)"
    and "0 < unat (rd_k t)"
  shows "run (\<lambda>t bk. redundant_action target bk t) t bks =
    ([\<lparr>act_function = target, act_session_keys = map session_key_of bks\<rparr>],
     t\<lparr>rd_count := rd_k t\<rparr>)"
proof -
  obtain front bk where bks: "bks = front @ [bk]"
    using assms(3,4) by (metis length_greater_0_conv rev_exhaust)
  obtain a1 t1 where r1: "run (\<lambda>t bk. redundant_action target bk t) t front = (a1, t1)"
    by fastforce
  have len: "length front + 1 = unat (rd_k t)" using assms(3) bks by simp
  have t1: "a1 = [] \<and> t1 = t\<lparr>rd_count := rd_count t + word_of_nat (length front),
      rd_buffer := rd_buffer t @ map session_key_of front\<rparr>"
    by (rule redundant_collect [OF r1]) (use assms len in simp)
  have "(word_of_nat (length front) :: uint32) + 1 = word_of_nat (unat (rd_k t))"
    by (simp flip: len)
  then have "rd_count t1 + 1 = rd_k t1" using assms(1) t1 by simp
  from redundant_fire [OF this] show ?thesis
    using assms(1,2) t1 by (simp add: bks run_append r1)
qed

text \<open>
  Property C26: a redundant trigger with \<open>0 < k < n\<close> works in rounds of \<open>n\<close> objects. Over any
  \<open>n\<close> objects it fires exactly once, with the first \<open>k\<close> of them in order, drops the late
  ones, and is back in the state it started from.
\<close>

theorem redundant_round:
  assumes "rd_count t = 0" and "rd_buffer t = []"
    and "0 < unat (rd_k t)" and "unat (rd_k t) < unat (rd_n t)" and "length bks = unat (rd_n t)"
  shows "run (\<lambda>t bk. redundant_action target bk t) t bks =
    ([\<lparr>act_function = target,
      act_session_keys = map session_key_of (take (unat (rd_k t)) bks)\<rparr>], t)"
proof -
  let ?k = "unat (rd_k t)" and ?n = "unat (rd_n t)"
  define front where "front = take ?k bks"
  obtain mid bk where bks: "bks = front @ mid @ [bk]"
    using assms(4,5) front_def
    by (metis append_take_drop_id drop_eq_Nil leD rev_exhaust)
  have lf: "length front = ?k" using assms(4,5) by (simp add: front_def)
  have lm: "?k + length mid + 1 = ?n" using assms(5) lf by (simp add: bks)
  let ?t1 = "t\<lparr>rd_count := rd_k t\<rparr>"
  have r1: "run (\<lambda>t bk. redundant_action target bk t) t front =
      ([\<lparr>act_function = target, act_session_keys = map session_key_of front\<rparr>], ?t1)"
    by (rule redundant_first_k) (use assms lf in auto)
  obtain a2 t2 where r2: "run (\<lambda>t bk. redundant_action target bk t) ?t1 mid = (a2, t2)"
    by fastforce
  have t2: "a2 = [] \<and> t2 = ?t1\<lparr>rd_count := rd_count ?t1 + word_of_nat (length mid)\<rparr>"
    by (rule redundant_drop [OF r2]) (use lm in auto)
  have c2: "unat (rd_count t2) = ?k + length mid"
  proof -
    have "?k + length mid < 2 ^ 32" using lm unat_uint32_less [of "rd_n t"] by simp
    then show ?thesis using t2 by (simp add: unat_word_ariths unat_of_nat)
  qed
  have "redundant_action target bk t2 = ([], t2\<lparr>rd_count := 0\<rparr>)"
    by (rule redundant_reset) (use c2 lm t2 unat_uint32_less [of "rd_n t"] in auto)
  moreover have "t2\<lparr>rd_count := 0\<rparr> = t"
    using t2 assms(1) by simp
  ultimately show ?thesis
    using t2 by (simp add: bks run_append r1 r2 lf)
qed

theorem redundant_round_witness:
  "let t = \<lparr>rd_k = 1, rd_n = 3, rd_count = 0, rd_buffer = []\<rparr>
   in run (\<lambda>t bk. redundant_action ''f'' bk t) t
        [ex_bk ''s'' ''a'', ex_bk ''s'' ''b'', ex_bk ''s'' ''c''] =
      ([\<lparr>act_function = ''f'', act_session_keys = [(''s'', ''a'')]\<rparr>], t)"
  using redundant_round [of "\<lparr>rd_k = 1, rd_n = 3, rd_count = 0, rd_buffer = []\<rparr>"
      "[ex_bk ''s'' ''a'', ex_bk ''s'' ''b'', ex_bk ''s'' ''c'']" "''f''"]
  by (simp add: ex_bk_def session_key_of_def)

text \<open>
  With \<open>k = n\<close>, where nothing is redundant, a round takes \<open>n + 1\<close> objects: the trigger
  fires on the first \<open>n\<close> and swallows the next one, because the counter is reset only by an object
  beyond the \<open>k\<close>-th.
\<close>

lemma redundant_k_eq_n_drops:
  assumes "rd_count t = 0" and "rd_buffer t = []"
    and "rd_k t = rd_n t" and "0 < unat (rd_n t)" and "unat (rd_n t) + 1 < 2 ^ 32"
    and "length bks = unat (rd_n t)"
  shows "run (\<lambda>t bk. redundant_action target bk t) t (bks @ [bk]) =
    ([\<lparr>act_function = target, act_session_keys = map session_key_of bks\<rparr>], t)"
proof -
  let ?t1 = "t\<lparr>rd_count := rd_k t\<rparr>"
  have r1: "run (\<lambda>t bk. redundant_action target bk t) t bks =
      ([\<lparr>act_function = target, act_session_keys = map session_key_of bks\<rparr>], ?t1)"
    by (rule redundant_first_k) (use assms in auto)
  have "redundant_action target bk ?t1 = ([], ?t1\<lparr>rd_count := 0\<rparr>)"
    by (rule redundant_reset) (use assms in auto)
  then show ?thesis using assms(1) by (simp add: run_append r1)
qed

section \<open>The dynamic-group trigger\<close>

definition group_ok :: "string \<times> Key list \<Rightarrow> bool" where
  "group_ok gk \<longleftrightarrow> snd gk \<noteq> [] \<and> distinct (snd gk) \<and> fst gk \<noteq> control_group_prefix \<and>
     (\<forall>k \<in> set (snd gk). group_of k = fst gk)"

definition dg_inv :: "DynamicGroupTrigger \<Rightarrow> bool" where
  "dg_inv t \<longleftrightarrow>
     umap_ok (dg_data_groups t) \<and> (\<forall>gk \<in> set (dg_data_groups t). group_ok gk) \<and>
     distinct (dg_control_group t) \<and> distinct (dg_cur_control t) \<and>
     set (dg_cur_control t) \<subseteq> set (dg_control_group t)"

definition dg_pending :: "DynamicGroupTrigger \<Rightarrow> Key list" where
  "dg_pending t = concat (map snd (dg_data_groups t))"

definition group_actions :: "string \<Rightarrow> Session \<Rightarrow> (string \<times> Key list) list \<Rightarrow> TriggerAction list" where
  "group_actions target session groups =
     map (\<lambda>gk. \<lparr>act_function = target, act_session_keys = map (\<lambda>key. (session, key)) (snd gk)\<rparr>) groups"

lemma dynamic_group_action_eq:
  "dynamic_group_action target bk t =
     (let cur = (if bk_key bk \<in> set (dg_control_group t)
                 then uset_insert (bk_key bk) (dg_cur_control t) else dg_cur_control t);
          g = group_of (bk_key bk)
      in if g = control_group_prefix
         then (if length cur = length (dg_control_group t)
               then (group_actions target (bk_session bk) (dg_data_groups t),
                     t\<lparr>dg_data_groups := [], dg_cur_control := []\<rparr>)
               else ([], t\<lparr>dg_cur_control := cur\<rparr>))
         else ([], t\<lparr>dg_data_groups := AList.update g
                 (uset_insert (bk_key bk) (umap_at [] (dg_data_groups t) g)) (dg_data_groups t)\<rparr>))"
  by (simp add: dynamic_group_action_def group_actions_def Let_def)

lemma dg_pending_update:
  assumes "umap_ok m"
  shows "set (concat (map snd (AList.update g (uset_insert k (umap_at [] m g)) m))) =
    insert k (set (concat (map snd m)))"
  using assms
proof (induction m)
  case Nil
  then show ?case by (simp add: uset_insert_def)
next
  case (Cons p m)
  show ?case
  proof (cases "fst p = g")
    case True
    then show ?thesis by (cases p) (auto simp: umap_at_def map_at_def)
  next
    case False
    then have at: "umap_at [] (p # m) g = umap_at [] m g"
      by (cases p) (simp add: umap_at_def map_at_def)
    show ?thesis using Cons False unfolding at by auto
  qed
qed

lemma dg_inv_at:
  assumes "dg_inv t"
  shows "distinct (umap_at [] (dg_data_groups t) g) \<and>
    (\<forall>x \<in> set (umap_at [] (dg_data_groups t) g). group_of x = g)"
proof (cases "umap_at [] (dg_data_groups t) g = []")
  case False
  then have "group_ok (g, umap_at [] (dg_data_groups t) g)"
    using assms umap_at_mem [OF False] by (simp add: dg_inv_def)
  then show ?thesis by (simp add: group_ok_def)
qed simp

lemma dg_inv_data:
  assumes "dg_inv t" and "group_of k \<noteq> control_group_prefix"
  shows "dg_inv (t\<lparr>dg_data_groups := AList.update (group_of k)
    (uset_insert k (umap_at [] (dg_data_groups t) (group_of k))) (dg_data_groups t)\<rparr>)"
proof -
  let ?m = "dg_data_groups t" and ?g = "group_of k"
  let ?ks = "uset_insert k (umap_at [] ?m ?g)"
  have "group_ok (?g, ?ks)"
    using dg_inv_at [OF assms(1), of ?g] assms(2) by (simp add: group_ok_def)
  then show ?thesis
    using assms(1) set_AList_update_subset [of ?g ?ks ?m] by (auto simp: dg_inv_def)
qed

lemma dynamic_group_action_inv:
  assumes "dg_inv t" and "dynamic_group_action target bk t = (acts, t')"
  shows "dg_inv t'"
proof (cases "group_of (bk_key bk) = control_group_prefix")
  case True
  with assms show ?thesis
    by (auto simp: dynamic_group_action_eq Let_def dg_inv_def split: if_splits)
next
  case False
  with assms dg_inv_data [OF assms(1) False] show ?thesis
    by (auto simp: dynamic_group_action_eq Let_def)
qed

text \<open>
  The specification: the data keys that have arrived since the last firing, and the keys of the control
  group that have. When the control group is complete everything pending is fired under the session of the
  object that completed it, and the trigger starts again.
\<close>

type_synonym dg_spec = "Key set \<times> Key set"

definition spec_dynamic_group ::
  "Key set \<Rightarrow> dg_spec \<Rightarrow> BucketKey \<Rightarrow> (Session \<times> Key set) list \<times> dg_spec" where
  "spec_dynamic_group control st bk =
     (case st of
        (pending, arrived) \<Rightarrow>
          if group_of (bk_key bk) \<noteq> control_group_prefix then ([], (insert (bk_key bk) pending, arrived))
          else (let here = (if bk_key bk \<in> control then insert (bk_key bk) arrived else arrived)
                in if here = control then ([(bk_session bk, pending)], ({}, {})) else ([], (pending, here))))"

text \<open>The actions of one firing: one per group, with every pending key of the group exactly once.\<close>

definition fires :: "string \<Rightarrow> TriggerAction list \<Rightarrow> Session \<times> Key set \<Rightarrow> bool" where
  "fires target acts firing \<longleftrightarrow>
     mset (map (\<lambda>a. (act_function a, mset (act_session_keys a))) acts) =
     image_mset (\<lambda>g. (target, mset_set (Pair (fst firing) ` {k \<in> snd firing. group_of k = g})))
       (mset_set (group_of ` snd firing))"

definition dg_abs :: "DynamicGroupTrigger \<Rightarrow> dg_spec" where
  "dg_abs t = (set (dg_pending t), set (dg_cur_control t))"

lemma dg_group_keys:
  assumes "dg_inv t" and "(g, ks) \<in> set (dg_data_groups t)"
  shows "set ks = {k \<in> set (dg_pending t). group_of k = g}" and "distinct ks" and "ks \<noteq> []"
proof -
  have ok: "group_ok gk" if "gk \<in> set (dg_data_groups t)" for gk using assms(1) that by (simp add: dg_inv_def)
  have same: "ks' = ks" if "(g, ks') \<in> set (dg_data_groups t)" for ks'
    using assms that by (auto simp: dg_inv_def dest: eq_key_imp_eq_value)
  show "distinct ks" "ks \<noteq> []" using ok [OF assms(2)] by (simp_all add: group_ok_def)
  show "set ks = {k \<in> set (dg_pending t). group_of k = g}"
  proof (intro set_eqI iffI)
    fix k assume "k \<in> set ks"
    with assms(2) ok [OF assms(2)] show "k \<in> {k \<in> set (dg_pending t). group_of k = g}"
      by (auto simp: dg_pending_def group_ok_def intro!: bexI [of _ "(g, ks)"])
  next
    fix k assume "k \<in> {k \<in> set (dg_pending t). group_of k = g}"
    then obtain g' ks' where k: "(g', ks') \<in> set (dg_data_groups t)" "k \<in> set ks'" "group_of k = g"
      by (auto simp: dg_pending_def)
    with ok [OF k(1)] have "g' = g" by (auto simp: group_ok_def)
    with k same show "k \<in> set ks" by blast
  qed
qed

lemma dg_groups_pending:
  assumes "dg_inv t"
  shows "fst ` set (dg_data_groups t) = group_of ` set (dg_pending t)"
proof (intro set_eqI iffI)
  fix g assume "g \<in> fst ` set (dg_data_groups t)"
  then obtain ks where gk: "(g, ks) \<in> set (dg_data_groups t)" by auto
  from dg_group_keys [OF assms gk] obtain k where "k \<in> set (dg_pending t)" "group_of k = g"
    by (cases ks) auto
  then show "g \<in> group_of ` set (dg_pending t)" by blast
next
  fix g assume "g \<in> group_of ` set (dg_pending t)"
  then obtain g' ks k where k: "(g', ks) \<in> set (dg_data_groups t)" "k \<in> set ks" "g = group_of k"
    by (auto simp: dg_pending_def)
  then show "g \<in> fst ` set (dg_data_groups t)"
    using dg_group_keys(1) [OF assms k(1)] by force
qed

lemma group_actions_fire:
  assumes "dg_inv t"
  shows "fires target (group_actions target session (dg_data_groups t)) (session, set (dg_pending t))"
proof -
  let ?v = "\<lambda>g. (target, mset_set (Pair session ` {k \<in> set (dg_pending t). group_of k = g}))"
  have "mset (map (Pair session) (snd gk)) = mset_set (Pair session ` {k \<in> set (dg_pending t). group_of k = fst gk})"
    if "gk \<in> set (dg_data_groups t)" for gk
  proof -
    obtain g ks where gk: "gk = (g, ks)" by fastforce
    note keys = dg_group_keys [OF assms, of g ks]
    have "mset (map (Pair session) ks) = mset_set (set (map (Pair session) ks))"
      by (rule mset_set_set [symmetric]) (use keys that gk in \<open>simp add: distinct_map inj_on_def\<close>)
    then show ?thesis using keys(1) that by (simp add: gk)
  qed
  then have eq: "map (\<lambda>gk. (target, mset (map (Pair session) (snd gk)))) (dg_data_groups t) =
      map ?v (map fst (dg_data_groups t))" by simp
  have "mset (map (\<lambda>a. (act_function a, mset (act_session_keys a))) (group_actions target session (dg_data_groups t))) =
      mset (map (\<lambda>gk. (target, mset (map (Pair session) (snd gk)))) (dg_data_groups t))"
    by (simp add: group_actions_def comp_def)
  also have "\<dots> = image_mset ?v (mset (map fst (dg_data_groups t)))" unfolding eq by (rule mset_map)
  also have "mset (map fst (dg_data_groups t)) = mset_set (group_of ` set (dg_pending t))"
    using assms mset_set_set [of "map fst (dg_data_groups t)"] dg_groups_pending [OF assms] by (simp add: dg_inv_def)
  finally show ?thesis by (simp add: fires_def)
qed

lemma dynamic_group_complete_iff:
  assumes "dg_inv t" and "cur = (if k \<in> set (dg_control_group t) then uset_insert k (dg_cur_control t) else dg_cur_control t)"
  shows "length cur = length (dg_control_group t) \<longleftrightarrow> set cur = set (dg_control_group t)"
    and "set cur = (if k \<in> set (dg_control_group t) then insert k (set (dg_cur_control t)) else set (dg_cur_control t))"
proof -
  have "distinct cur" "distinct (dg_control_group t)" "set cur \<subseteq> set (dg_control_group t)"
    using assms by (auto simp: dg_inv_def)
  then show "length cur = length (dg_control_group t) \<longleftrightarrow> set cur = set (dg_control_group t)"
    by (rule distinct_subset_eq_length)
qed (simp add: assms(2))

lemma dynamic_group_action_simulates:
  assumes "dg_inv t" and "dynamic_group_action target bk t = (acts, t')"
  shows "\<exists>firing. spec_dynamic_group (set (dg_control_group t)) (dg_abs t) bk = (firing, dg_abs t') \<and>
    dg_control_group t' = dg_control_group t \<and> (\<exists>blocks. acts = concat blocks \<and> list_all2 (fires target) blocks firing)"
proof (cases "group_of (bk_key bk) = control_group_prefix")
  case False
  have "umap_ok (dg_data_groups t)" using assms(1) by (simp add: dg_inv_def)
  note pending = dg_pending_update [OF this, of "group_of (bk_key bk)" "bk_key bk"]
  define m where "m = AList.update (group_of (bk_key bk))
    (uset_insert (bk_key bk) (umap_at [] (dg_data_groups t) (group_of (bk_key bk)))) (dg_data_groups t)"
  have t': "t' = t\<lparr>dg_data_groups := m\<rparr>" and acts: "acts = []"
    using assms(2) False by (simp_all add: dynamic_group_action_eq m_def Let_def)
  have "set (dg_pending t') = insert (bk_key bk) (set (dg_pending t))"
    using pending unfolding m_def [symmetric] by (simp add: t' dg_pending_def)
  then have "spec_dynamic_group (set (dg_control_group t)) (dg_abs t) bk = ([], dg_abs t')"
    using False by (simp add: spec_dynamic_group_def dg_abs_def t')
  then show ?thesis by (auto simp: t' acts intro!: exI [of _ "[]"])
next
  case True
  define cur where "cur = (if bk_key bk \<in> set (dg_control_group t)
    then uset_insert (bk_key bk) (dg_cur_control t) else dg_cur_control t)"
  note complete = dynamic_group_complete_iff [OF assms(1) cur_def]
  show ?thesis
  proof (cases "set cur = set (dg_control_group t)")
    case full: True
    then have "acts = group_actions target (bk_session bk) (dg_data_groups t)"
        "t' = t\<lparr>dg_data_groups := [], dg_cur_control := []\<rparr>"
      using assms(2) True complete(1) by (simp_all add: dynamic_group_action_eq Let_def cur_def [symmetric])
    moreover have "spec_dynamic_group (set (dg_control_group t)) (dg_abs t) bk =
        ([(bk_session bk, set (dg_pending t))], ({}, {}))"
      using True full complete(2) by (simp add: spec_dynamic_group_def dg_abs_def Let_def)
    ultimately show ?thesis
      using group_actions_fire [OF assms(1), of target "bk_session bk"]
      by (intro exI [of _ "[(bk_session bk, set (dg_pending t))]"])
        (auto simp: dg_abs_def dg_pending_def intro!: exI [of _ "[group_actions target (bk_session bk) (dg_data_groups t)]"])
  next
    case partial: False
    then have "acts = []" "t' = t\<lparr>dg_cur_control := cur\<rparr>"
      using assms(2) True complete(1) by (simp_all add: dynamic_group_action_eq Let_def cur_def [symmetric])
    moreover have "spec_dynamic_group (set (dg_control_group t)) (dg_abs t) bk = ([], (set (dg_pending t), set cur))"
      using True partial complete(2) by (simp add: spec_dynamic_group_def dg_abs_def Let_def)
    ultimately show ?thesis by (auto simp: dg_abs_def dg_pending_def intro!: exI [of _ "[]"])
  qed
qed

text \<open>
  Property C25: a dynamic-group trigger, over any stream of objects, fires exactly when its specification
  does: whenever the control group has become complete, and only then. A firing has one action per group
  of pending keys, with exactly these keys, each once, and afterwards nothing is pending, so that no
  key is fired twice or lost.
\<close>

theorem dynamic_group_stream:
  assumes "dg_inv t" and "run (\<lambda>t bk. dynamic_group_action target bk t) t bks = (acts, t')"
  shows "\<exists>firings. run (spec_dynamic_group (set (dg_control_group t))) (dg_abs t) bks = (firings, dg_abs t') \<and>
    (\<exists>blocks. acts = concat blocks \<and> list_all2 (fires target) blocks firings) \<and> dg_inv t'"
  using assms
proof (induction bks arbitrary: t acts)
  case (Cons bk bks)
  obtain o1 t1 o2 where step: "dynamic_group_action target bk t = (o1, t1)"
    and rest: "run (\<lambda>t bk. dynamic_group_action target bk t) t1 bks = (o2, t')" and acts: "acts = o1 @ o2"
    using Cons.prems(2) by (auto split: prod.splits)
  from dynamic_group_action_simulates [OF Cons.prems(1) step] obtain f1 b1
    where 1: "spec_dynamic_group (set (dg_control_group t)) (dg_abs t) bk = (f1, dg_abs t1)"
      "dg_control_group t1 = dg_control_group t" "o1 = concat b1" "list_all2 (fires target) b1 f1" by blast
  from Cons.IH [OF dynamic_group_action_inv [OF Cons.prems(1) step] rest] obtain f2 b2
    where 2: "run (spec_dynamic_group (set (dg_control_group t))) (dg_abs t1) bks = (f2, dg_abs t')"
      "o2 = concat b2" "list_all2 (fires target) b2 f2" "dg_inv t'" unfolding 1(2) by blast
  have "run (spec_dynamic_group (set (dg_control_group t))) (dg_abs t) (bk # bks) = (f1 @ f2, dg_abs t')"
    using 1(1) 2(1) by simp
  moreover have "acts = concat (b1 @ b2)" "list_all2 (fires target) (b1 @ b2) (f1 @ f2)"
    using acts 1(3,4) 2(2,3) by (simp_all add: list_all2_appendI)
  ultimately show ?case using 2(4) by blast
qed (auto intro!: exI [of _ "[]"])

theorem dynamic_group_stream_witness:
  "let t = \<lparr>dg_data_groups = [], dg_control_group = [''ctrl:m''], dg_cur_control = []\<rparr>;
       bks = [ex_bk ''s'' ''g:a'', ex_bk ''s'' ''h:c'', ex_bk ''s'' ''g:b'', ex_bk ''u'' ''ctrl:m'', ex_bk ''u'' ''ctrl:m'']
   in \<exists>acts t'. run (\<lambda>t bk. dynamic_group_action ''f'' bk t) t bks = (acts, t') \<and>
        (\<exists>first second. acts = first @ second \<and> fires ''f'' first (''u'', {''g:a'', ''h:c'', ''g:b''}) \<and> fires ''f'' second (''u'', {}))"
proof -
  let ?t = "\<lparr>dg_data_groups = [], dg_control_group = [''ctrl:m''], dg_cur_control = []\<rparr>"
  let ?bks = "[ex_bk ''s'' ''g:a'', ex_bk ''s'' ''h:c'', ex_bk ''s'' ''g:b'', ex_bk ''u'' ''ctrl:m'', ex_bk ''u'' ''ctrl:m'']"
  obtain acts t' where r: "run (\<lambda>t bk. dynamic_group_action ''f'' bk t) ?t ?bks = (acts, t')" by fastforce
  have inv: "dg_inv ?t" by (simp add: dg_inv_def)
  have "fst (run (spec_dynamic_group {''ctrl:m''}) ({}, {}) ?bks) = [(''u'', {''g:a'', ''h:c'', ''g:b''}), (''u'', {})]"
    by (simp add: spec_dynamic_group_def ex_bk_def group_of_def group_delimiter_def control_group_prefix_def Let_def insert_commute)
  with dynamic_group_stream [OF inv r] obtain blocks where "acts = concat blocks"
      "list_all2 (fires ''f'') blocks [(''u'', {''g:a'', ''h:c'', ''g:b''}), (''u'', {})]"
    by (auto simp: dg_abs_def dg_pending_def)
  then obtain first second where "acts = first @ second" "fires ''f'' first (''u'', {''g:a'', ''h:c'', ''g:b''})" "fires ''f'' second (''u'', {})"
    by (auto simp: list_all2_Cons2)
  with r show ?thesis unfolding Let_def by blast
qed

end
