(* ===== verification/Ph_Coord_Keys.thy ===== *)
theory Ph_Coord_Keys
  imports Ph_Coord_Notify Ph_Trigger_Laws
begin

text \<open>
  Two ingredients of the coordinator's invariant: which keys a trigger holds back and fires, and
  which node \<^verbatim>\<open>notify_handler\<close> picks for a call.
\<close>

section \<open>The keys that a trigger holds\<close>

text \<open>Every key that a trigger holds is in a given set.\<close>

fun keys_known :: "Key set \<Rightarrow> trigger_body \<Rightarrow> bool" where
  "keys_known K (Immediate t) \<longleftrightarrow> True"
| "keys_known K (ByName t) \<longleftrightarrow> True"
| "keys_known K (ByBatchSize t) \<longleftrightarrow> snd ` set (bb_buffer t) \<subseteq> K"
| "keys_known K (BySet t) \<longleftrightarrow> by_set_inv (bs_key_set t) t \<and> (\<forall>s. by_set_seen t s \<subseteq> K)"
| "keys_known K (DynamicGroup t) \<longleftrightarrow> set (dg_pending t) \<subseteq> K \<and> umap_ok (dg_data_groups t)"
| "keys_known K (Redundant t) \<longleftrightarrow> snd ` set (rd_buffer t) \<subseteq> K"
| "keys_known K (ByTime t) \<longleftrightarrow> snd ` set (bt_buffer t) \<subseteq> K"

lemma keys_known_mono: "keys_known K body \<Longrightarrow> K \<subseteq> L \<Longrightarrow> keys_known L body"
  by (cases body) auto

definition action_keys :: "TriggerAction \<Rightarrow> Key set" where
  "action_keys a = snd ` set (act_session_keys a)"

lemma by_set_known:
  assumes "keys_known K (BySet t)" and "bk_key bk \<in> K" and "by_set_action target bk t = (acts, t')"
  shows "keys_known K (BySet t') \<and> (\<forall>a \<in> set acts. action_keys a \<subseteq> K)"
proof -
  have inv: "by_set_inv (bs_key_set t) t" and seen: "\<And>s. by_set_seen t s \<subseteq> K"
    using assms(1) by auto
  have sim: "spec_by_set target (bs_key_set t) (by_set_seen t) bk = (acts, by_set_seen t')"
    by (rule by_set_action_simulates [OF inv assms(3)])
  have inv': "by_set_inv (bs_key_set t) t'" by (rule by_set_action_inv [OF inv assms(3)])
  then have keys: "bs_key_set t' = bs_key_set t" by (simp add: by_set_inv_def)
  let ?here = "insert (bk_key bk) (by_set_seen t (bk_session bk))"
  have here: "?here \<subseteq> K" using seen assms(2) by simp
  have "by_set_seen t' \<in> {by_set_seen t, (by_set_seen t)(bk_session bk := {}),
      (by_set_seen t)(bk_session bk := ?here)}"
    using sim by (auto simp: spec_by_set_def Let_def split: if_splits)
  then have "by_set_seen t' s \<subseteq> K" for s
    using seen [of s] here by (auto simp: fun_upd_def split: if_splits)
  moreover have "acts = [] \<or> ?here = set (bs_key_set t) \<and> acts =
      [\<lparr>act_function = target, act_session_keys = map (Pair (bk_session bk)) (bs_key_set t)\<rparr>]"
    using sim unfolding spec_by_set_def Let_def by (simp split: if_splits)
  then have "action_keys a \<subseteq> K" if "a \<in> set acts" for a
    using that here by (elim disjE conjE) (simp_all add: action_keys_def image_image)
  ultimately show ?thesis using inv' keys by simp
qed

lemma dynamic_group_known:
  assumes "keys_known K (DynamicGroup t)" and "bk_key bk \<in> K"
    and "dynamic_group_action target bk t = (acts, t')"
  shows "keys_known K (DynamicGroup t') \<and> (\<forall>a \<in> set acts. action_keys a \<subseteq> K)"
proof (cases "group_of (bk_key bk) = control_group_prefix")
  case True
  have "acts = [] \<or> acts = group_actions target (bk_session bk) (dg_data_groups t)"
    and "dg_data_groups t' = [] \<or> dg_data_groups t' = dg_data_groups t"
    using assms(3) True by (auto simp: dynamic_group_action_eq Let_def split: if_splits)
  moreover have "action_keys a \<subseteq> set (dg_pending t)"
    if a: "a \<in> set (group_actions target (bk_session bk) (dg_data_groups t))" for a
  proof -
    from a obtain gk where "gk \<in> set (dg_data_groups t)" "action_keys a = set (snd gk)"
      by (auto simp: group_actions_def action_keys_def image_image)
    then show ?thesis by (auto simp: dg_pending_def)
  qed
  moreover from calculation(2) have "set (dg_pending t') \<subseteq> set (dg_pending t) \<and> umap_ok (dg_data_groups t')"
    using assms(1) by (auto simp: dg_pending_def)
  ultimately show ?thesis using assms(1) by (auto simp del: set_concat)
next
  case False
  have t: "acts = []" "umap_ok (dg_data_groups t)" "dg_data_groups t' = AList.update (group_of (bk_key bk))
      (uset_insert (bk_key bk) (umap_at [] (dg_data_groups t) (group_of (bk_key bk)))) (dg_data_groups t)"
    using assms(1,3) False by (auto simp: dynamic_group_action_eq Let_def)
  have "set (dg_pending t') = insert (bk_key bk) (set (dg_pending t))"
    unfolding dg_pending_def t(3) by (rule dg_pending_update [OF t(2)])
  with assms(1,2) t show ?thesis by simp
qed

lemma action_for_new_object_known:
  assumes "keys_known K (trigger_body tr)" and "bk_key bk \<in> K"
    and "action_for_new_object now bk tr = (acts, tr')"
  shows "keys_known K (trigger_body tr') \<and> (\<forall>a \<in> set acts. action_keys a \<subseteq> K)"
proof (cases "trigger_body tr")
  case (BySet t)
  obtain t' where act: "by_set_action (target_function tr) bk t = (acts, t')"
    and body: "trigger_body tr' = BySet t'"
    using assms(3) BySet
    by (auto simp: action_for_new_object_def body_action_def map_prod_def split: prod.splits)
  show ?thesis unfolding body by (rule by_set_known [OF assms(1) [unfolded BySet] assms(2) act])
next
  case (DynamicGroup t)
  obtain t' where act: "dynamic_group_action (target_function tr) bk t = (acts, t')"
    and body: "trigger_body tr' = DynamicGroup t'"
    using assms(3) DynamicGroup
    by (auto simp: action_for_new_object_def body_action_def map_prod_def split: prod.splits)
  show ?thesis unfolding body
    by (rule dynamic_group_known [OF assms(1) [unfolded DynamicGroup] assms(2) act])
qed (use assms in \<open>auto simp: action_for_new_object_def body_action_def immediate_action_def
      by_name_action_def by_batch_size_action_def redundant_action_def by_time_action_def
      session_key_of_def action_keys_def Let_def image_subset_iff split: if_splits\<close>)

lemma fresh_known: "keys_known K (trigger_body (new_Immediate f n))" "keys_known K (trigger_body (new_ByName f n k))"
  "keys_known K (trigger_body (new_ByBatchSize f n c))"
  "distinct ks \<Longrightarrow> keys_known K (trigger_body (new_BySet f n ks))"
  "keys_known K (trigger_body (new_DynamicGroup f n ks))"
  "keys_known K (trigger_body (new_Redundant f n j m))" "keys_known K (trigger_body (new_ByTime now f n w))"
  by (auto simp: new_Immediate_def new_ByName_def new_ByBatchSize_def new_BySet_def new_DynamicGroup_def
      new_Redundant_def new_ByTime_def new_trigger_def dg_pending_def by_set_inv_def by_set_seen_def)

lemma gen_trigger_pointer_known:
  "gen_trigger_pointer pb now type name serialized = Some tr \<Longrightarrow> keys_known K (trigger_body tr)"
  by (cases type) (auto simp: gen_trigger_pointer_def fresh_known split: prod.splits)

section \<open>Choosing a node\<close>

definition avail :: "node_map \<Rightarrow> Address \<Rightarrow> int" where
  "avail nodes ip = ns_avail_executors (umap_at new_NodeStatus nodes ip)"

lemma avail_touch [simp]: "avail (umap_touch new_NodeStatus ip nodes) = avail nodes"
  by (simp add: avail_def fun_eq_iff)

lemma avail_mem: "umap_ok nodes \<Longrightarrow> (ip, ns) \<in> set nodes \<Longrightarrow> avail nodes ip = ns_avail_executors ns"
  by (simp add: avail_def umap_at_def)

lemma avail_pos_mem:
  assumes "0 < avail nodes ip"
  shows "\<exists>ns. (ip, ns) \<in> set nodes \<and> ns_avail_executors ns = avail nodes ip"
proof -
  have "umap_at new_NodeStatus nodes ip \<noteq> new_NodeStatus"
    using assms by (auto simp: avail_def new_NodeStatus_def)
  from umap_at_mem [OF this] show ?thesis by (auto simp: avail_def)
qed

lemma pick_data_step:
  "pick_data_node ip (m, w, nodes) =
     (if m < avail nodes ip then (avail nodes ip, ip, umap_touch new_NodeStatus ip nodes)
      else (m, w, umap_touch new_NodeStatus ip nodes))"
  by (simp add: pick_data_node_def avail_def Let_def)

lemma pick_any_step:
  "pick_any_node p (m, w) =
     (if m < ns_avail_executors (snd p) then (ns_avail_executors (snd p), fst p) else (m, w))"
  by (simp add: pick_any_node_def)

lemma pick_data_fold:
  assumes "fold pick_data_node data (m0, w0, nodes) = (m, w, nodes')"
  shows "avail nodes' = avail nodes \<and> (umap_ok nodes \<longrightarrow> umap_ok nodes') \<and>
    fst ` set nodes' = fst ` set nodes \<union> set data \<and> m0 \<le> m \<and>
    (\<forall>ip \<in> set data. avail nodes ip \<le> m) \<and>
    ((m, w) = (m0, w0) \<or> w \<in> set data \<and> avail nodes w = m \<and> m0 < m)"
  using assms
proof (induction data arbitrary: m0 w0 nodes)
  case (Cons ip data)
  let ?nodes = "umap_touch new_NodeStatus ip nodes"
  show ?case
  proof (cases "m0 < avail nodes ip")
    case True
    then have "fold pick_data_node data (avail nodes ip, ip, ?nodes) = (m, w, nodes')"
      using Cons.prems by (simp add: pick_data_step)
    from Cons.IH [OF this] True show ?thesis by auto
  next
    case False
    then have "fold pick_data_node data (m0, w0, ?nodes) = (m, w, nodes')"
      using Cons.prems by (simp add: pick_data_step)
    from Cons.IH [OF this] False show ?thesis by auto
  qed
qed simp

lemma pick_any_fold:
  assumes "fold pick_any_node nodes (m0, w0) = (m, w)"
  shows "m0 \<le> m \<and> (\<forall>p \<in> set nodes. ns_avail_executors (snd p) \<le> m) \<and>
    ((m, w) = (m0, w0) \<or> (\<exists>ns. (w, ns) \<in> set nodes \<and> ns_avail_executors ns = m \<and> m0 < m))"
  using assms
proof (induction nodes arbitrary: m0 w0)
  case (Cons p nodes)
  show ?case
  proof (cases "m0 < ns_avail_executors (snd p)")
    case True
    then have "fold pick_any_node nodes (ns_avail_executors (snd p), fst p) = (m, w)"
      using Cons.prems by (simp add: pick_any_step)
    from Cons.IH [OF this] True show ?thesis by (cases p) auto
  next
    case False
    then have "fold pick_any_node nodes (m0, w0) = (m, w)"
      using Cons.prems by (simp add: pick_any_step)
    from Cons.IH [OF this] False show ?thesis by auto
  qed
qed simp

lemma pick_worker_ok:
  assumes "pick_worker data nodes = (w, nodes')"
  shows "avail nodes' = avail nodes \<and> (umap_ok nodes \<longrightarrow> umap_ok nodes') \<and>
    fst ` set nodes' = fst ` set nodes \<union> set data"
proof -
  obtain m w1 where "fold pick_data_node data (0, [], nodes) = (m, w1, nodes')"
    using assms by (auto simp: pick_worker_def split: prod.splits)
  from pick_data_fold [OF this] show ?thesis by blast
qed

text \<open>
  The chosen node has free executors, one exists if any node has free executors, and nodes with the
  data are preferred.
\<close>

lemma pick_worker_spec:
  assumes "pick_worker data nodes = (w, nodes')" and "umap_ok nodes"
    and "[] \<notin> set data" and "[] \<notin> fst ` set nodes"
  shows "(w = [] \<longleftrightarrow> (\<forall>ip. avail nodes ip \<le> 0)) \<and> (w \<noteq> [] \<longrightarrow> 0 < avail nodes w) \<and>
    ((\<exists>ip \<in> set data. 0 < avail nodes ip) \<longrightarrow>
       w \<in> set data \<and> (\<forall>ip \<in> set data. avail nodes ip \<le> avail nodes w))"
proof -
  obtain m w1 where f: "fold pick_data_node data (0, [], nodes) = (m, w1, nodes')"
    and w: "w = (if w1 = [] then snd (fold pick_any_node nodes' (m, [])) else w1)"
    using assms(1) by (auto simp: pick_worker_def split: prod.splits)
  note d = pick_data_fold [OF f]
  have ok: "umap_ok nodes'" and av: "avail nodes' = avail nodes"
    and keys: "fst ` set nodes' = fst ` set nodes \<union> set data"
    using d assms(2) by blast+
  show ?thesis
  proof (cases "w1 = []")
    case False
    with d w assms(3) show ?thesis by (auto simp: not_le)
  next
    case True
    with d assms(3) have m: "m = 0" by auto
    obtain m2 w2 where a: "fold pick_any_node nodes' (0, []) = (m2, w2)" by fastforce
    have w2: "w = w2" using w True m a by simp
    note any = pick_any_fold [OF a]
    have none: "\<not> (\<exists>ip \<in> set data. 0 < avail nodes ip)" using d m by (auto simp: not_less)
    have le: "avail nodes ip \<le> m2" for ip
    proof (cases "0 < avail nodes ip")
      case True
      then obtain ns where "(ip, ns) \<in> set nodes'" "ns_avail_executors ns = avail nodes ip"
        using avail_pos_mem [of nodes' ip] av by auto
      with any show ?thesis by force
    qed (use any in simp)
    show ?thesis
    proof (cases "(m2, w2) = (0, [])")
      case True
      with le w2 none show ?thesis by auto
    next
      case False
      then obtain ns where n: "(w2, ns) \<in> set nodes'" "ns_avail_executors ns = m2" "0 < m2"
        using any by auto
      have "avail nodes w = m2" using avail_mem [OF ok n(1)] n(2) av w2 by simp
      moreover have "w \<in> fst ` set nodes'" using n(1) w2 by (metis fst_conv image_eqI)
      then have "w \<noteq> []" using keys assms(3,4) by auto
      ultimately have "w \<noteq> []" "0 < avail nodes w" using n(3) by auto
      with none show ?thesis by (meson not_le)
    qed
  qed
qed

end
