(* ===== verification/Ph_Coord_Ops.thy ===== *)
theory Ph_Coord_Ops
  imports Ph_Coord_State
begin

text \<open>
  The handlers of the coordinator for buckets, triggers, applications, key queries and node states:
  \<^verbatim>\<open>bucket_op_handler.cpp\<close>, \<^verbatim>\<open>trigger_op_handler.cpp\<close>, \<^verbatim>\<open>app_register_handler.cpp\<close>,
  \<^verbatim>\<open>query_handler.cpp\<close> and the status branch of \<^verbatim>\<open>run\<close> in \<^verbatim>\<open>coordinator.cpp\<close>, all in
  \<^verbatim>\<open>src/coordinator/\<close>. A handler returns the messages it sends, in order, and the new state.
\<close>

section \<open>Buckets\<close>

definition create_bucket :: "string \<Rightarrow> Bucket \<Rightarrow> CoordState \<Rightarrow> CoordState" where
  "create_bucket app_name bucket_name s =
     s\<lparr>co_app_buckets := (co_app_buckets s)(app_name \<mapsto>
          uset_insert bucket_name (map_at [] (co_app_buckets s) app_name)),
        co_bucket_app := (co_bucket_app s)(bucket_name \<mapsto> app_name)\<rparr>"

definition delete_bucket :: "string \<Rightarrow> Bucket \<Rightarrow> CoordState \<Rightarrow> CoordState" where
  "delete_bucket app_name bucket_name s =
     s\<lparr>co_app_buckets := (co_app_buckets s)(app_name \<mapsto>
          uset_erase bucket_name (map_at [] (co_app_buckets s) app_name)),
        co_bucket_app := map_erase (co_bucket_app s) bucket_name,
        co_triggers := map_erase (co_triggers s) bucket_name\<rparr>"

definition bucket_op_handler :: "BucketOperationRequest \<Rightarrow> CoordState \<Rightarrow> send list \<times> CoordState" where
  "bucket_op_handler request s =
     (let bucket_name = bor_bucket_name request;
          exists = co_bucket_app s bucket_name \<noteq> None;
          response = empty_bucket_response\<lparr>bop_response_id := bor_request_id request,
                       bop_bucket_name := bucket_name\<rparr>;
          reply = (\<lambda>resp s'. ([Send (bor_response_address request) (Bucket_Response_Msg resp)], s'))
      in case bor_operation_type request of
           CREATE_BUCKET \<Rightarrow>
             if exists then reply (response\<lparr>bop_error := BUCKET_EXIST\<rparr>) s
             else reply (response\<lparr>bop_error := SUCCESS\<rparr>)
                    (create_bucket (bor_app_name request) bucket_name s)
         | DELETE_BUCKET \<Rightarrow>
             if \<not> exists then reply (response\<lparr>bop_error := BUCKET_NE\<rparr>) s
             else reply (response\<lparr>bop_error := SUCCESS\<rparr>)
                    (delete_bucket (bor_app_name request) bucket_name s)
         | UNKNOWN_BUCKET_OP _ \<Rightarrow> reply response s)"


section \<open>Triggers\<close>

definition push_trigger :: "Bucket \<Rightarrow> Trigger \<Rightarrow> CoordState \<Rightarrow> CoordState" where
  "push_trigger bucket_name tr s =
     s\<lparr>co_triggers := (co_triggers s)(bucket_name \<mapsto> map_at [] (co_triggers s) bucket_name @ [tr])\<rparr>"

text \<open>A message to every node that has reported its state.\<close>

definition broadcast :: "CoordState \<Rightarrow> UpdateCoordMsg \<Rightarrow> send list" where
  "broadcast s msg =
     map (\<lambda>ip_status. Send (trigger_update_address (fst ip_status)) (Update_Msg msg)) (co_node_status s)"

definition add_trigger ::
  "coord_env \<Rightarrow> TriggerOperationRequest \<Rightarrow> CoordState \<Rightarrow> (TriggerEntity list \<times> CoordState) res" where
  "add_trigger env request s =
     (case gen_trigger_pointer (ce_codec env) (ce_now env) (tor_primitive_type request)
             (tor_trigger_name request) (tor_primitive request) of
        None \<Rightarrow> Fault Null_Pointer
      | Some trigger \<Rightarrow>
          (let trigger_ptr = set_trigger_option (sint (tor_trigger_option request)) trigger
           in Ok (if trigger_type trigger_ptr \<noteq> BY_TIME
                  then [empty_entity\<lparr>te_bucket_name := tor_bucket_name request,
                          te_trigger_name := tor_trigger_name request,
                          te_trigger_option := tor_trigger_option request,
                          te_primitive_type := tor_primitive_type request,
                          te_primitive := dump_pritimive (ce_codec env) trigger_ptr,
                          te_hints := tor_hints request\<rparr>]
                  else [],
                  push_trigger (tor_bucket_name request) trigger_ptr s)))"

definition delete_trigger :: "TriggerOperationRequest \<Rightarrow> CoordState \<Rightarrow> bool \<times> CoordState" where
  "delete_trigger request s =
     (let bucket_name = tor_bucket_name request;
          triggers = map_at [] (co_triggers s) bucket_name;
          kept = filter (\<lambda>t. trigger_name t \<noteq> tor_trigger_name request) triggers
      in (length kept < length triggers, s\<lparr>co_triggers := (co_triggers s)(bucket_name \<mapsto> kept)\<rparr>))"

definition trigger_op_handler ::
  "coord_env \<Rightarrow> TriggerOperationRequest \<Rightarrow> CoordState \<Rightarrow> (send list \<times> CoordState) res" where
  "trigger_op_handler env request s =
     (let exists = co_bucket_app s (tor_bucket_name request) \<noteq> None;
          response = empty_trigger_response\<lparr>top_response_id := tor_request_id request,
                       top_bucket_name := tor_bucket_name request,
                       top_trigger_name := tor_trigger_name request\<rparr>;
          trigger_msg = empty_update\<lparr>uc_ip := ce_private_ip env, uc_thread_id := ce_thread_id env,
                          uc_app_name := tor_app_name request\<rparr>;
          finish = (\<lambda>resp msg s'.
            Ok (Send (tor_response_address request) (Trigger_Response_Msg resp) # broadcast s' msg, s'))
      in case tor_operation_type request of
           ADD_TRIGGER \<Rightarrow>
             if exists
             then res_bind (add_trigger env request s) (\<lambda>(entities, s').
                    finish (response\<lparr>top_error := SUCCESS\<rparr>)
                      (trigger_msg\<lparr>uc_msg_type := 0, uc_triggers := entities\<rparr>) s')
             else finish (response\<lparr>top_error := BUCKET_NE\<rparr>) trigger_msg s
         | DELETE_TRIGGER \<Rightarrow>
             if exists
             then (case delete_trigger request s of
                     (find_trigger, s') \<Rightarrow>
                       if find_trigger
                       then finish (response\<lparr>top_error := SUCCESS\<rparr>)
                              (trigger_msg\<lparr>uc_msg_type := 2,
                                 uc_triggers := [empty_entity\<lparr>
                                   te_bucket_name := tor_bucket_name request,
                                   te_trigger_name := tor_trigger_name request\<rparr>]\<rparr>) s'
                       else finish response trigger_msg s')
             else finish (response\<lparr>top_error := BUCKET_NE\<rparr>) trigger_msg s
         | UNKNOWN_TRIGGER_OP _ \<Rightarrow> finish response trigger_msg s)"


section \<open>Applications\<close>

text \<open>\<^verbatim>\<open>"t_" + std::to_string(type) + "_" + tgt_function\<close>\<close>

definition dependency_trigger_name :: "nat \<Rightarrow> string \<Rightarrow> string" where
  "dependency_trigger_name type tgt_function = ''t_'' @ to_string type @ ''_'' @ tgt_function"

definition describe_trigger :: "prim_codec \<Rightarrow> Trigger \<Rightarrow> PrimitiveType \<Rightarrow> TriggerEntity \<Rightarrow> TriggerEntity" where
  "describe_trigger pb trigger_ptr type entity =
     entity\<lparr>te_trigger_name := trigger_name trigger_ptr,
             te_trigger_option := word_of_int (trigger_option trigger_ptr),
             te_primitive_type := type,
             te_primitive := dump_pritimive pb trigger_ptr\<rparr>"

text \<open>
  A dependency that is not direct: a bucket for the target function, and a trigger by its type. The
  entity is added to the message before the type is looked at.
\<close>

definition register_dependency ::
  "coord_env \<Rightarrow> string \<Rightarrow> DataDependency \<Rightarrow> CoordState \<Rightarrow> (TriggerEntity \<times> CoordState) res" where
  "register_dependency env app_name dependency s =
     res_bind (nth_res (dd_tgt_functions dependency) 0) (\<lambda>tgt_function.
     let bucket_name = ''b_'' @ tgt_function;
         s1 = create_bucket app_name bucket_name s;
         entity = empty_entity\<lparr>te_bucket_name := bucket_name\<rparr>
     in case dd_type dependency of
          MANY_TO_ONE \<Rightarrow>
            (let key_names = uset_of (map (\<lambda>func. ''k_'' @ func) (dd_src_functions dependency));
                 trigger_ptr = new_BySet tgt_function (dependency_trigger_name 1 tgt_function) key_names
             in Ok (describe_trigger (ce_codec env) trigger_ptr BY_SET entity,
                    push_trigger bucket_name trigger_ptr s1))
        | K_OUT_OF_N \<Rightarrow>
            (let metadata = split (dd_description dependency) CHR '',''
             in res_bind (nth_res metadata 0) (\<lambda>m0. res_bind (stoi m0) (\<lambda>k.
                res_bind (nth_res metadata 1) (\<lambda>m1. res_bind (stoi m1) (\<lambda>n.
                let trigger_ptr = new_Redundant tgt_function (dependency_trigger_name 2 tgt_function)
                                    (word_of_int k) (word_of_int n)
                in Ok (describe_trigger (ce_codec env) trigger_ptr REDUNDANT entity,
                       push_trigger bucket_name trigger_ptr s1))))))
        | PERIODIC \<Rightarrow>
            res_bind (stoi (dd_description dependency)) (\<lambda>time_window.
            let trigger_ptr = new_ByTime (ce_now env) tgt_function
                                (dependency_trigger_name 3 tgt_function) (word_of_int time_window)
            in Ok (entity, push_trigger bucket_name trigger_ptr (create_bucket app_name bucket_name s1)))
        | _ \<Rightarrow> Ok (entity, s1))"

definition app_dependency ::
  "coord_env \<Rightarrow> string \<Rightarrow> DataDependency \<Rightarrow> UpdateCoordMsg \<times> CoordState \<Rightarrow>
   (UpdateCoordMsg \<times> CoordState) res" where
  "app_dependency env app_name dependency acc =
     (case acc of
        (coord_msg, s) \<Rightarrow>
          if dd_type dependency = DIRECT
          then Ok (coord_msg\<lparr>uc_dependencies := uc_dependencies coord_msg @ [dependency]\<rparr>, s)
          else res_bind (register_dependency env app_name dependency s) (\<lambda>(entity, s').
                 Ok (coord_msg\<lparr>uc_triggers := uc_triggers coord_msg @ [entity]\<rparr>, s')))"

definition app_register_handler ::
  "coord_env \<Rightarrow> AppRegistration \<Rightarrow> CoordState \<Rightarrow> (send list \<times> CoordState) res" where
  "app_register_handler env appRegist s =
     (let coord_msg = empty_update\<lparr>uc_ip := ce_private_ip env, uc_thread_id := ce_thread_id env,
                        uc_app_name := apr_app_name appRegist, uc_msg_type := 0,
                        uc_functions := apr_functions appRegist\<rparr>
      in res_bind (res_fold (app_dependency env (apr_app_name appRegist))
                     (apr_dependencies appRegist) (coord_msg, s))
           (\<lambda>(msg, s'). Ok (broadcast s' msg, s')))"


section \<open>Queries and node states\<close>

fun query_results ::
  "address_map \<Rightarrow> BucketKeyAddress list \<Rightarrow> (BucketKey \<times> GetAddressResult) list \<times> KVSError" where
  "query_results m [] = ([], SUCCESS)"
| "query_results m (address # rest) =
     (let bucket_key = get_bucket_key_from_addr address
      in if m (bk_bucket bucket_key) \<noteq> None
         then (let get_result = get_address bucket_key m
               in if ga_error get_result = SUCCESS
                  then (case query_results m rest of
                          (results, err) \<Rightarrow> ((bucket_key, get_result) # results, err))
                  else ([(bucket_key, get_result)], ga_error get_result))
         else ([(bucket_key, \<lparr>ga_error = BUCKET_NE, ga_addr = []\<rparr>)], BUCKET_NE))"

definition query_handler :: "KeyQueryRequest \<Rightarrow> CoordState \<Rightarrow> send list \<times> CoordState" where
  "query_handler query_request s =
     (case query_results (co_address_map s) (kq_addresses query_request) of
        (results, reported_error) \<Rightarrow>
          ([Send (kq_response_address query_request)
              (Query_Response_Msg
                \<lparr>kqr_addresses =
                   map (\<lambda>pair.
                     let addr = get_addr_from_bucket_key (fst pair) empty_addr
                     in if reported_error = SUCCESS
                        then addr\<lparr>bka_ips := bka_ips addr @ ga_addr (snd pair)\<rparr> else addr) results,
                 kqr_error = reported_error,
                 kqr_response_id = kq_request_id query_request\<rparr>)], s))"

definition update_handler :: "coord_env \<Rightarrow> UpdateStatusMessage \<Rightarrow> CoordState \<Rightarrow> CoordState" where
  "update_handler env msg s =
     (let ip = us_ip msg;
          avail_executors = sint (us_avail_executors msg);
          functions = uset_of (us_functions msg);
          node_status =
            (case map_of (co_node_status s) ip of
               Some ns \<Rightarrow> update_status (ce_now env) avail_executors functions ns
             | None \<Rightarrow> \<lparr>ns_tp = ce_now env, ns_avail_executors = avail_executors,
                        ns_functions = functions\<rparr>)
      in s\<lparr>co_node_status := AList.update ip node_status (co_node_status s)\<rparr>)"

end
