(* ===== verification/Ph_Coord_Calls.thy ===== *)
theory Ph_Coord_Calls
  imports Ph_Coord_State
begin

text \<open>
  \<^verbatim>\<open>src/coordinator/func_call_handler.cpp\<close>: the coordinator routes the requests of a call to
  nodes. Several requests go together to the node with the most free executors if it has enough;
  otherwise they are dealt out round robin over all nodes with free executors. A single request goes
  to the node with the most free executors, or to a random one. The loop that looks for the next node
  with a free executor would not end if there were none: \<open>None\<close> is a handler that never returns.
  The total number of free executors is a signed 32-bit sum, with the wrap-around of two's complement.
\<close>

section \<open>The handler\<close>

definition wrap_int :: "int \<Rightarrow> int" where
  "wrap_int i = sint (word_of_int i :: uint32)"

text \<open>The scan of the nodes: total, available nodes, maximum, and the node that has it.\<close>

definition scan_node ::
  "string \<Rightarrow> Address \<times> NodeStatus \<Rightarrow> int \<times> (Address \<times> int) list \<times> int \<times> Address \<Rightarrow>
   int \<times> (Address \<times> int) list \<times> int \<times> Address" where
  "scan_node source pair acc =
     (case acc of
        (total_executors, avail_nodes, max_executors, node_with_max) \<Rightarrow>
          (let ip = fst pair; avail = ns_avail_executors (snd pair)
           in if source \<noteq> [] \<and> source = ip then acc
              else (if 0 < avail then wrap_int (total_executors + avail) else total_executors,
                    if 0 < avail then avail_nodes @ [(ip, avail)] else avail_nodes,
                    if max_executors < avail then avail else max_executors,
                    if max_executors < avail then ip else node_with_max)))"

definition scan_nodes :: "string \<Rightarrow> node_map \<Rightarrow> int \<times> (Address \<times> int) list \<times> int \<times> Address" where
  "scan_nodes source nodes = fold (scan_node source) nodes (0, [], 0, [])"

partial_function (option) next_avail :: "(Address \<times> int) list \<Rightarrow> nat \<Rightarrow> nat res option" where
  "next_avail avail_nodes node_idx =
     (if length avail_nodes \<le> node_idx then Some (Fault Out_Of_Range)
      else if snd (avail_nodes ! node_idx) \<le> 0
      then next_avail avail_nodes ((node_idx + 1) mod length avail_nodes)
      else Some (Ok node_idx))"

fun node_loads_from ::
  "nat \<Rightarrow> nat \<Rightarrow> (Address \<times> int) list \<Rightarrow> nat list \<Rightarrow> nat list res option" where
  "node_loads_from 0 node_idx avail_nodes node_loads = Some (Ok node_loads)"
| "node_loads_from (Suc n) node_idx avail_nodes node_loads =
     (case next_avail avail_nodes node_idx of
        None \<Rightarrow> None
      | Some (Fault e) \<Rightarrow> Some (Fault e)
      | Some (Ok i) \<Rightarrow>
          node_loads_from n ((i + 1) mod length avail_nodes)
            (avail_nodes[i := (fst (avail_nodes ! i), snd (avail_nodes ! i) - 1)])
            (node_loads[i := node_loads ! i + 1]))"

fun split_requests ::
  "FunctionCall \<Rightarrow> FunctionRequest list \<Rightarrow> nat list \<Rightarrow> (Address \<times> int) list \<Rightarrow> nat \<Rightarrow>
   FunctionRequest list \<Rightarrow> (Address \<times> FunctionCall) list \<Rightarrow> (Address \<times> FunctionCall) list res" where
  "split_requests routed_call [] node_loads avail_nodes index current scheduled = Ok scheduled"
| "split_requests routed_call (req # reqs) node_loads avail_nodes index current scheduled =
     (let current' = current @ [req]
      in res_bind (nth_res node_loads index) (\<lambda>load.
         if length current' = load
         then res_bind (nth_res avail_nodes index) (\<lambda>node.
                split_requests routed_call reqs node_loads avail_nodes (index + 1) []
                  (AList.update (fst node) (routed_call\<lparr>fc_requests := current'\<rparr>) scheduled))
         else split_requests routed_call reqs node_loads avail_nodes index current' scheduled))"

definition schedule_batch ::
  "FunctionCall \<Rightarrow> node_map \<Rightarrow> (Address \<times> FunctionCall) list res option" where
  "schedule_batch call nodes =
     (case scan_nodes (fc_source call) nodes of
        (total_executors, avail_nodes, max_executors, node_with_max) \<Rightarrow>
          (let req_num = length (fc_requests call)
           in if int req_num \<le> max_executors then Some (Ok [(node_with_max, call)])
              else if int req_num \<le> total_executors
              then (case node_loads_from req_num 0 avail_nodes (replicate (length avail_nodes) 0) of
                      None \<Rightarrow> None
                    | Some (Fault e) \<Rightarrow> Some (Fault e)
                    | Some (Ok node_loads) \<Rightarrow>
                        Some (split_requests
                          (empty_call\<lparr>fc_app_name := fc_app_name call,
                                      fc_resp_address := fc_resp_address call,
                                      fc_sync_data_status := True\<rparr>)
                          (fc_requests call) node_loads avail_nodes 0 [] []))
              else Some (Ok [])))"

definition schedule_single ::
  "coord_env \<Rightarrow> FunctionCall \<Rightarrow> node_map \<Rightarrow> uint32 \<Rightarrow> (Address \<times> FunctionCall) list \<times> uint32" where
  "schedule_single env call nodes seed =
     (case scan_nodes (fc_source call) nodes of
        (_, _, max_executors, node_with_max) \<Rightarrow>
          if 0 < max_executors then ([(node_with_max, call)], seed)
          else if nodes = [] then ([], seed)
          else (case ce_rand env seed of
                  (r, seed') \<Rightarrow> ([(fst (nodes ! (r mod length nodes)), call)], seed')))"

definition schedule_call ::
  "coord_env \<Rightarrow> FunctionCall \<Rightarrow> node_map \<Rightarrow> uint32 \<Rightarrow>
   ((Address \<times> FunctionCall) list \<times> uint32) res option" where
  "schedule_call env call nodes seed =
     (if 1 < length (fc_requests call)
      then map_option (\<lambda>r. res_bind r (\<lambda>scheduled. Ok (scheduled, seed))) (schedule_batch call nodes)
      else Some (Ok (schedule_single env call nodes seed)))"

fun send_calls ::
  "coord_env \<Rightarrow> (Address \<times> FunctionCall) list \<Rightarrow> uint32 \<Rightarrow> (send list \<times> uint32) res" where
  "send_calls env [] seed = Ok ([], seed)"
| "send_calls env (node_msg # rest) seed =
     res_bind (random_exec_address env (fst node_msg) seed) (\<lambda>(address, seed').
     res_bind (send_calls env rest seed') (\<lambda>(sends, seed'').
     Ok (Send address (Call_Msg (snd node_msg)) # sends, seed'')))"

definition give_session :: "coord_env \<Rightarrow> FunctionCall \<Rightarrow> uint32 \<Rightarrow> FunctionCall \<times> uint32" where
  "give_session env call seed =
     (if fc_session_id call = []
      then (case gen_random (ce_rand env) seed 16 of
              (session_id, seed') \<Rightarrow> (call\<lparr>fc_session_id := session_id\<rparr>, seed'))
      else (call, seed))"

definition no_worker_response :: "FunctionCall \<Rightarrow> send list" where
  "no_worker_response call =
     (if fc_resp_address call = [] then []
      else [Send (fc_resp_address call)
              (Call_Response_Msg (empty_call_response\<lparr>fcr_app_name := fc_app_name call,
                 fcr_request_id := fc_request_id call, fcr_error_no := 1\<rparr>))])"

definition func_call_handler ::
  "coord_env \<Rightarrow> FunctionCall \<Rightarrow> CoordState \<Rightarrow> (send list \<times> CoordState) res option" where
  "func_call_handler env call_msg s =
     (case give_session env call_msg (co_seed s) of
        (call, seed) \<Rightarrow>
          (case schedule_call env call (co_node_status s) seed of
             None \<Rightarrow> None
           | Some (Fault e) \<Rightarrow> Some (Fault e)
           | Some (Ok (scheduled, seed')) \<Rightarrow>
               if scheduled = [] then Some (Ok (no_worker_response call, s\<lparr>co_seed := seed'\<rparr>))
               else Some (res_bind (send_calls env scheduled seed') (\<lambda>(sends, seed'').
                      Ok (sends, s\<lparr>co_seed := seed''\<rparr>)))))"


section \<open>The scan\<close>

definition eligible :: "string \<Rightarrow> Address \<Rightarrow> bool" where
  "eligible source ip \<longleftrightarrow> \<not> (source \<noteq> [] \<and> source = ip)"

definition free_nodes :: "string \<Rightarrow> node_map \<Rightarrow> (Address \<times> int) list" where
  "free_nodes source nodes =
     map (\<lambda>p. (fst p, ns_avail_executors (snd p)))
       (filter (\<lambda>p. eligible source (fst p) \<and> 0 < ns_avail_executors (snd p)) nodes)"

lemma wrap_int_add: "wrap_int (wrap_int i + j) = wrap_int (i + j)"
  by (simp add: wrap_int_def)

lemma wrap_int_eq: "wrap_int i = signed_take_bit 31 i"
  by (simp add: wrap_int_def sint_sbintrunc')

lemma wrap_int_id: "- (2 ^ 31) \<le> i \<Longrightarrow> i < 2 ^ 31 \<Longrightarrow> wrap_int i = i"
  unfolding wrap_int_eq by (rule signed_take_bit_int_eq_self) simp_all

lemma wrap_int_le: "0 \<le> i \<Longrightarrow> wrap_int i \<le> i"
  using take_bit_int_less_eq_self_iff [of 32 "i + 2 ^ 31"] by (simp add: wrap_int_eq signed_take_bit_eq_take_bit_shift)

lemma scan_nodes_from:
  assumes "fold (scan_node source) nodes (t0, av0, m0, n0) = (t, av, m, n)"
  shows "av = av0 @ free_nodes source nodes \<and> wrap_int t = wrap_int (t0 + sum_list (map snd (free_nodes source nodes))) \<and>
    (t0 = wrap_int t0 \<longrightarrow> t = wrap_int t) \<and>
    (0 \<le> m0 \<longrightarrow> m0 \<le> m \<and> (\<forall>p \<in> set (free_nodes source nodes). snd p \<le> m) \<and>
       ((m, n) = (m0, n0) \<or> (n, m) \<in> set (free_nodes source nodes)))"
  using assms
proof (induction nodes arbitrary: t0 av0 m0 n0)
  case (Cons p nodes)
  obtain t1 av1 m1 n1 where step: "scan_node source p (t0, av0, m0, n0) = (t1, av1, m1, n1)"
    by (metis surj_pair)
  have rest: "fold (scan_node source) nodes (t1, av1, m1, n1) = (t, av, m, n)"
    using Cons.prems step by simp
  show ?case
  proof (cases "eligible source (fst p) \<and> 0 < ns_avail_executors (snd p)")
    case True
    then have "free_nodes source (p # nodes) =
        (fst p, ns_avail_executors (snd p)) # free_nodes source nodes"
      by (simp add: free_nodes_def)
    moreover have "t1 = wrap_int (t0 + ns_avail_executors (snd p))"
      using step True by (auto simp: scan_node_def eligible_def Let_def split: if_splits)
    moreover have "wrap_int t1 = t1" using calculation(2) wrap_int_add [of "t0 + ns_avail_executors (snd p)" 0] by simp
    ultimately show ?thesis
      using Cons.IH [OF rest] step True wrap_int_add [of "t0 + ns_avail_executors (snd p)"]
      by (auto simp: scan_node_def eligible_def Let_def add.assoc split: if_splits)
  next
    case False
    then have "free_nodes source (p # nodes) = free_nodes source nodes"
      by (simp add: free_nodes_def)
    with Cons.IH [OF rest] step False show ?thesis
      by (auto simp: scan_node_def eligible_def Let_def split: if_splits)
  qed
qed (simp add: free_nodes_def)

lemma sum_free_nodes_nonneg: "0 \<le> sum_list (map snd (free_nodes source nodes))"
  by (rule sum_list_nonneg) (auto simp: free_nodes_def)

text \<open>The total never exceeds the real sum, and is the real sum unless that overflows.\<close>

lemma scan_nodes_result:
  assumes "scan_nodes source nodes = (t, av, m, n)"
  shows "av = free_nodes source nodes \<and> t \<le> sum_list (map snd (free_nodes source nodes)) \<and>
    (sum_list (map snd (free_nodes source nodes)) < 2 ^ 31 \<longrightarrow> t = sum_list (map snd (free_nodes source nodes))) \<and> 0 \<le> m \<and>
    (\<forall>p \<in> set (free_nodes source nodes). snd p \<le> m) \<and>
    ((m, n) = (0, []) \<or> (n, m) \<in> set (free_nodes source nodes))"
proof -
  let ?sum = "sum_list (map snd (free_nodes source nodes))"
  have "wrap_int 0 = 0" by (simp add: wrap_int_def)
  then have "t = wrap_int ?sum" using scan_nodes_from [OF assms [unfolded scan_nodes_def]] by simp
  then show ?thesis
    using scan_nodes_from [OF assms [unfolded scan_nodes_def]] wrap_int_le [OF sum_free_nodes_nonneg, of source nodes]
      wrap_int_id [of ?sum] sum_free_nodes_nonneg [of source nodes] by auto
qed

lemma free_nodes_pos: "p \<in> set (free_nodes source nodes) \<Longrightarrow> 0 < snd p"
  by (auto simp: free_nodes_def)

lemma free_nodes_distinct: "umap_ok nodes \<Longrightarrow> umap_ok (free_nodes source nodes)"
  by (auto simp: free_nodes_def comp_def distinct_map_filter distinct_map inj_on_def)

end
