(* ===== verification/Ph_Coord_Calls_Laws.thy ===== *)
theory Ph_Coord_Calls_Laws
  imports Ph_Coord_Calls
begin

text \<open>
  What \<^verbatim>\<open>func_call_handler\<close> guarantees: the dealing loop ends and stays within the free executors of
  each node, and the loop that cuts the requests into messages sends every request exactly once.
\<close>

section \<open>Dealing out\<close>

lemma next_avail_ok:
  assumes "idx < length av" and "0 < snd (av ! ((idx + d) mod length av))"
  shows "\<exists>i < length av. next_avail av idx = Some (Ok i) \<and> 0 < snd (av ! i) \<and>
    (0 < snd (av ! idx) \<longrightarrow> i = idx)"
  using assms
proof (induction d arbitrary: idx)
  case 0
  then show ?case by (subst next_avail.simps) auto
next
  case (Suc d)
  show ?case
  proof (cases "0 < snd (av ! idx)")
    case True
    with Suc.prems(1) show ?thesis by (subst next_avail.simps) auto
  next
    case False
    let ?next = "(idx + 1) mod length av"
    have "?next < length av" using Suc.prems(1) by (intro mod_less_divisor) linarith
    moreover have "(?next + d) mod length av = (idx + Suc d) mod length av"
      by (simp add: mod_add_left_eq)
    ultimately obtain i where "i < length av" "next_avail av ?next = Some (Ok i)" "0 < snd (av ! i)"
      using Suc.IH [of ?next] Suc.prems(2) by auto
    with False Suc.prems(1) show ?thesis by (subst next_avail.simps) auto
  qed
qed

lemma next_avail_total:
  assumes "idx < length av" and "j < length av" and "0 < snd (av ! j)"
  shows "\<exists>i < length av. next_avail av idx = Some (Ok i) \<and> 0 < snd (av ! i) \<and>
    (0 < snd (av ! idx) \<longrightarrow> i = idx)"
proof -
  have "(idx + (j + length av - idx)) mod length av = j"
    using assms(1,2) by simp
  then show ?thesis using next_avail_ok [of idx av "j + length av - idx"] assms by simp
qed

text \<open>
  The state of the dealing loop: what is left at a node and what it has been given add up to what it
  had; nodes are served in order, so before the first round is over the loads are ones and then
  zeros.
\<close>

definition deal_inv :: "(Address \<times> int) list \<Rightarrow> nat \<Rightarrow> nat \<Rightarrow> (Address \<times> int) list \<Rightarrow> nat list \<Rightarrow> bool" where
  "deal_inv av0 dealt idx av loads \<longleftrightarrow>
     length av = length av0 \<and> length loads = length av0 \<and> idx < length av0 \<and> sum_list loads = dealt \<and>
     (\<forall>i < length av0. fst (av ! i) = fst (av0 ! i) \<and> snd (av ! i) + int (loads ! i) = snd (av0 ! i) \<and>
        0 \<le> snd (av ! i) \<and> 0 < snd (av0 ! i)) \<and>
     (idx = dealt \<and> loads = replicate dealt 1 @ replicate (length av0 - dealt) 0 \<or> (\<forall>i < length av0. 0 < loads ! i))"

lemma sum_list_update_Suc: "i < length xs \<Longrightarrow> sum_list (xs[i := xs ! i + 1]) = Suc (sum_list xs)"
  for xs :: "nat list"
  by (simp add: sum_list_update)

lemma deal_inv_lengths:
  assumes "deal_inv av0 dealt idx av loads"
  shows "length av = length av0" "length loads = length av0" "idx < length av0" "sum_list loads = dealt"
  using assms unfolding deal_inv_def by blast+

lemma deal_inv_each:
  assumes "deal_inv av0 dealt idx av loads" and "i < length av0"
  shows "fst (av ! i) = fst (av0 ! i)" "snd (av ! i) + int (loads ! i) = snd (av0 ! i)"
    "0 \<le> snd (av ! i)" "0 < snd (av0 ! i)"
  using assms unfolding deal_inv_def by blast+

lemma deal_room:
  assumes inv: "deal_inv av0 dealt idx av loads" and "int dealt < sum_list (map snd av0)"
  shows "\<exists>j < length av. 0 < snd (av ! j)"
proof (rule ccontr)
  assume none: "\<not> (\<exists>j < length av. 0 < snd (av ! j))"
  note len = deal_inv_lengths [OF inv]
  have "snd (av0 ! i) = int (loads ! i)" if i: "i < length av0" for i
  proof -
    have "\<not> 0 < snd (av ! i)" using none i len(1) by simp
    then show ?thesis using deal_inv_each(2,3) [OF inv i] by linarith
  qed
  then have "map snd av0 = map int loads"
    using len by (intro nth_equalityI) simp_all
  then have "sum_list (map snd av0) = int dealt" using len(4) by (simp add: sum_list_map_int)
  with assms(2) show False by simp
qed

lemma deal_first_round:
  assumes "loads = replicate k 1 @ replicate (n - k) 0" and "k < n"
  shows "loads ! k = (0::nat)" and "loads[k := Suc 0] = replicate (Suc k) 1 @ replicate (n - Suc k) 0"
proof -
  show "loads ! k = 0" using assms by (simp add: nth_append)
  have "n - k = Suc (n - Suc k)" using assms(2) by simp
  then have "loads[k := Suc 0] = replicate k 1 @ 1 # replicate (n - Suc k) 0"
    using assms(1) by (simp add: list_update_append)
  also have "\<dots> = replicate (Suc k) 1 @ replicate (n - Suc k) 0"
    by (simp add: replicate_app_Cons_same)
  finally show "loads[k := Suc 0] = replicate (Suc k) 1 @ replicate (n - Suc k) 0" .
qed

lemma deal_shape:
  fixes loads :: "nat list"
  assumes "idx = k \<and> loads = replicate k 1 @ replicate (n - k) 0 \<or> (\<forall>j < n. 0 < loads ! j)"
    and "idx < n" and "length loads = n" and "i < n"
    and "idx = k \<Longrightarrow> loads ! idx = 0 \<Longrightarrow> i = idx"
  shows "(i + 1) mod n = Suc k \<and>
      loads[i := loads ! i + 1] = replicate (Suc k) 1 @ replicate (n - Suc k) 0 \<or>
    (\<forall>j < n. 0 < loads[i := loads ! i + 1] ! j)"
proof (cases "\<forall>j < n. 0 < loads ! j")
  case True
  with assms(3,4) show ?thesis by (simp add: nth_list_update)
next
  case False
  with assms(1) have first: "idx = k" "loads = replicate k 1 @ replicate (n - k) 0" by auto
  note rnd = deal_first_round [OF first(2)]
  have k: "k < n" using first(1) assms(2) by simp
  have i: "i = k" using assms(5) rnd(1) [OF k] first(1) by simp
  have upd: "loads[i := loads ! i + 1] = replicate (Suc k) 1 @ replicate (n - Suc k) 0"
    using rnd [OF k] i by simp
  show ?thesis
  proof (cases "Suc k = n")
    case True
    have "0 < loads[i := loads ! i + 1] ! j" if "j < n" for j
      using that True by (simp only: upd) (simp add: nth_append)
    then show ?thesis by blast
  next
    case False
    then show ?thesis using upd k i by simp
  qed
qed

lemma deal_step:
  assumes inv: "deal_inv av0 dealt idx av loads" and i: "i < length av" "0 < snd (av ! i)"
    and same: "0 < snd (av ! idx) \<longrightarrow> i = idx"
  shows "deal_inv av0 (Suc dealt) ((i + 1) mod length av)
    (av[i := (fst (av ! i), snd (av ! i) - 1)]) (loads[i := loads ! i + 1])"
proof -
  let ?n = "length av0"
  note len = deal_inv_lengths [OF inv] and each = deal_inv_each [OF inv]
  have shape: "idx = dealt \<and> loads = replicate dealt 1 @ replicate (?n - dealt) 0 \<or>
        (\<forall>j < ?n. 0 < loads ! j)"
    using inv unfolding deal_inv_def by blast
  have "i = idx" if "loads ! idx = 0" using same each(2,4) [OF len(3)] that by auto
  then have s1: "(i + 1) mod ?n = Suc dealt \<and>
      loads[i := loads ! i + 1] = replicate (Suc dealt) 1 @ replicate (?n - Suc dealt) 0 \<or>
      (\<forall>j < ?n. 0 < loads[i := loads ! i + 1] ! j)"
    by (intro deal_shape [OF shape len(3,2)]) (use i len in auto)
  have s2: "\<forall>j < ?n. (fst (av[i := (fst (av ! i), snd (av ! i) - 1)] ! j) = fst (av0 ! j) \<and>
      snd (av[i := (fst (av ! i), snd (av ! i) - 1)] ! j) + int (loads[i := loads ! i + 1] ! j) =
        snd (av0 ! j) \<and>
      0 \<le> snd (av[i := (fst (av ! i), snd (av ! i) - 1)] ! j) \<and> 0 < snd (av0 ! j))"
    (is "\<forall>j < ?n. ?Q j")
  proof (intro allI impI)
    fix j assume "j < ?n"
    from each [OF this] i len(1,2) show "?Q j" by (cases "j = i") auto
  qed
  have s3: "(i + 1) mod ?n < ?n" using len by (intro mod_less_divisor) linarith
  have s4: "sum_list (loads[i := loads ! i + 1]) = Suc dealt"
    using sum_list_update_Suc [of i loads] i len by simp
  show ?thesis
    unfolding deal_inv_def length_list_update len
    by (intro conjI refl s1 s2 s3 s4)
qed

lemma node_loads_from_ok:
  assumes "deal_inv av0 dealt idx av loads" and "int (dealt + n) \<le> sum_list (map snd av0)"
  shows "\<exists>ls idx' av'. node_loads_from n idx av loads = Some (Ok ls) \<and> deal_inv av0 (dealt + n) idx' av' ls"
  using assms
proof (induction n arbitrary: dealt idx av loads)
  case 0
  then show ?case by auto
next
  case (Suc n)
  obtain j where "j < length av" "0 < snd (av ! j)"
    using deal_room [OF Suc.prems(1)] Suc.prems(2) by auto
  moreover have "idx < length av" using Suc.prems(1) by (simp add: deal_inv_def)
  ultimately obtain i where i: "i < length av" "next_avail av idx = Some (Ok i)" "0 < snd (av ! i)"
    "0 < snd (av ! idx) \<longrightarrow> i = idx"
    using next_avail_total by blast
  have "int (Suc dealt + n) \<le> sum_list (map snd av0)" using Suc.prems(2) by simp
  from Suc.IH [OF deal_step [OF Suc.prems(1) i(1,3,4)] this] show ?case
    using i(2) by simp
qed

section \<open>Cutting the requests into parts\<close>

fun fits :: "nat list \<Rightarrow> nat \<Rightarrow> bool" where
  "fits [] m \<longleftrightarrow> m = 0"
| "fits (l # ls) m \<longleftrightarrow> m = 0 \<or> (0 < l \<and> l \<le> m \<and> fits ls (m - l))"

fun parts :: "nat list \<Rightarrow> 'a list \<Rightarrow> 'a list list" where
  "parts [] xs = []"
| "parts (l # ls) xs = (if xs = [] then [] else take l xs # parts ls (drop l xs))"

lemma parts_Nil [simp]: "parts ls [] = []"
  by (cases ls) auto

lemma fits_positive: "(\<And>l. l \<in> set ls \<Longrightarrow> 0 < l) \<Longrightarrow> fits ls (sum_list ls)"
  by (induction ls) auto

lemma fits_zero: "fits ls 0"
  by (cases ls) auto

lemma fits_ones: "fits (replicate k 1 @ replicate z 0) k"
  by (induction k) (auto simp: fits_zero)

lemma concat_parts: "fits ls (length xs) \<Longrightarrow> concat (parts ls xs) = xs"
  by (induction ls arbitrary: xs) auto

lemma parts_bounds:
  "fits ls (length xs) \<Longrightarrow> length (parts ls xs) \<le> length ls \<and>
   (\<forall>i < length (parts ls xs). parts ls xs ! i \<noteq> [] \<and> length (parts ls xs ! i) \<le> ls ! i)"
proof (induction ls arbitrary: xs)
  case (Cons l ls)
  show ?case
  proof (cases "xs = []")
    case False
    with Cons.prems have "fits ls (length (drop l xs))" "0 < l" "l \<le> length xs" by auto
    from Cons.IH [OF this(1)] False this(2,3) show ?thesis
      by (auto simp: nth_Cons split: nat.splits)
  qed simp
qed simp

lemma fits_drop: "fits (drop idx ls) m \<Longrightarrow> 0 < m \<Longrightarrow> idx < length ls"
  by (rule ccontr) simp

lemma split_requests_parts:
  assumes "fits (drop idx loads) (length cur + length reqs)"
    and "cur = [] \<or> length cur < loads ! idx" and "length loads = length av"
    and "umap_ok av" and "fst ` set sched \<inter> fst ` set (drop idx av) = {}" and "idx \<le> length av"
  shows "split_requests call reqs loads av idx cur sched =
    Ok (sched @ zip (map fst (drop idx av))
      (map (\<lambda>p. call\<lparr>fc_requests := p\<rparr>) (parts (drop idx loads) (cur @ reqs))))"
  using assms
proof (induction reqs arbitrary: idx cur sched)
  case Nil
  have "cur = []"
  proof (rule ccontr)
    assume c: "cur \<noteq> []"
    with Nil.prems(1) have "idx < length loads" by (simp add: fits_drop)
    then have "drop idx loads = loads ! idx # drop (Suc idx) loads" by (simp add: Cons_nth_drop_Suc)
    with Nil.prems(1,2) c show False by auto
  qed
  then show ?case by simp
next
  case (Cons req reqs)
  have idx: "idx < length loads" using Cons.prems(1) by (rule fits_drop) simp
  let ?l = "loads ! idx" and ?cur = "cur @ [req]"
  have dl: "drop idx loads = ?l # drop (Suc idx) loads" using idx by (simp add: Cons_nth_drop_Suc)
  have da: "drop idx av = av ! idx # drop (Suc idx) av"
    using idx Cons.prems(3) by (simp add: Cons_nth_drop_Suc)
  have l: "0 < ?l" "?l \<le> length cur + Suc (length reqs)"
    "fits (drop (Suc idx) loads) (length cur + Suc (length reqs) - ?l)"
    using Cons.prems(1) by (simp_all add: dl)
  show ?case
  proof (cases "length ?cur = ?l")
    case True
    let ?sched = "sched @ [(fst (av ! idx), call\<lparr>fc_requests := ?cur\<rparr>)]"
    have fresh: "fst (av ! idx) \<notin> fst ` set sched" using Cons.prems(5) by (simp add: da)
    have dist: "fst (av ! idx) \<notin> fst ` set (drop (Suc idx) av)"
      using distinct_drop [OF Cons.prems(4), of idx] by (simp add: drop_map da)
    have rest: "fits (drop (Suc idx) loads) (length reqs)" using l(3) by (simp flip: True)
    have "split_requests call reqs loads av (idx + 1) [] ?sched =
      Ok (?sched @ zip (map fst (drop (idx + 1) av))
        (map (\<lambda>p. call\<lparr>fc_requests := p\<rparr>) (parts (drop (idx + 1) loads) ([] @ reqs))))"
      by (rule Cons.IH) (use Cons.prems idx rest dist in \<open>auto simp: da\<close>)
    then show ?thesis
      using True idx Cons.prems(3)
      by (simp add: nth_res_ok update_new [OF fresh] dl da flip: True)
  next
    case False
    have "length ?cur < ?l" using Cons.prems(2) False l(1) by auto
    then have "split_requests call reqs loads av idx ?cur sched =
      Ok (sched @ zip (map fst (drop idx av))
        (map (\<lambda>p. call\<lparr>fc_requests := p\<rparr>) (parts (drop idx loads) (?cur @ reqs))))"
      by (intro Cons.IH) (use Cons.prems in auto)
    then show ?thesis using False idx by (simp add: nth_res_ok)
  qed
qed

section \<open>Properties of the handler\<close>

lemma loads_fit:
  assumes "deal_inv av0 m idx av loads"
  shows "fits loads m"
proof -
  note len = deal_inv_lengths [OF assms]
  consider "loads = replicate m 1 @ replicate (length av0 - m) 0" | "\<forall>i < length av0. 0 < loads ! i"
    using assms unfolding deal_inv_def by blast
  then show ?thesis
  proof cases
    case 1
    then show ?thesis using fits_ones by simp
  next
    case 2
    then have "0 < l" if "l \<in> set loads" for l using that len(2) by (auto simp: in_set_conv_nth)
    then show ?thesis using fits_positive [of loads] len(4) by blast
  qed
qed

lemma deal_start:
  assumes "free_nodes source nodes \<noteq> []"
  shows "deal_inv (free_nodes source nodes) 0 0 (free_nodes source nodes)
    (replicate (length (free_nodes source nodes)) 0)"
proof -
  have "0 < snd (free_nodes source nodes ! i)" if "i < length (free_nodes source nodes)" for i
    by (rule free_nodes_pos [OF nth_mem [OF that]])
  then show ?thesis using assms by (auto simp: deal_inv_def sum_list_replicate intro: less_imp_le)
qed

text \<open>What the round-robin branch schedules: parts of the call.\<close>

definition routed_part :: "FunctionCall \<Rightarrow> FunctionRequest list \<Rightarrow> FunctionCall" where
  "routed_part call reqs =
     \<lparr>fc_app_name = fc_app_name call, fc_requests = reqs, fc_source = [], fc_request_id = [],
      fc_resp_address = fc_resp_address call, fc_session_id = [], fc_sync_data_status = True\<rparr>"

lemma schedule_batch_split:
  assumes "umap_ok nodes" and "1 < length (fc_requests call)"
    and "scan_nodes (fc_source call) nodes = (tot, avail, mx, node)"
    and "mx < int (length (fc_requests call))" and "int (length (fc_requests call)) \<le> tot"
  shows "\<exists>ps. schedule_batch call nodes =
      Some (Ok (zip (map fst (free_nodes (fc_source call) nodes))
        (map (routed_part call) ps))) \<and>
    concat ps = fc_requests call \<and> length ps \<le> length (free_nodes (fc_source call) nodes) \<and>
    (\<forall>i < length ps. ps ! i \<noteq> [] \<and>
       int (length (ps ! i)) \<le> snd (free_nodes (fc_source call) nodes ! i))"
proof -
  let ?av = "free_nodes (fc_source call) nodes" and ?m = "length (fc_requests call)"
  have scan: "avail = ?av" "tot \<le> sum_list (map snd ?av)"
    using scan_nodes_result [OF assms(3)] by auto
  have ne: "?av \<noteq> []" using scan(2) assms(2,5) by auto
  have "int (0 + ?m) \<le> sum_list (map snd ?av)" using assms(5) scan(2) by simp
  from node_loads_from_ok [OF deal_start [OF ne] this] obtain ls idx av'
    where ls: "node_loads_from ?m 0 ?av (replicate (length ?av) 0) = Some (Ok ls)"
      and inv: "deal_inv ?av ?m idx av' ls" by auto
  note len = deal_inv_lengths [OF inv]
  have fit: "fits ls ?m" by (rule loads_fit [OF inv])
  let ?ps = "parts ls (fc_requests call)"
  let ?call = "empty_call\<lparr>fc_app_name := fc_app_name call, fc_resp_address := fc_resp_address call,
      fc_sync_data_status := True\<rparr>"
  have "split_requests ?call (fc_requests call) ls ?av 0 [] [] =
      Ok ([] @ zip (map fst (drop 0 ?av))
        (map (\<lambda>p. ?call\<lparr>fc_requests := p\<rparr>) (parts (drop 0 ls) ([] @ fc_requests call))))"
    by (rule split_requests_parts) (use fit len free_nodes_distinct [OF assms(1)] in auto)
  moreover have "(\<lambda>p. ?call\<lparr>fc_requests := p\<rparr>) = routed_part call"
    by (simp add: fun_eq_iff routed_part_def empty_call_def)
  ultimately have "schedule_batch call nodes = Some (Ok (zip (map fst ?av) (map (routed_part call) ?ps)))"
    using assms(3-5) ls by (simp add: schedule_batch_def scan Let_def)
  moreover have "?ps ! i \<noteq> [] \<and> int (length (?ps ! i)) \<le> snd (?av ! i)" if i: "i < length ?ps" for i
  proof -
    have b: "?ps ! i \<noteq> []" "length (?ps ! i) \<le> ls ! i" "i < length ?av"
      using parts_bounds [OF fit] i len(2) by auto
    have "int (ls ! i) \<le> snd (?av ! i)" using deal_inv_each(2,3) [OF inv b(3)] by linarith
    with b show ?thesis by linarith
  qed
  ultimately show ?thesis
    using concat_parts [OF fit] parts_bounds [OF fit] len(2) by (intro exI [of _ ?ps]) simp
qed


text \<open>A call goes to one of the input/output threads of the node.\<close>

definition call_sent :: "coord_env \<Rightarrow> Address \<Rightarrow> FunctionCall \<Rightarrow> send \<Rightarrow> bool" where
  "call_sent env ip call sd \<longleftrightarrow>
     (\<exists>t < ce_io_thread_num env. sd = Send (get_func_exec_address ip (word_of_nat t)) (Call_Msg call))"

lemma random_exec_address_ok:
  assumes "0 < ce_io_thread_num env"
  shows "\<exists>t seed'. random_exec_address env ip seed =
    Ok (get_func_exec_address ip (word_of_nat t), seed') \<and> t < ce_io_thread_num env"
  using assms by (auto simp: random_exec_address_def split: prod.splits)

lemma send_calls_ok:
  assumes "0 < ce_io_thread_num env"
  shows "\<exists>sends seed'. send_calls env scheduled seed = Ok (sends, seed') \<and>
    list_all2 (\<lambda>node_msg sd. call_sent env (fst node_msg) (snd node_msg) sd) scheduled sends"
proof (induction scheduled arbitrary: seed)
  case (Cons node_msg rest)
  obtain t seed1 where 1: "random_exec_address env (fst node_msg) seed =
      Ok (get_func_exec_address (fst node_msg) (word_of_nat t), seed1)" "t < ce_io_thread_num env"
    using random_exec_address_ok [OF assms] by blast
  obtain sends seed2 where 2: "send_calls env rest seed1 = Ok (sends, seed2)"
    "list_all2 (\<lambda>node_msg sd. call_sent env (fst node_msg) (snd node_msg) sd) rest sends"
    using Cons.IH by blast
  from 1(2) have "call_sent env (fst node_msg) (snd node_msg)
      (Send (get_func_exec_address (fst node_msg) (word_of_nat t)) (Call_Msg (snd node_msg)))"
    by (auto simp: call_sent_def)
  with 1 2 show ?case by simp
qed simp

text \<open>Giving a call its session changes nothing else.\<close>

lemma gen_random_result: "gen_random rand seed n = (x, seed') \<Longrightarrow> length x = n"
  using gen_random_length [of rand seed n] by simp

lemma give_session_same:
  assumes "give_session env call seed = (call', seed')"
  shows "fc_requests call' = fc_requests call" "fc_source call' = fc_source call"
    "fc_app_name call' = fc_app_name call" "fc_resp_address call' = fc_resp_address call"
    "fc_request_id call' = fc_request_id call" "routed_part call' = routed_part call"
    "free_nodes (fc_source call') = free_nodes (fc_source call)"
    "fc_session_id call' = fc_session_id call \<or> fc_session_id call = [] \<and> length (fc_session_id call') = 16"
  using assms
  by (auto simp: give_session_def routed_part_def fun_eq_iff split: if_splits prod.splits
      dest: gen_random_result)

lemma func_call_handler_scheduled:
  assumes "give_session env call (co_seed s) = (call', seed)"
    and "schedule_call env call' (co_node_status s) seed = Some (Ok (scheduled, seed'))"
    and "scheduled \<noteq> []" and "0 < ce_io_thread_num env"
  shows "\<exists>sends seed''. func_call_handler env call s = Some (Ok (sends, s\<lparr>co_seed := seed''\<rparr>)) \<and>
    list_all2 (\<lambda>node_msg sd. call_sent env (fst node_msg) (snd node_msg) sd) scheduled sends"
  using send_calls_ok [OF assms(4), of scheduled seed'] assms(1-3)
  by (auto simp: func_call_handler_def)

lemma func_call_split_parts:
  assumes "umap_ok (co_node_status s)" and "1 < length (fc_requests call)"
    and "\<forall>p \<in> set (free_nodes (fc_source call) (co_node_status s)).
           snd p < int (length (fc_requests call))"
    and "int (length (fc_requests call)) \<le>
           sum_list (map snd (free_nodes (fc_source call) (co_node_status s)))"
    and "0 < ce_io_thread_num env"
    and "sum_list (map snd (free_nodes (fc_source call) (co_node_status s))) < 2 ^ 31"
  shows "let nodes = free_nodes (fc_source call) (co_node_status s)
    in \<exists>sends s' ps. func_call_handler env call s = Some (Ok (sends, s')) \<and>
      concat ps = fc_requests call \<and> length sends = length ps \<and> length ps \<le> length nodes \<and>
      (\<forall>i < length ps. ps ! i \<noteq> [] \<and> int (length (ps ! i)) \<le> snd (nodes ! i) \<and>
         call_sent env (fst (nodes ! i)) (routed_part call (ps ! i)) (sends ! i))"
proof -
  let ?nodes = "free_nodes (fc_source call) (co_node_status s)"
  obtain call' seed where gs: "give_session env call (co_seed s) = (call', seed)" by fastforce
  note same = give_session_same [OF gs]
  obtain tot av mx node where scan: "scan_nodes (fc_source call) (co_node_status s) = (tot, av, mx, node)"
    by (metis surj_pair)
  have mx: "mx < int (length (fc_requests call))" "int (length (fc_requests call)) \<le> tot"
    using scan_nodes_result [OF scan] assms(2-4,6) by auto
  obtain ps where ps: "schedule_batch call' (co_node_status s) =
        Some (Ok (zip (map fst ?nodes) (map (routed_part call) ps)))"
    "concat ps = fc_requests call" "length ps \<le> length ?nodes"
    "\<forall>i < length ps. ps ! i \<noteq> [] \<and> int (length (ps ! i)) \<le> snd (?nodes ! i)"
    using schedule_batch_split [of "co_node_status s" call' tot av mx node] assms(1,2) scan mx same
    by auto
  have ne: "zip (map fst ?nodes) (map (routed_part call) ps) \<noteq> []"
    using ps(2,3) assms(2) by (cases ps; cases ?nodes) auto
  have "schedule_call env call' (co_node_status s) seed =
      Some (Ok (zip (map fst ?nodes) (map (routed_part call) ps), seed))"
    using ps(1) assms(2) same by (simp add: schedule_call_def)
  from func_call_handler_scheduled [OF gs this ne assms(5)] obtain sends seed''
    where h: "func_call_handler env call s = Some (Ok (sends, s\<lparr>co_seed := seed''\<rparr>))"
      and sent: "list_all2 (\<lambda>node_msg sd. call_sent env (fst node_msg) (snd node_msg) sd)
        (zip (map fst ?nodes) (map (routed_part call) ps)) sends" by blast
  have "call_sent env (fst (?nodes ! i)) (routed_part call (ps ! i)) (sends ! i)"
    if "i < length ps" for i
    using list_all2_nthD [OF sent, of i] that ps(3) by simp
  moreover have "length sends = length ps" using list_all2_lengthD [OF sent] ps(3) by simp
  ultimately show ?thesis
    using h ps(2-4) unfolding Let_def by blast
qed

lemma free_nodes_eligible: "\<forall>n \<in> set (free_nodes source nodes). eligible source (fst n)"
  by (auto simp: free_nodes_def)

text \<open>
  Property C19: a call with several requests, too big for any single node but not for the cluster, is dealt out
  completely. The handler returns and sends one message to each of some of the nodes with free
  executors, the nodes being different from each other and from the sender. The requests of the messages, in the
  order of the nodes, are the requests of the call, each exactly once; no node gets more requests
  than it has free executors, and none gets an empty message. The free executors together must be fewer than
  \<open>2 ^ 31\<close>, the range in which the handler adds them up.
\<close>

theorem func_call_split:
  assumes "umap_ok (co_node_status s)" and "1 < length (fc_requests call)"
    and "\<forall>p \<in> set (free_nodes (fc_source call) (co_node_status s)).
           snd p < int (length (fc_requests call))"
    and "int (length (fc_requests call)) \<le>
           sum_list (map snd (free_nodes (fc_source call) (co_node_status s)))"
    and "0 < ce_io_thread_num env"
    and "sum_list (map snd (free_nodes (fc_source call) (co_node_status s))) < 2 ^ 31"
  shows "let nodes = free_nodes (fc_source call) (co_node_status s)
    in \<exists>sends s' ps. func_call_handler env call s = Some (Ok (sends, s')) \<and>
      distinct (map fst nodes) \<and> (\<forall>n \<in> set nodes. eligible (fc_source call) (fst n)) \<and>
      concat ps = fc_requests call \<and> length sends = length ps \<and> length ps \<le> length nodes \<and>
      (\<forall>i < length ps. ps ! i \<noteq> [] \<and> int (length (ps ! i)) \<le> snd (nodes ! i) \<and>
         call_sent env (fst (nodes ! i)) (routed_part call (ps ! i)) (sends ! i))"
  using func_call_split_parts [OF assms] free_nodes_distinct [OF assms(1), of "fc_source call"]
    free_nodes_eligible [of "fc_source call" "co_node_status s"]
  unfolding Let_def by blast


definition ex_env :: coord_env where
  "ex_env = \<lparr>ce_private_ip = ''10.0.0.9'', ce_thread_id = 0, ce_io_thread_num = 2,
             ce_rand = (\<lambda>seed. (unat seed, seed + 1)), ce_codec = ex_codec, ce_now = 0\<rparr>"

definition ex_nodes :: "(Address \<times> int) list \<Rightarrow> node_map" where
  "ex_nodes free = map (\<lambda>p. (fst p, \<lparr>ns_tp = 0, ns_avail_executors = snd p, ns_functions = []\<rparr>)) free"

definition ex_coord :: "(Address \<times> int) list \<Rightarrow> CoordState" where
  "ex_coord free = (init_coord 7)\<lparr>co_node_status := ex_nodes free\<rparr>"

definition ex_call :: "string list \<Rightarrow> FunctionCall" where
  "ex_call fs = empty_call\<lparr>fc_app_name := ''app'', fc_session_id := ''0123456789abcdef'',
     fc_requests := map (\<lambda>f. \<lparr>fr_name = f, fr_arguments = []\<rparr>) fs\<rparr>"

lemma ex_free_nodes:
  "free_nodes (fc_source (ex_call fs)) (co_node_status (ex_coord free)) = filter (\<lambda>p. 0 < snd p) free"
  by (simp add: ex_call_def ex_coord_def ex_nodes_def empty_call_def free_nodes_def eligible_def
      filter_map comp_def)

lemma ex_call_requests [simp]: "length (fc_requests (ex_call fs)) = length fs"
  by (simp add: ex_call_def)

lemma ex_coord_ok: "distinct (map fst free) \<Longrightarrow> umap_ok (co_node_status (ex_coord free))"
  by (simp add: ex_coord_def ex_nodes_def comp_def)

theorem func_call_split_witness:
  "\<exists>sends s'. func_call_handler ex_env (ex_call [''f'', ''g'', ''h''])
       (ex_coord [(''n1'', 2), (''n2'', 0), (''n3'', 1)]) = Some (Ok (sends, s')) \<and>
     0 < length sends \<and> length sends \<le> 2"
proof -
  let ?free = "[(''n1'', 2 :: int), (''n2'', 0), (''n3'', 1)]"
  have "umap_ok (co_node_status (ex_coord ?free))" by (rule ex_coord_ok) simp
  from func_call_split [OF this, of "ex_call [''f'', ''g'', ''h'']" ex_env]
  obtain sends s' ps where "func_call_handler ex_env (ex_call [''f'', ''g'', ''h'']) (ex_coord ?free) =
      Some (Ok (sends, s'))" "length sends = length ps" "length ps \<le> 2"
    "concat ps = fc_requests (ex_call [''f'', ''g'', ''h''])"
    unfolding ex_free_nodes by (auto simp: Let_def ex_env_def)
  then show ?thesis by (cases ps) (auto simp: ex_call_def)
qed

text \<open>
  The parts of a call that is dealt out do not carry its session: whatever session the call has,
  every message has an empty one, and neither the request id nor the source of the call. A call
  that is not dealt out keeps them.
\<close>

lemma func_call_split_loses_session:
  assumes "umap_ok (co_node_status s)" and "1 < length (fc_requests call)"
    and "\<forall>p \<in> set (free_nodes (fc_source call) (co_node_status s)).
           snd p < int (length (fc_requests call))"
    and "int (length (fc_requests call)) \<le>
           sum_list (map snd (free_nodes (fc_source call) (co_node_status s)))"
    and "0 < ce_io_thread_num env"
    and "sum_list (map snd (free_nodes (fc_source call) (co_node_status s))) < 2 ^ 31"
  shows "\<exists>sends s'. func_call_handler env call s = Some (Ok (sends, s')) \<and> sends \<noteq> [] \<and>
    (\<forall>sd \<in> set sends. \<exists>part. send_msg sd = Call_Msg part \<and>
       fc_session_id part = [] \<and> fc_request_id part = [] \<and> fc_source part = [])"
proof -
  obtain sends s' ps where h: "func_call_handler env call s = Some (Ok (sends, s'))"
    "concat ps = fc_requests call" "length sends = length ps"
    "\<forall>i < length ps. \<exists>ip. call_sent env ip (routed_part call (ps ! i)) (sends ! i)"
    using func_call_split_parts [OF assms] unfolding Let_def by blast
  have "sends \<noteq> []" using h(2,3) assms(2) by auto
  moreover have "\<exists>part. send_msg sd = Call_Msg part \<and> fc_session_id part = [] \<and>
      fc_request_id part = [] \<and> fc_source part = []" if "sd \<in> set sends" for sd
  proof -
    from that h(3,4) obtain p ip where "call_sent env ip (routed_part call p) sd"
      by (metis in_set_conv_nth)
    then show ?thesis by (auto simp: call_sent_def routed_part_def)
  qed
  ultimately show ?thesis using h(1) by blast
qed

text \<open>
  If one node other than the sender has enough free executors, the whole call is sent there in one message, with
  its requests, its response address and its session, or a new session of 16 characters if it had
  none. The node is one of those with the most free executors.
\<close>

lemma func_call_whole:
  assumes "(ip, free) \<in> set (free_nodes (fc_source call) (co_node_status s))"
    and "int (length (fc_requests call)) \<le> free" and "0 < ce_io_thread_num env"
  shows "\<exists>node mx call' sd s'. func_call_handler env call s = Some (Ok ([sd], s')) \<and>
    call_sent env node call' sd \<and>
    (node, mx) \<in> set (free_nodes (fc_source call) (co_node_status s)) \<and>
    (\<forall>p \<in> set (free_nodes (fc_source call) (co_node_status s)). snd p \<le> mx) \<and>
    call' = call\<lparr>fc_session_id := fc_session_id call'\<rparr> \<and>
    (fc_session_id call' = fc_session_id call \<or>
     fc_session_id call = [] \<and> length (fc_session_id call') = 16)"
proof -
  let ?nodes = "free_nodes (fc_source call) (co_node_status s)"
  obtain call' seed where gs: "give_session env call (co_seed s) = (call', seed)" by fastforce
  note same = give_session_same [OF gs]
  have upd: "call' = call\<lparr>fc_session_id := fc_session_id call'\<rparr>"
    using gs by (auto simp: give_session_def split: if_splits prod.splits)
  obtain tot av mx node where scan: "scan_nodes (fc_source call) (co_node_status s) = (tot, av, mx, node)"
    by (metis surj_pair)
  have mx: "free \<le> mx" "0 < free" "\<forall>p \<in> set ?nodes. snd p \<le> mx"
    using scan_nodes_result [OF scan] assms(1) free_nodes_pos [OF assms(1)] by force+
  then have node: "(node, mx) \<in> set ?nodes" using scan_nodes_result [OF scan] by auto
  have "schedule_call env call' (co_node_status s) seed = Some (Ok ([(node, call')], seed))"
    using scan mx(1,2) assms(2) same
    by (auto simp: schedule_call_def schedule_batch_def schedule_single_def Let_def)
  from func_call_handler_scheduled [OF gs this _ assms(3)] obtain sends seed''
    where h: "func_call_handler env call s = Some (Ok (sends, s\<lparr>co_seed := seed''\<rparr>))"
      and "list_all2 (\<lambda>node_msg sd. call_sent env (fst node_msg) (snd node_msg) sd) [(node, call')] sends"
    by blast
  then obtain sd where "sends = [sd]" "call_sent env node call' sd"
    by (auto simp: list_all2_Cons1)
  with h node mx(3) upd same(8) show ?thesis by blast
qed

text \<open>
  A call with several requests that exceeds all free executors together is sent to no node. If the
  caller waits for a response, it gets one with an error number and its own request id.
\<close>

lemma func_call_rejected:
  assumes "1 < length (fc_requests call)"
    and "sum_list (map snd (free_nodes (fc_source call) (co_node_status s))) <
           int (length (fc_requests call))"
  shows "\<exists>s'. func_call_handler env call s = Some (Ok (
      if fc_resp_address call = [] then []
      else [Send (fc_resp_address call) (Call_Response_Msg
        \<lparr>fcr_app_name = fc_app_name call, fcr_request_id = fc_request_id call, fcr_output = [],
         fcr_error_no = 1\<rparr>)], s'))"
proof -
  let ?nodes = "free_nodes (fc_source call) (co_node_status s)"
  obtain call' seed where gs: "give_session env call (co_seed s) = (call', seed)" by fastforce
  note same = give_session_same [OF gs]
  obtain tot av mx node where scan: "scan_nodes (fc_source call) (co_node_status s) = (tot, av, mx, node)"
    by (metis surj_pair)
  have tot: "tot \<le> sum_list (map snd ?nodes)" using scan_nodes_result [OF scan] by simp
  have "mx \<le> sum_list (map snd ?nodes)"
  proof (cases "mx = 0")
    case True
    then show ?thesis using sum_free_nodes_nonneg by simp
  next
    case False
    then have "mx \<in> set (map snd ?nodes)" using scan_nodes_result [OF scan] by force
    then show ?thesis using free_nodes_pos by (intro member_le_sum_list) (force intro: less_imp_le)+
  qed
  then have "schedule_call env call' (co_node_status s) seed = Some (Ok ([], seed))"
    using scan tot assms same by (simp add: schedule_call_def schedule_batch_def Let_def)
  then show ?thesis
    using gs same by (simp add: func_call_handler_def no_worker_response_def empty_call_response_def)
qed

end
