(* ===== verification/Ph_Coord_Inv.thy ===== *)
theory Ph_Coord_Inv
  imports Ph_Coord_Keys Ph_Coord_Ops Ph_Coord_Calls_Laws
begin

text \<open>
  The invariant of a coordinator thread: triggers belong to registered buckets, every key a trigger
  holds back has an address, registered buckets are listed with their application, and node states
  are a map. Under it \<^verbatim>\<open>notify_handler\<close> returns and keeps it.
\<close>

section \<open>The invariant\<close>

definition known :: "address_map \<Rightarrow> Bucket \<Rightarrow> Key set" where
  "known m b = {k. addresses_of m b k \<noteq> []}"

definition triggers_inv :: "CoordState \<Rightarrow> bool" where
  "triggers_inv s \<longleftrightarrow>
     (\<forall>b. map_at [] (co_triggers s) b \<noteq> [] \<longrightarrow> b \<in> dom (co_bucket_app s)) \<and>
     (\<forall>b. \<forall>tr \<in> set (map_at [] (co_triggers s) b).
        trigger_wf tr \<and> keys_known (known (co_address_map s) b) (trigger_body tr))"

definition registry_inv :: "CoordState \<Rightarrow> bool" where
  "registry_inv s \<longleftrightarrow>
     (\<forall>b a. co_bucket_app s b = Some a \<longrightarrow> b \<in> set (map_at [] (co_app_buckets s) a)) \<and>
     umap_ok (co_node_status s) \<and>
     (\<forall>b k. \<forall>a \<in> set (addresses_of (co_address_map s) b k). 6 \<le> length a)"

definition coord_inv :: "CoordState \<Rightarrow> bool" where
  "coord_inv s \<longleftrightarrow> triggers_inv s \<and> registry_inv s"

lemma coord_inv_init: "coord_inv (init_coord seed)"
  by (simp add: coord_inv_def triggers_inv_def registry_inv_def init_coord_def addresses_of_def)

text \<open>Scheduling changes only the node states and the seed.\<close>

definition reschedule :: "CoordState \<Rightarrow> node_map \<Rightarrow> uint32 \<Rightarrow> CoordState" where
  "reschedule s nodes seed = s\<lparr>co_node_status := nodes, co_seed := seed\<rparr>"

lemma reschedule_simps [simp]:
  "co_address_map (reschedule s n sd) = co_address_map s" "co_val_map (reschedule s n sd) = co_val_map s"
  "co_bucket_node (reschedule s n sd) = co_bucket_node s" "co_triggers (reschedule s n sd) = co_triggers s"
  "co_app_buckets (reschedule s n sd) = co_app_buckets s" "co_bucket_app (reschedule s n sd) = co_bucket_app s"
  "co_node_status (reschedule s n sd) = n" "co_seed (reschedule s n sd) = sd"
  "reschedule (reschedule s n sd) n' sd' = reschedule s n' sd'"
  by (simp_all add: reschedule_def)

lemma reschedule_same: "reschedule s (co_node_status s) (co_seed s) = s"
  by (simp add: reschedule_def)

lemma coord_inv_reschedule: "coord_inv s \<Longrightarrow> umap_ok n \<Longrightarrow> coord_inv (reschedule s n sd)"
  by (simp add: coord_inv_def triggers_inv_def registry_inv_def)

section \<open>Notifications\<close>

lemma umap_ok_take_executor: "umap_ok nodes \<Longrightarrow> umap_ok (take_executor ip nodes)"
  by (simp add: take_executor_def Let_def)

lemma key_argument_ok:
  assumes "snd sk \<in> known (co_address_map s) b"
    and "\<forall>a \<in> set (addresses_of (co_address_map s) b (snd sk)). 6 \<le> length a"
  shows "\<exists>arg. key_argument s b flag sk = Ok arg"
proof -
  obtain a as where a: "addresses_of (co_address_map s) b (snd sk) = a # as"
    using assms(1) by (auto simp: known_def neq_Nil_conv)
  with assms(2) have "6 \<le> length a" by simp
  then show ?thesis by (simp add: key_argument_def a host_of_def)
qed

lemma res_map_ok: "(\<And>x. x \<in> set xs \<Longrightarrow> \<exists>y. f x = Ok y) \<Longrightarrow> \<exists>ys. res_map f xs = Ok ys"
proof (induction xs)
  case (Cons x xs)
  then obtain y ys where "f x = Ok y" "res_map f xs = Ok ys" by (metis list.set_intros)
  then show ?case by simp
qed simp

lemma package_arguments_ok:
  assumes "action_keys action \<subseteq> known (co_address_map s) b" and "registry_inv s"
  shows "\<exists>args data. package_arguments s b flag action = Ok (args, data)"
proof (cases "batch_values (co_val_map s) (map (object_name b) (act_session_keys action))")
  case None
  have "\<exists>arg. key_argument s b flag sk = Ok arg" if "sk \<in> set (act_session_keys action)" for sk
    by (rule key_argument_ok) (use assms that in \<open>auto simp: action_keys_def registry_inv_def\<close>)
  then obtain args where "res_map (key_argument s b flag) (act_session_keys action) = Ok args"
    using res_map_ok by metis
  then show ?thesis by (simp add: package_arguments_def None)
qed (simp add: package_arguments_def)

lemma map_touch_dom: "k \<in> dom m \<Longrightarrow> map_touch d m k = m"
  by (auto simp: map_touch_def)

lemma schedule_action_ok:
  assumes "action_keys action \<subseteq> known (co_address_map s) (bk_bucket bk)" and "registry_inv s"
    and "bk_bucket bk \<in> dom (co_bucket_app s)" and "0 < ce_io_thread_num env"
  shows "\<exists>out' nodes seed. schedule_action env request bk flag action (out, s) =
    Ok (out', reschedule s nodes seed) \<and> umap_ok nodes"
proof -
  obtain args data where pk: "package_arguments s (bk_bucket bk) flag action = Ok (args, data)"
    using package_arguments_ok [OF assms(1,2)] by blast
  obtain w nodes where pick: "pick_worker data (co_node_status s) = (w, nodes)" by fastforce
  have ok: "umap_ok nodes"
    using pick_worker_ok [OF pick] assms(2) by (simp add: registry_inv_def)
  obtain t seed where rnd: "random_exec_address env w (co_seed s) =
      Ok (get_func_exec_address w (word_of_nat t), seed)"
    using random_exec_address_ok [OF assms(4)] by blast
  note touch = map_touch_dom [OF assms(3)]
  show ?thesis
  proof (cases "w = []")
    case True
    then have "schedule_action env request bk flag action (out, s) =
        Ok (out, reschedule s nodes (co_seed s))"
      using pk pick by (simp add: schedule_action_def Let_def reschedule_def touch)
    with ok show ?thesis by blast
  next
    case False
    then obtain msg where "schedule_action env request bk flag action (out, s) =
        Ok (out @ [msg], reschedule s (take_executor w nodes) seed)"
      using pk pick rnd by (simp add: schedule_action_def Let_def reschedule_def touch)
    with umap_ok_take_executor [OF ok] show ?thesis by blast
  qed
qed

lemma schedule_actions_ok:
  assumes "\<forall>a \<in> set actions. action_keys a \<subseteq> known (co_address_map s) (bk_bucket bk)"
    and "registry_inv s" and "bk_bucket bk \<in> dom (co_bucket_app s)" and "0 < ce_io_thread_num env"
  shows "\<exists>out' nodes seed. res_fold (schedule_action env request bk flag) actions (out, s) =
    Ok (out', reschedule s nodes seed) \<and> umap_ok nodes"
  using assms
proof (induction actions arbitrary: out s)
  case Nil
  then show ?case by (metis registry_inv_def res_fold.simps(1) reschedule_same)
next
  case (Cons a actions)
  obtain out1 n1 sd1 where 1: "schedule_action env request bk flag a (out, s) =
      Ok (out1, reschedule s n1 sd1)" "umap_ok n1"
    using schedule_action_ok [of a s bk env] Cons.prems by (metis list.set_intros(1))
  have "registry_inv (reschedule s n1 sd1)"
    using Cons.prems(2) 1(2) by (simp add: registry_inv_def)
  then obtain out' n sd where "res_fold (schedule_action env request bk flag) actions
      (out1, reschedule s n1 sd1) = Ok (out', reschedule s n sd)" "umap_ok n"
    using Cons.IH [of "reschedule s n1 sd1" out1] Cons.prems by auto
  with 1 show ?case by auto
qed

definition triggers_ok :: "Key set \<Rightarrow> Trigger list \<Rightarrow> bool" where
  "triggers_ok K trs \<longleftrightarrow> (\<forall>tr \<in> set trs. trigger_wf tr \<and> keys_known K (trigger_body tr))"

lemma notify_trigger_ok:
  assumes "trigger_wf tr" and "keys_known (known (co_address_map s) (bk_bucket bk)) (trigger_body tr)"
    and "bk_key bk \<in> known (co_address_map s) (bk_bucket bk)" and "registry_inv s"
    and "bk_bucket bk \<in> dom (co_bucket_app s)" and "0 < ce_io_thread_num env"
  shows "\<exists>tr' names' out' nodes seed.
    notify_trigger env request bk tr (trs, names, out, s) =
      Ok (trs @ [tr'], names', out', reschedule s nodes seed) \<and> umap_ok nodes \<and>
    trigger_wf tr' \<and> keys_known (known (co_address_map s) (bk_bucket bk)) (trigger_body tr')"
proof -
  obtain acts tr' where act: "action_for_new_object (ce_now env) bk tr = (acts, tr')" by fastforce
  have tr': "trigger_wf tr'" "keys_known (known (co_address_map s) (bk_bucket bk)) (trigger_body tr')"
    and keys: "\<forall>a \<in> set acts. action_keys a \<subseteq> known (co_address_map s) (bk_bucket bk)"
    using action_for_new_object_wf [OF assms(1) act] action_for_new_object_known [OF assms(2,3) act]
    by blast+
  obtain out' nodes seed where "res_fold (schedule_action env request bk
      (word_of_int (trigger_option tr + 1))) acts (out, s) = Ok (out', reschedule s nodes seed)"
    "umap_ok nodes"
    using schedule_actions_ok [OF keys assms(4-6)] by blast
  then have "notify_trigger env request bk tr (trs, names, out, s) =
      (if trigger_name tr \<in> set (kn_active_trigger_names request) \<or> acts = []
       then Ok (trs @ [tr'], names, out, reschedule s (co_node_status s) (co_seed s))
       else Ok (trs @ [tr'], if trigger_type tr \<noteq> BY_TIME then names @ [trigger_name tr] else names,
                out', reschedule s nodes seed))"
    using act by (simp add: notify_trigger_def Let_def reschedule_same)
  moreover have "umap_ok (co_node_status s)" using assms(4) by (simp add: registry_inv_def)
  ultimately show ?thesis using tr' \<open>umap_ok nodes\<close> by (metis (no_types, lifting))
qed

lemma notify_fold_ok:
  assumes "triggers_ok (known (co_address_map s) (bk_bucket bk)) trs"
    and "triggers_ok (known (co_address_map s) (bk_bucket bk)) before"
    and "bk_key bk \<in> known (co_address_map s) (bk_bucket bk)" and "registry_inv s"
    and "trs \<noteq> [] \<longrightarrow> bk_bucket bk \<in> dom (co_bucket_app s)" and "0 < ce_io_thread_num env"
  shows "\<exists>trs' names' out' nodes seed.
    res_fold (notify_trigger env request bk) trs (before, names, out, s) =
      Ok (trs', names', out', reschedule s nodes seed) \<and> umap_ok nodes \<and>
    triggers_ok (known (co_address_map s) (bk_bucket bk)) trs' \<and>
    (trs = [] \<longrightarrow> trs' = before)"
  using assms
proof (induction trs arbitrary: before names out s)
  case Nil
  have "umap_ok (co_node_status s)" using Nil.prems(4) by (simp add: registry_inv_def)
  with Nil.prems(2) show ?case by (metis res_fold.simps(1) reschedule_same)
next
  case (Cons tr trs)
  obtain tr' names1 out1 n1 sd1 where 1: "notify_trigger env request bk tr (before, names, out, s) =
      Ok (before @ [tr'], names1, out1, reschedule s n1 sd1)" "umap_ok n1" "trigger_wf tr'"
      "keys_known (known (co_address_map s) (bk_bucket bk)) (trigger_body tr')"
    using notify_trigger_ok [of tr s bk env request before names out] Cons.prems
    by (auto simp: triggers_ok_def)
  have "registry_inv (reschedule s n1 sd1)"
    using Cons.prems(4) 1(2) by (simp add: registry_inv_def)
  then obtain trs' names' out' n sd where "res_fold (notify_trigger env request bk) trs
      (before @ [tr'], names1, out1, reschedule s n1 sd1) = Ok (trs', names', out', reschedule s n sd)"
      "umap_ok n" "triggers_ok (known (co_address_map s) (bk_bucket bk)) trs'"
    using Cons.IH [of "reschedule s n1 sd1" "before @ [tr']" names1 out1] Cons.prems 1(3,4)
    by (auto simp: triggers_ok_def)
  with 1(1) show ?case by auto
qed

lemma notify_triggers_ok:
  assumes "coord_inv s" and "bk_key bk \<in> known (co_address_map s) (bk_bucket bk)"
    and "0 < ce_io_thread_num env"
  shows "\<exists>out s'. notify_triggers env request bk s = Ok (out, s') \<and> coord_inv s'"
proof -
  let ?b = "bk_bucket bk" and ?K = "known (co_address_map s) (bk_bucket bk)"
  let ?trs = "map_at [] (co_triggers s) ?b"
  have inv: "triggers_inv s" "registry_inv s" using assms(1) by (simp_all add: coord_inv_def)
  have trs: "triggers_ok ?K ?trs" "triggers_ok ?K []" "?trs \<noteq> [] \<longrightarrow> ?b \<in> dom (co_bucket_app s)"
    using inv(1) by (simp_all add: triggers_inv_def triggers_ok_def)
  obtain trs' names out n sd where f: "res_fold (notify_trigger env request bk) ?trs ([], [], [], s) =
      Ok (trs', names, out, reschedule s n sd)" "umap_ok n" "triggers_ok ?K trs'"
      "?trs = [] \<longrightarrow> trs' = []"
    using notify_fold_ok [OF trs(1,2) assms(2) inv(2) trs(3) assms(3)] by blast
  let ?s1 = "(reschedule s n sd)\<lparr>co_triggers := (co_triggers s)(?b \<mapsto> trs')\<rparr>"
  obtain syncs s2 where sync: "sync_nodes bk names ?s1 = (syncs, s2)" by fastforce
  have "\<exists>bn. s2 = ?s1\<lparr>co_bucket_node := bn\<rparr>"
  proof (cases "names = []")
    case True
    then show ?thesis
      using sync by (intro exI [of _ "co_bucket_node ?s1"]) (simp add: sync_nodes_def)
  qed (use sync in \<open>auto simp: sync_nodes_def Let_def\<close>)
  then obtain bn where s2: "s2 = ?s1\<lparr>co_bucket_node := bn\<rparr>" ..
  have "notify_triggers env request bk s = Ok (out @ syncs, s2)"
    using f(1) sync by (simp add: notify_triggers_def)
  moreover have "triggers_inv s2"
    using inv(1) f(3,4) trs(3) by (auto simp: s2 triggers_inv_def triggers_ok_def)
  moreover have "registry_inv s2" using inv(2) f(2) by (simp add: s2 registry_inv_def)
  ultimately show ?thesis by (auto simp: coord_inv_def)
qed

lemma known_update: "known (update_address bk ip m) b = known m b \<union> (if b = bk_bucket bk then {bk_key bk} else {})"
  by (auto simp: known_def)

lemma record_object_ok:
  assumes "coord_inv s" and "6 \<le> length ip"
  shows "\<exists>s'. record_object bk ip s = Ok s' \<and> coord_inv s' \<and>
    bk_key bk \<in> known (co_address_map s') (bk_bucket bk)"
proof -
  have "keys_known (known (update_address bk ip m) b) body" if "keys_known (known m b) body" for m b body
    by (rule keys_known_mono [OF that]) (auto simp: known_update)
  moreover have "\<exists>host. host_of ip = Ok host" using assms(2) by (simp add: host_of_def)
  ultimately show ?thesis
    using assms
    by (auto simp: record_object_def coord_inv_def triggers_inv_def registry_inv_def known_update)
qed

definition notify_wf :: "KeyNotifyRequest \<Rightarrow> bool" where
  "notify_wf request \<longleftrightarrow>
     (\<forall>a \<in> set (kn_addresses request). bka_ips a \<noteq> [] \<and> 6 \<le> length (hd (bka_ips a)))"

lemma notify_addresses_ok:
  assumes "coord_inv s" and "\<forall>a \<in> set addrs. bka_ips a \<noteq> [] \<and> 6 \<le> length (hd (bka_ips a))"
    and "0 < ce_io_thread_num env"
  shows "\<exists>out s'. notify_addresses env request addrs s = Ok (out, s') \<and> coord_inv s'"
  using assms
proof (induction addrs arbitrary: s)
  case (Cons a addrs)
  let ?bk = "get_bucket_key_from_addr a"
  obtain ip ips where ips: "bka_ips a = ip # ips" "6 \<le> length ip"
    using Cons.prems(2) by (auto simp: neq_Nil_conv)
  obtain s1 where s1: "record_object ?bk ip s = Ok s1" "coord_inv s1"
      "bk_key ?bk \<in> known (co_address_map s1) (bk_bucket ?bk)"
    using record_object_ok [OF Cons.prems(1) ips(2)] by blast
  let ?s2 = "if bka_payload a \<noteq> [] then
      s1\<lparr>co_val_map := (co_val_map s1)(shm_key_name ?bk \<mapsto> bka_payload a)\<rparr> else s1"
  have "coord_inv ?s2" "bk_key ?bk \<in> known (co_address_map ?s2) (bk_bucket ?bk)"
    using s1(2,3) by (auto simp: coord_inv_def triggers_inv_def registry_inv_def)
  then obtain out s3 where s3: "notify_triggers env request ?bk ?s2 = Ok (out, s3)" "coord_inv s3"
    using notify_triggers_ok Cons.prems(3) by blast
  obtain outs s4 where s4: "notify_addresses env request addrs s3 = Ok (outs, s4)" "coord_inv s4"
    using Cons.IH [OF s3(2)] Cons.prems(2,3) by auto
  show ?case
  proof (cases "bka_payload a = [] \<and> co_bucket_app s (bk_bucket ?bk) = None")
    case True
    then show ?thesis using ips(1) Cons.prems(1) by simp
  next
    case False
    then have "notify_addresses env request (a # addrs) s = Ok (out @ outs, s4)"
      by (simp only: notify_addresses.simps Let_def ips(1) nth_res_simps res_bind.simps if_False
          s1(1) s3(1) s4(1) prod.case)
    with s4(2) show ?thesis by blast
  qed
qed simp

lemma notify_handler_ok:
  assumes "coord_inv s" and "notify_wf request" and "0 < ce_io_thread_num env"
  shows "\<exists>out s'. notify_handler env request s = Ok (out, s') \<and> coord_inv s'"
  using notify_addresses_ok [OF assms(1) _ assms(3)] assms(2)
  by (simp add: notify_handler_def notify_wf_def)

end
