(* ===== verification/Ph_Coordinator.thy ===== *)
theory Ph_Coordinator
  imports Ph_Coord_Inv
begin

text \<open>
  The event loop of \<^verbatim>\<open>src/coordinator/coordinator.cpp\<close> over the handlers, the states it can reach,
  and two properties of all of them: the invariant holds and no handler gets stuck. The counters of
  the periodic report are only logged and have no part in the state.
\<close>

section \<open>The event loop\<close>

text \<open>One message of one of the nine sockets that \<^verbatim>\<open>run\<close> polls.\<close>

datatype coord_input =
    In_Notify KeyNotifyRequest
  | In_Query KeyQueryRequest
  | In_Bucket BucketOperationRequest
  | In_Trigger TriggerOperationRequest
  | In_Status UpdateStatusMessage
  | In_Create string
  | In_App AppRegistration
  | In_Call FunctionCall
  | In_Forward FunctionCall

definition coord_handle ::
  "coord_env \<Rightarrow> coord_input \<Rightarrow> CoordState \<Rightarrow> (send list \<times> CoordState) res option" where
  "coord_handle env input s =
     (case input of
        In_Notify request \<Rightarrow> Some (notify_handler env request s)
      | In_Query request \<Rightarrow> Some (Ok (query_handler request s))
      | In_Bucket request \<Rightarrow> Some (Ok (bucket_op_handler request s))
      | In_Trigger request \<Rightarrow> Some (trigger_op_handler env request s)
      | In_Status msg \<Rightarrow> Some (Ok ([], update_handler env msg s))
      | In_Create serialized \<Rightarrow> Some (Ok ([], s))
      | In_App appRegist \<Rightarrow> Some (app_register_handler env appRegist s)
      | In_Call call \<Rightarrow> func_call_handler env call s
      | In_Forward call \<Rightarrow> func_call_handler env call s)"

text \<open>
  One round of the loop takes at most one message from each socket, in the order of the sockets; its
  argument is the list of those messages.
\<close>

fun coord_round ::
  "coord_env \<Rightarrow> coord_input list \<Rightarrow> CoordState \<Rightarrow> (send list \<times> CoordState) res option" where
  "coord_round env [] s = Some (Ok ([], s))"
| "coord_round env (input # rest) s =
     (case coord_handle env input s of
        None \<Rightarrow> None
      | Some (Fault e) \<Rightarrow> Some (Fault e)
      | Some (Ok (out, s')) \<Rightarrow>
          (case coord_round env rest s' of
             None \<Rightarrow> None
           | Some (Fault e) \<Rightarrow> Some (Fault e)
           | Some (Ok (outs, s'')) \<Rightarrow> Some (Ok (out @ outs, s''))))"

text \<open>
  What a message has to satisfy for its handler not to leave the defined behaviour of C++: a
  notification names an address of the form \<^verbatim>\<open>tcp://...\<close> for each object, a trigger to be
  added is of a known type, and the description of a dependency has the numbers that its type needs.
\<close>

definition dependency_wf :: "DataDependency \<Rightarrow> bool" where
  "dependency_wf d \<longleftrightarrow>
     (dd_type d \<noteq> DIRECT \<longrightarrow> dd_tgt_functions d \<noteq> []) \<and>
     (dd_type d = K_OUT_OF_N \<longrightarrow>
        (case split (dd_description d) CHR '','' of
           k # n # _ \<Rightarrow> is_ok (stoi k) \<and> is_ok (stoi n) | _ \<Rightarrow> False)) \<and>
     (dd_type d = PERIODIC \<longrightarrow> is_ok (stoi (dd_description d)))"

fun known_primitive :: "PrimitiveType \<Rightarrow> bool" where
  "known_primitive (UNKNOWN_PRIMITIVE _) = False"
| "known_primitive _ = True"

fun input_wf :: "coord_input \<Rightarrow> bool" where
  "input_wf (In_Notify r) = notify_wf r"
| "input_wf (In_Trigger r) = (tor_operation_type r = ADD_TRIGGER \<longrightarrow> known_primitive (tor_primitive_type r))"
| "input_wf (In_App r) = list_all dependency_wf (apr_dependencies r)"
| "input_wf _ = True"

text \<open>The states of a thread whose schedulers have \<open>io\<close> input/output threads.\<close>

inductive coord_reachable :: "nat \<Rightarrow> CoordState \<Rightarrow> bool" for io where
  start: "coord_reachable io (init_coord seed)"
| step: "coord_reachable io s \<Longrightarrow> ce_io_thread_num env = io \<Longrightarrow> input_wf input \<Longrightarrow>
    coord_handle env input s = Some (Ok (out, s')) \<Longrightarrow> coord_reachable io s'"

inductive_cases coord_reachableE: "coord_reachable io s"

section \<open>Every handler keeps the invariant\<close>

lemma registry_inv_create: "registry_inv s \<Longrightarrow> registry_inv (create_bucket a b s)"
  by (auto simp: registry_inv_def create_bucket_def split: if_splits)

lemma coord_inv_create: "coord_inv s \<Longrightarrow> coord_inv (create_bucket a b s)"
  using registry_inv_create [of s a b]
  by (auto simp: coord_inv_def triggers_inv_def create_bucket_def)

lemma coord_inv_delete: "coord_inv s \<Longrightarrow> coord_inv (delete_bucket a b s)"
  by (auto simp: coord_inv_def triggers_inv_def registry_inv_def delete_bucket_def map_at_erase
      split: if_splits)

lemma coord_inv_push:
  assumes "coord_inv s" and "b \<in> dom (co_bucket_app s)" and "trigger_wf tr"
    and "\<And>K. keys_known K (trigger_body tr)"
  shows "coord_inv (push_trigger b tr s)"
  using assms by (auto simp: coord_inv_def triggers_inv_def registry_inv_def push_trigger_def)

lemma bucket_op_handler_inv:
  "coord_inv s \<Longrightarrow> bucket_op_handler request s = (out, s') \<Longrightarrow> coord_inv s'"
  by (cases "bor_operation_type request")
    (auto simp: bucket_op_handler_def Let_def coord_inv_create coord_inv_delete split: if_splits)

lemma add_trigger_inv:
  assumes "coord_inv s" and "tor_bucket_name request \<in> dom (co_bucket_app s)"
    and "add_trigger env request s = Ok (es, s')"
  shows "coord_inv s'"
proof -
  obtain tr where tr: "gen_trigger_pointer (ce_codec env) (ce_now env) (tor_primitive_type request)
      (tor_trigger_name request) (tor_primitive request) = Some tr"
    and s': "s' = push_trigger (tor_bucket_name request)
      (set_trigger_option (sint (tor_trigger_option request)) tr) s"
    using assms(3) by (auto simp: add_trigger_def Let_def split: option.splits)
  have "trigger_wf (set_trigger_option n tr)" "trigger_body (set_trigger_option n tr) = trigger_body tr" for n
    using gen_trigger_pointer_wf [OF tr] by (simp_all add: trigger_wf_def set_trigger_option_def)
  then show ?thesis
    unfolding s' using gen_trigger_pointer_known [OF tr] by (intro coord_inv_push assms) simp_all
qed

lemma triggers_inv_subset:
  assumes "triggers_inv s" and "set trs \<subseteq> set (map_at [] (co_triggers s) b)"
  shows "triggers_inv (s\<lparr>co_triggers := (co_triggers s)(b \<mapsto> trs)\<rparr>)"
proof -
  have "map_at [] (co_triggers s) b \<noteq> []" if "trs \<noteq> []"
    using assms(2) that by (cases trs) auto
  with assms show ?thesis unfolding triggers_inv_def by simp blast
qed

lemma delete_trigger_inv:
  assumes "coord_inv s" and "delete_trigger request s = (found, s')"
  shows "coord_inv s'"
proof -
  have "triggers_inv s'"
    using assms triggers_inv_subset [of s] by (auto simp: delete_trigger_def Let_def coord_inv_def)
  then show ?thesis
    using assms by (auto simp: delete_trigger_def Let_def coord_inv_def registry_inv_def)
qed

lemma trigger_op_handler_state:
  assumes "trigger_op_handler env request s = Ok (out, s')"
  shows "s' = s \<or>
    (\<exists>es. tor_bucket_name request \<in> dom (co_bucket_app s) \<and> add_trigger env request s = Ok (es, s')) \<or>
    (\<exists>found. delete_trigger request s = (found, s'))"
proof (cases "tor_operation_type request")
  case ADD_TRIGGER
  then show ?thesis
    using assms by (cases "add_trigger env request s") (auto simp: trigger_op_handler_def Let_def split: if_splits)
next
  case DELETE_TRIGGER
  then show ?thesis
    using assms by (cases "delete_trigger request s") (auto simp: trigger_op_handler_def Let_def split: if_splits)
qed (use assms in \<open>simp add: trigger_op_handler_def Let_def\<close>)

lemma trigger_op_handler_inv:
  assumes "coord_inv s" and "trigger_op_handler env request s = Ok (out, s')"
  shows "coord_inv s'"
  using trigger_op_handler_state [OF assms(2)] add_trigger_inv [OF assms(1)]
    delete_trigger_inv [OF assms(1)] assms(1) by blast

lemma new_wf:
  "trigger_wf (new_BySet f n (uset_of ks))" "trigger_wf (new_Redundant f n j m)"
  "trigger_wf (new_ByTime now f n w)"
  by (simp_all add: trigger_wf_def new_BySet_def new_Redundant_def new_ByTime_def new_trigger_def)

lemma register_dependency_inv:
  assumes "coord_inv s" and "register_dependency env app dep s = Ok (e, s')"
  shows "coord_inv s'"
proof -
  obtain tgt where tgt: "nth_res (dd_tgt_functions dep) 0 = Ok tgt"
    using assms(2) by (auto simp: register_dependency_def)
  let ?b = "''b_'' @ tgt" and ?s1 = "create_bucket app (''b_'' @ tgt) s"
  have inv: "coord_inv ?s1" "coord_inv (create_bucket app ?b ?s1)"
    and dom: "?b \<in> dom (co_bucket_app ?s1)" "?b \<in> dom (co_bucket_app (create_bucket app ?b ?s1))"
    using assms(1) by (simp_all add: coord_inv_create) (simp_all add: create_bucket_def)
  consider (none) "s' = ?s1"
    | (set) ks n where "s' = push_trigger ?b (new_BySet tgt n (uset_of ks)) ?s1"
    | (red) n j m where "s' = push_trigger ?b (new_Redundant tgt n j m) ?s1"
    | (time) n w where "s' = push_trigger ?b (new_ByTime (ce_now env) tgt n w) (create_bucket app ?b ?s1)"
    using assms(2) tgt
    by (auto simp: register_dependency_def Let_def split: DependencyType.splits)
  then show ?thesis
  proof cases
    case none
    then show ?thesis using inv(1) by simp
  next
    case set
    show ?thesis unfolding set
      by (rule coord_inv_push [OF inv(1) dom(1)]) (simp_all add: new_wf fresh_known)
  next
    case red
    show ?thesis unfolding red
      by (rule coord_inv_push [OF inv(1) dom(1)]) (simp_all add: new_wf fresh_known)
  next
    case time
    show ?thesis unfolding time
      by (rule coord_inv_push [OF inv(2) dom(2)]) (simp_all add: new_wf fresh_known)
  qed
qed

lemma app_register_handler_inv:
  assumes "coord_inv s" and "app_register_handler env reg s = Ok (out, s')"
  shows "coord_inv s'"
proof -
  let ?msg = "empty_update\<lparr>uc_ip := ce_private_ip env, uc_thread_id := ce_thread_id env,
      uc_app_name := apr_app_name reg, uc_msg_type := 0, uc_functions := apr_functions reg\<rparr>"
  obtain msg where f: "res_fold (app_dependency env (apr_app_name reg)) (apr_dependencies reg) (?msg, s) =
      Ok (msg, s')"
    using assms(2) by (auto simp: app_register_handler_def Let_def)
  have "coord_inv (snd (msg, s'))"
    by (rule res_fold_invariant [where P = "\<lambda>acc. coord_inv (snd acc)", OF f])
      (use assms(1) register_dependency_inv in
        \<open>auto simp: app_dependency_def split: prod.splits if_splits\<close>)
  then show ?thesis by simp
qed

lemma update_handler_inv: "coord_inv s \<Longrightarrow> coord_inv (update_handler env msg s)"
  by (simp add: coord_inv_def triggers_inv_def registry_inv_def update_handler_def Let_def)

lemma query_handler_state: "query_handler request s = (out, s') \<Longrightarrow> s' = s"
  by (auto simp: query_handler_def split: prod.splits)

lemma func_call_handler_state:
  "func_call_handler env call s = Some (Ok (out, s')) \<Longrightarrow> \<exists>seed. s' = s\<lparr>co_seed := seed\<rparr>"
  by (auto simp: func_call_handler_def split: prod.splits option.splits res.splits if_splits)

lemma coord_inv_seed: "coord_inv (s\<lparr>co_seed := seed\<rparr>) \<longleftrightarrow> coord_inv s"
  by (simp add: coord_inv_def triggers_inv_def registry_inv_def)

lemma coord_handle_inv:
  assumes "coord_inv s" and "coord_handle env input s = Some (Ok (out, s'))"
    and "0 < ce_io_thread_num env" and "\<And>r. input = In_Notify r \<Longrightarrow> notify_wf r"
  shows "coord_inv s'"
proof (cases input)
  case (In_Notify r)
  then show ?thesis
    using notify_handler_ok [OF assms(1) assms(4) assms(3)] assms(2) by (auto simp: coord_handle_def)
next
  case (In_Query r)
  then show ?thesis using assms(1,2) query_handler_state by (auto simp: coord_handle_def)
next
  case (In_Bucket r)
  then show ?thesis using assms(2) bucket_op_handler_inv [OF assms(1)] by (auto simp: coord_handle_def)
next
  case (In_Trigger r)
  then show ?thesis using assms(2) trigger_op_handler_inv [OF assms(1)] by (auto simp: coord_handle_def)
next
  case (In_Status m)
  then show ?thesis using assms(2) update_handler_inv [OF assms(1)] by (auto simp: coord_handle_def)
next
  case (In_App r)
  then show ?thesis using assms(2) app_register_handler_inv [OF assms(1)] by (auto simp: coord_handle_def)
next
  case (In_Call c)
  then show ?thesis using assms(1,2) func_call_handler_state [of env c s out s']
    by (auto simp: coord_handle_def coord_inv_seed)
next
  case (In_Forward c)
  then show ?thesis using assms(1,2) func_call_handler_state [of env c s out s']
    by (auto simp: coord_handle_def coord_inv_seed)
qed (use assms in \<open>auto simp: coord_handle_def\<close>)

lemma coord_reachable_inv:
  assumes "coord_reachable io s" and "0 < io"
  shows "coord_inv s"
  using assms(1)
proof (induction rule: coord_reachable.induct)
  case (step s env input out s')
  then show ?case using assms(2) by (intro coord_handle_inv [of s env input out s']) auto
qed (rule coord_inv_init)

section \<open>Every handler returns\<close>

lemma known_primitive_gen: "known_primitive type \<Longrightarrow> \<exists>tr. gen_trigger_pointer pb now type name ser = Some tr"
  by (cases type) (auto simp: gen_trigger_pointer_def split: prod.splits)

lemma trigger_op_handler_ok:
  assumes "tor_operation_type r = ADD_TRIGGER \<longrightarrow> known_primitive (tor_primitive_type r)"
  shows "\<exists>out s'. trigger_op_handler env r s = Ok (out, s')"
proof (cases "tor_operation_type r")
  case ADD_TRIGGER
  then obtain tr where "gen_trigger_pointer (ce_codec env) (ce_now env) (tor_primitive_type r)
      (tor_trigger_name r) (tor_primitive r) = Some tr"
    using assms known_primitive_gen by blast
  then obtain es s' where "add_trigger env r s = Ok (es, s')"
    by (simp add: add_trigger_def Let_def)
  then show ?thesis using ADD_TRIGGER by (simp add: trigger_op_handler_def Let_def)
next
  case DELETE_TRIGGER
  then show ?thesis
    by (cases "delete_trigger r s") (simp add: trigger_op_handler_def Let_def)
qed (simp add: trigger_op_handler_def Let_def)

lemma register_dependency_ok:
  assumes "dependency_wf d" and "dd_type d \<noteq> DIRECT"
  shows "\<exists>e s'. register_dependency env app d s = Ok (e, s')"
proof -
  obtain tgt tgts where "dd_tgt_functions d = tgt # tgts"
    using assms by (auto simp: dependency_wf_def neq_Nil_conv)
  then show ?thesis
    using assms
    by (cases "dd_type d")
      (auto simp: register_dependency_def Let_def dependency_wf_def is_ok_iff split: list.splits)
qed

lemma app_dependency_ok:
  assumes "dependency_wf d"
  shows "\<exists>acc'. app_dependency env app d acc = Ok acc'"
proof (cases "dd_type d = DIRECT")
  case False
  obtain msg s where acc: "acc = (msg, s)" by fastforce
  obtain e s' where "register_dependency env app d s = Ok (e, s')"
    using register_dependency_ok [OF assms False] by blast
  with False show ?thesis by (simp add: app_dependency_def acc)
qed (simp add: app_dependency_def split: prod.splits)

lemma app_register_handler_ok:
  assumes "list_all dependency_wf (apr_dependencies r)"
  shows "\<exists>out s'. app_register_handler env r s = Ok (out, s')"
proof -
  have "\<exists>acc'. res_fold (app_dependency env (apr_app_name r)) (apr_dependencies r) acc = Ok acc' \<and> True" for acc
    by (rule res_fold_ok) (use assms app_dependency_ok in \<open>auto simp: list_all_iff\<close>)
  then obtain acc where "res_fold (app_dependency env (apr_app_name r)) (apr_dependencies r)
      (empty_update\<lparr>uc_ip := ce_private_ip env, uc_thread_id := ce_thread_id env,
        uc_app_name := apr_app_name r, uc_msg_type := 0, uc_functions := apr_functions r\<rparr>, s) = Ok acc"
    by blast
  then show ?thesis by (cases acc) (simp add: app_register_handler_def Let_def)
qed

lemma schedule_call_ok:
  assumes "umap_ok nodes"
  shows "\<exists>sched seed'. schedule_call env call nodes seed = Some (Ok (sched, seed'))"
proof (cases "1 < length (fc_requests call)")
  case True
  obtain tot av mx node where scan: "scan_nodes (fc_source call) nodes = (tot, av, mx, node)"
    by (metis surj_pair)
  consider "int (length (fc_requests call)) \<le> mx" | "tot < int (length (fc_requests call))"
    | "mx < int (length (fc_requests call))" "int (length (fc_requests call)) \<le> tot" by linarith
  then have "\<exists>sched. schedule_batch call nodes = Some (Ok sched)"
  proof cases
    case 3
    from schedule_batch_split [OF assms True scan 3] show ?thesis by blast
  qed (use scan in \<open>auto simp: schedule_batch_def Let_def\<close>)
  with True show ?thesis by (auto simp: schedule_call_def)
next
  case False
  then show ?thesis by (cases "schedule_single env call nodes seed") (simp add: schedule_call_def)
qed

lemma func_call_handler_ok:
  assumes "umap_ok (co_node_status s)" and "0 < ce_io_thread_num env"
  shows "\<exists>out s'. func_call_handler env call s = Some (Ok (out, s'))"
proof -
  obtain call' seed where gs: "give_session env call (co_seed s) = (call', seed)" by fastforce
  obtain sched seed' where sc: "schedule_call env call' (co_node_status s) seed = Some (Ok (sched, seed'))"
    using schedule_call_ok [OF assms(1)] by blast
  show ?thesis
  proof (cases "sched = []")
    case True
    with gs sc show ?thesis by (simp add: func_call_handler_def)
  next
    case False
    from func_call_handler_scheduled [OF gs sc False assms(2)] show ?thesis by blast
  qed
qed

text \<open>
  Property C4: a coordinator never gets stuck. In every state it can reach, and for every well-formed message,
  the handler of the message returns: no loop runs forever, no empty set of addresses is
  dereferenced and no string function throws. The state after it is again one it can reach.
\<close>

theorem coordinator_returns:
  assumes "coord_reachable io s" and "0 < io" and "ce_io_thread_num env = io" and "input_wf input"
  shows "\<exists>out s'. coord_handle env input s = Some (Ok (out, s')) \<and> coord_reachable io s'"
proof -
  have inv: "coord_inv s" by (rule coord_reachable_inv [OF assms(1,2)])
  have nodes: "umap_ok (co_node_status s)" using inv by (simp add: coord_inv_def registry_inv_def)
  have io: "0 < ce_io_thread_num env" using assms(2,3) by simp
  have "\<exists>out s'. coord_handle env input s = Some (Ok (out, s'))"
  proof (cases input)
    case (In_Notify r)
    then show ?thesis using notify_handler_ok [OF inv _ io, of r] assms(4) by (auto simp: coord_handle_def)
  next
    case (In_Query r)
    then show ?thesis by (cases "query_handler r s") (simp add: coord_handle_def)
  next
    case (In_Bucket r)
    then show ?thesis by (cases "bucket_op_handler r s") (simp add: coord_handle_def)
  next
    case (In_Trigger r)
    then show ?thesis using trigger_op_handler_ok assms(4) by (simp add: coord_handle_def)
  next
    case (In_App r)
    then show ?thesis using app_register_handler_ok assms(4) by (simp add: coord_handle_def)
  next
    case (In_Call c)
    then show ?thesis using func_call_handler_ok [OF nodes io] by (simp add: coord_handle_def)
  next
    case (In_Forward c)
    then show ?thesis using func_call_handler_ok [OF nodes io] by (simp add: coord_handle_def)
  qed (simp_all add: coord_handle_def)
  with assms show ?thesis by (blast intro: coord_reachable.step)
qed

theorem coordinator_returns_witness:
  "coord_reachable 2 (init_coord 7) \<and> input_wf (In_Call (ex_call [''f''])) \<and>
   (\<exists>out s'. coord_handle ex_env (In_Call (ex_call [''f''])) (init_coord 7) = Some (Ok (out, s')) \<and>
      coord_reachable 2 s')"
proof -
  have start: "coord_reachable 2 (init_coord 7)" by (rule coord_reachable.start)
  from coordinator_returns [OF this, of ex_env "In_Call (ex_call [''f''])"] start
  show ?thesis by (simp add: ex_env_def)
qed

text \<open>
  Property C5: in every reachable state of a coordinator the registry is consistent: a bucket that belongs to
  an application is in the application's list of buckets, a bucket with triggers belongs to an
  application, no node is listed twice, and every stored trigger has the type of its class.
\<close>

theorem coordinator_registry:
  assumes "coord_reachable io s" and "0 < io"
  shows "(\<forall>b a. co_bucket_app s b = Some a \<longrightarrow> b \<in> set (map_at [] (co_app_buckets s) a)) \<and>
    (\<forall>b. map_at [] (co_triggers s) b \<noteq> [] \<longrightarrow> co_bucket_app s b \<noteq> None) \<and>
    distinct (map fst (co_node_status s)) \<and>
    (\<forall>b. \<forall>tr \<in> set (map_at [] (co_triggers s) b). trigger_type tr = body_type (trigger_body tr))"
  using coord_reachable_inv [OF assms]
  by (auto simp: coord_inv_def triggers_inv_def registry_inv_def trigger_wf_def dom_def)

theorem coordinator_registry_witness:
  "let r = \<lparr>bor_operation_type = CREATE_BUCKET, bor_app_name = ''app'', bor_bucket_name = ''b'',
            bor_request_id = [], bor_response_address = []\<rparr>;
       s = snd (bucket_op_handler r (init_coord 7))
   in co_bucket_app s ''b'' = Some ''app'' \<and> ''b'' \<in> set (map_at [] (co_app_buckets s) ''app'')"
proof -
  let ?r = "\<lparr>bor_operation_type = CREATE_BUCKET, bor_app_name = ''app'', bor_bucket_name = ''b'',
            bor_request_id = [], bor_response_address = []\<rparr>"
  obtain out s where h: "bucket_op_handler ?r (init_coord 7) = (out, s)" by fastforce
  have "coord_reachable 2 s"
    by (rule coord_reachable.step [OF coord_reachable.start [of 2 7], of ex_env "In_Bucket ?r" out])
      (simp_all add: ex_env_def coord_handle_def h)
  moreover have "co_bucket_app s ''b'' = Some ''app''"
    using h by (auto simp: bucket_op_handler_def init_coord_def create_bucket_def Let_def)
  ultimately show ?thesis using coordinator_registry [of 2 s] unfolding h Let_def by simp
qed

end
