(* ===== verification/Ph_Coordinator_Laws.thy ===== *)
theory Ph_Coordinator_Laws
  imports Ph_Coordinator
begin

text \<open>
  What the coordinator's handlers do for their clients: which node gets a triggered call, that a
  reported object can be found, and what registrations and deletions leave behind.
\<close>

section \<open>Data-driven calls\<close>

lemma avail_take: "avail (take_executor w nodes) = (avail nodes)(w := avail nodes w - 1)"
  by (simp add: fun_eq_iff avail_def take_executor_def Let_def)

text \<open>
  Property C20: what happens to a triggered call. If some node has a free executor, the call is sent, once, to
  a node with a free executor, preferably one that has data of the call, and that node has one free
  executor less from then on. If no node has one, nothing is sent: the call is lost, although its
  trigger has fired.
\<close>

theorem schedule_action_spec:
  assumes "package_arguments s (bk_bucket bk) flag action = Ok (args, data)"
    and "umap_ok (co_node_status s)" and "[] \<notin> set data" and "[] \<notin> fst ` set (co_node_status s)"
    and "0 < ce_io_thread_num env"
    and "schedule_action env request bk flag action (out, s) = Ok (out', s')"
  shows "((\<forall>ip. avail (co_node_status s) ip \<le> 0) \<longrightarrow>
      out' = out \<and> avail (co_node_status s') = avail (co_node_status s)) \<and>
    ((\<exists>ip. 0 < avail (co_node_status s) ip) \<longrightarrow>
      (\<exists>w call sd. out' = out @ [sd] \<and> call_sent env w call sd \<and> 0 < avail (co_node_status s) w \<and>
         fc_requests call = [\<lparr>fr_name = act_function action, fr_arguments = args\<rparr>] \<and>
         fc_session_id call = bk_session bk \<and>
         avail (co_node_status s') =
           (avail (co_node_status s))(w := avail (co_node_status s) w - 1) \<and>
         ((\<exists>ip \<in> set data. 0 < avail (co_node_status s) ip) \<longrightarrow> w \<in> set data)))"
proof -
  obtain w nodes where pick: "pick_worker data (co_node_status s) = (w, nodes)" by fastforce
  note ok = pick_worker_ok [OF pick] and spec = pick_worker_spec [OF pick assms(2-4)]
  obtain t seed where rnd: "random_exec_address env w (co_seed s) =
      Ok (get_func_exec_address w (word_of_nat t), seed)" and t: "t < ce_io_thread_num env"
    using random_exec_address_ok [OF assms(5)] by blast
  show ?thesis
  proof (cases "w = []")
    case True
    then have "out' = out" "avail (co_node_status s') = avail (co_node_status s)"
      using assms(1,6) pick ok by (auto simp: schedule_action_def Let_def)
    moreover have "\<forall>ip. avail (co_node_status s) ip \<le> 0" using spec True by blast
    ultimately show ?thesis by (simp add: not_less)
  next
    case False
    then obtain call where call: "out' = out @ [Send (get_func_exec_address w (word_of_nat t)) (Call_Msg call)]"
      "fc_requests call = [\<lparr>fr_name = act_function action, fr_arguments = args\<rparr>]"
      "fc_session_id call = bk_session bk" "co_node_status s' = take_executor w nodes"
      using assms(1,6) pick rnd by (auto simp: schedule_action_def Let_def)
    have "avail (co_node_status s') = (avail (co_node_status s))(w := avail (co_node_status s) w - 1)"
      using ok by (simp add: call(4) avail_take)
    moreover have "0 < avail (co_node_status s) w"
      "(\<exists>ip \<in> set data. 0 < avail (co_node_status s) ip) \<longrightarrow> w \<in> set data"
      using spec False by blast+
    moreover have "call_sent env w call (Send (get_func_exec_address w (word_of_nat t)) (Call_Msg call))"
      using t by (auto simp: call_sent_def)
    ultimately show ?thesis using call by (metis not_le)
  qed
qed

definition ex_action :: TriggerAction where
  "ex_action = \<lparr>act_function = ''g'', act_session_keys = [(''s'', ''k'')]\<rparr>"

definition ex_notify_state :: "int \<Rightarrow> CoordState" where
  "ex_notify_state n = (ex_coord [(''n1'', n)])\<lparr>co_address_map := [''b'' \<mapsto> [''k'' \<mapsto> [''tcp://n1:7'']]]\<rparr>"

theorem schedule_action_spec_witness:
  "let bk = \<lparr>bk_bucket = ''b'', bk_key = ''k'', bk_session = ''s''\<rparr>;
       request = \<lparr>kn_response_address = [], kn_addresses = [], kn_active_trigger_names = [], kn_request_id = []\<rparr>
   in (\<exists>sd s'. schedule_action ex_env request bk 1 ex_action ([], ex_notify_state 1) = Ok ([sd], s') \<and>
        avail (co_node_status s') ''n1'' = 0) \<and>
      (\<exists>s'. schedule_action ex_env request bk 1 ex_action ([], ex_notify_state 0) = Ok ([], s'))"
proof -
  let ?bk = "\<lparr>bk_bucket = ''b'', bk_key = ''k'', bk_session = ''s''\<rparr>"
  let ?r = "\<lparr>kn_response_address = [], kn_addresses = [], kn_active_trigger_names = [], kn_request_id = []\<rparr>"
  have st: "co_node_status (ex_notify_state n) = ex_nodes [(''n1'', n)]" for n
    by (simp add: ex_notify_state_def ex_coord_def)
  have nodes: "umap_ok (ex_nodes [(''n1'', n)])" "[] \<notin> fst ` set (ex_nodes [(''n1'', n)])"
    "avail (ex_nodes [(''n1'', n)]) ip = (if ip = ''n1'' then n else 0)" for n ip
    by (simp_all add: ex_nodes_def avail_def umap_at_def map_at_def new_NodeStatus_def)
  have pk: "\<exists>args. package_arguments (ex_notify_state n) (bk_bucket ?bk) 1 ex_action = Ok (args, [''n1''])" for n
    by (simp add: package_arguments_def ex_action_def ex_notify_state_def ex_coord_def init_coord_def
        key_argument_def addresses_of_def host_of_def uset_of_def uset_insert_def)
  have sched: "\<exists>out' s'. schedule_action ex_env ?r ?bk 1 ex_action ([], ex_notify_state n) = Ok (out', s')" for n
    using pk [of n] by (auto simp: schedule_action_def Let_def random_exec_address_def ex_env_def
        split: prod.splits)
  have io: "0 < ce_io_thread_num ex_env" by (simp add: ex_env_def)
  obtain args1 where p1: "package_arguments (ex_notify_state 1) (bk_bucket ?bk) 1 ex_action = Ok (args1, [''n1''])"
    using pk by (rule exE)
  obtain args0 where p0: "package_arguments (ex_notify_state 0) (bk_bucket ?bk) 1 ex_action = Ok (args0, [''n1''])"
    using pk by (rule exE)
  obtain out1 s1 where s1: "schedule_action ex_env ?r ?bk 1 ex_action ([], ex_notify_state 1) = Ok (out1, s1)"
    using sched [of 1] by blast
  obtain out0 s0 where s0: "schedule_action ex_env ?r ?bk 1 ex_action ([], ex_notify_state 0) = Ok (out0, s0)"
    using sched [of 0] by blast
  have pos: "\<exists>ip. 0 < avail (ex_nodes [(''n1'', 1)]) ip" by (auto simp: nodes)
  note r1 = schedule_action_spec [OF p1 _ _ _ io s1, unfolded st, OF nodes(1) _ nodes(2)]
    and r0 = schedule_action_spec [OF p0 _ _ _ io s0, unfolded st, OF nodes(1) _ nodes(2)]
  obtain w call sd where "out1 = [] @ [sd]" "0 < avail (ex_nodes [(''n1'', 1)]) w"
    "avail (co_node_status s1) = (avail (ex_nodes [(''n1'', 1)]))(w := avail (ex_nodes [(''n1'', 1)]) w - 1)"
    using r1 pos by auto
  then have "\<exists>sd. out1 = [sd] \<and> avail (co_node_status s1) ''n1'' = 0"
    by (simp add: nodes split: if_splits)
  moreover have "out0 = []" using r0 by (simp add: nodes)
  ultimately show ?thesis using s1 s0 unfolding Let_def by blast
qed

section \<open>Objects can be found\<close>

lemma schedule_action_address:
  "schedule_action env request bk flag a acc = Ok acc' \<Longrightarrow>
   co_address_map (snd acc') = co_address_map (snd acc)"
  by (auto simp: schedule_action_def Let_def split: prod.splits if_splits)

lemma schedule_actions_address:
  assumes "res_fold (schedule_action env request bk flag) actions acc = Ok acc'"
  shows "co_address_map (snd acc') = co_address_map (snd acc)"
  by (rule res_fold_invariant [where P = "\<lambda>x. co_address_map (snd x) = co_address_map (snd acc)", OF assms])
    (auto dest: schedule_action_address)

lemma notify_trigger_address:
  assumes "notify_trigger env request bk tr acc = Ok acc'"
  shows "co_address_map (snd (snd (snd acc'))) = co_address_map (snd (snd (snd acc)))"
  using assms
  by (auto simp: notify_trigger_def Let_def split: prod.splits if_splits dest!: schedule_actions_address)

lemma notify_triggers_address:
  assumes "notify_triggers env request bk s = Ok (out, s')"
  shows "co_address_map s' = co_address_map s"
proof -
  obtain trs names o1 s1 where f: "res_fold (notify_trigger env request bk)
      (map_at [] (co_triggers s) (bk_bucket bk)) ([], [], [], s) = Ok (trs, names, o1, s1)"
    and s': "snd (sync_nodes bk names (s1\<lparr>co_triggers := (co_triggers s1)(bk_bucket bk \<mapsto> trs)\<rparr>)) = s'"
    using assms by (auto simp: notify_triggers_def split: prod.splits)
  have "co_address_map (snd (snd (snd (trs, names, o1, s1)))) = co_address_map s"
    by (rule res_fold_invariant [where P = "\<lambda>x. co_address_map (snd (snd (snd x))) = co_address_map s", OF f])
      (auto dest: notify_trigger_address)
  then show ?thesis using s' by (auto simp: sync_nodes_def Let_def split: if_splits)
qed

lemma record_object_address:
  assumes "record_object bk ip s = Ok s'"
  shows "co_address_map s' = update_address bk ip (co_address_map s)"
  using assms by (auto simp: record_object_def)

lemma notify_addresses_ConsE:
  assumes "notify_addresses env request (a # addrs) s = Ok (out, s')"
    and "\<not> (bka_payload a = [] \<and> co_bucket_app s (bk_bucket (get_bucket_key_from_addr a)) = None)"
  obtains ip ips s3 outs where "bka_ips a = ip # ips"
    "co_address_map s3 = update_address (get_bucket_key_from_addr a) ip (co_address_map s)"
    "notify_addresses env request addrs s3 = Ok (outs, s')"
proof -
  let ?bk = "get_bucket_key_from_addr a"
  obtain ip where ip: "nth_res (bka_ips a) 0 = Ok ip"
    using assms(1) by (cases "nth_res (bka_ips a) 0") auto
  then obtain ips where ips: "bka_ips a = ip # ips"
    by (cases "bka_ips a") (auto simp: nth_res_def)
  obtain s1 where r: "record_object ?bk ip s = Ok s1"
    using assms by (cases "record_object ?bk ip s") (auto simp: ip Let_def)
  define s2 where "s2 = (if bka_payload a \<noteq> []
    then s1\<lparr>co_val_map := (co_val_map s1)(shm_key_name ?bk \<mapsto> bka_payload a)\<rparr> else s1)"
  have "res_bind (notify_triggers env request ?bk s2) (\<lambda>(out, s3).
      res_bind (notify_addresses env request addrs s3) (\<lambda>(outs, s4). Ok (out @ outs, s4))) = Ok (out, s')"
    using assms by (simp add: ip r Let_def s2_def)
  then obtain o3 s3 outs where n: "notify_triggers env request ?bk s2 = Ok (o3, s3)"
    and rest: "notify_addresses env request addrs s3 = Ok (outs, s')"
    by auto
  have "co_address_map s3 = update_address ?bk ip (co_address_map s)"
    using notify_triggers_address [OF n] record_object_address [OF r] by (simp add: s2_def)
  from that [OF ips this rest] show ?thesis .
qed

lemma notify_addresses_keep:
  "notify_addresses env request addrs s = Ok (out, s') \<Longrightarrow>
   set (addresses_of (co_address_map s) b k) \<subseteq> set (addresses_of (co_address_map s') b k)"
proof (induction addrs arbitrary: s out)
  case (Cons a addrs)
  show ?case
  proof (cases "bka_payload a = [] \<and> co_bucket_app s (bk_bucket (get_bucket_key_from_addr a)) = None")
    case True
    then show ?thesis using Cons.prems by auto
  next
    case False
    from Cons.prems False obtain ip ips s3 outs where s3:
      "co_address_map s3 = update_address (get_bucket_key_from_addr a) ip (co_address_map s)"
      and rest: "notify_addresses env request addrs s3 = Ok (outs, s')"
      by (rule notify_addresses_ConsE)
    have "set (addresses_of (co_address_map s) b k) \<subseteq> set (addresses_of (co_address_map s3) b k)"
      unfolding s3 by auto
    with Cons.IH [OF rest] show ?thesis by blast
  qed
qed simp

lemma addresses_known:
  assumes "x \<in> set (addresses_of m (bk_bucket bk) (bk_key bk))"
  shows "m (bk_bucket bk) \<noteq> None \<and>
    get_address bk m = \<lparr>ga_error = SUCCESS, ga_addr = addresses_of m (bk_bucket bk) (bk_key bk)\<rparr>"
  using assms by (auto simp: addresses_of_def get_address_def map_at_def split: option.splits)

text \<open>
  An object that a scheduler has reported is found by a query. After the first address of a
  notification has been recorded, whatever triggers ran and whatever other objects the notification
  reported, a query for the object succeeds and the reported address is in the answer.
\<close>

lemma notify_then_query:
  assumes "notify_handler env request s = Ok (out, s')" and "kn_addresses request = a # rest"
    and "bka_payload a \<noteq> [] \<or> co_bucket_app s (bka_bucket a) \<noteq> None"
    and "kq_addresses q = [a']" and "get_bucket_key_from_addr a' = get_bucket_key_from_addr a"
  shows "\<exists>resp found. query_handler q s' = ([Send (kq_response_address q) (Query_Response_Msg resp)], s') \<and>
    kqr_error resp = SUCCESS \<and> kqr_addresses resp = [found] \<and>
    get_bucket_key_from_addr found = get_bucket_key_from_addr a \<and> hd (bka_ips a) \<in> set (bka_ips found)"
proof -
  let ?bk = "get_bucket_key_from_addr a"
  have "notify_addresses env request (a # rest) s = Ok (out, s')"
    and "\<not> (bka_payload a = [] \<and> co_bucket_app s (bk_bucket ?bk) = None)"
    using assms(1-3) by (auto simp: notify_handler_def get_bucket_key_from_addr_def)
  then obtain ip ips s3 outs where ip: "bka_ips a = ip # ips"
    and s3: "co_address_map s3 = update_address ?bk ip (co_address_map s)"
    and "notify_addresses env request rest s3 = Ok (outs, s')"
    by (rule notify_addresses_ConsE)
  then have "set (addresses_of (co_address_map s3) (bk_bucket ?bk) (bk_key ?bk))
      \<subseteq> set (addresses_of (co_address_map s') (bk_bucket ?bk) (bk_key ?bk))"
    by (intro notify_addresses_keep)
  then have mem: "ip \<in> set (addresses_of (co_address_map s') (bk_bucket ?bk) (bk_key ?bk))"
    by (auto simp: s3)
  have "query_results (co_address_map s') (kq_addresses q) = ([(?bk, \<lparr>ga_error = SUCCESS,
      ga_addr = addresses_of (co_address_map s') (bk_bucket ?bk) (bk_key ?bk)\<rparr>)], SUCCESS)"
    using addresses_known [OF mem] by (simp add: assms(4,5) Let_def)
  then show ?thesis
    using mem ip by (simp add: query_handler_def Let_def get_bucket_key_from_addr_def get_addr_from_bucket_key_def)
qed

section \<open>Registration\<close>

text \<open>
  The handler of trigger operations fails exactly when a trigger of a type that the coordinator
  does not know is added to a bucket that exists: it dereferences the null pointer that the factory
  returns. Every other request is answered.
\<close>

lemma trigger_op_faults:
  "(\<exists>e. trigger_op_handler env request s = Fault e) \<longleftrightarrow>
   tor_operation_type request = ADD_TRIGGER \<and> co_bucket_app s (tor_bucket_name request) \<noteq> None \<and>
   \<not> known_primitive (tor_primitive_type request)"
proof (cases "tor_operation_type request")
  case ADD_TRIGGER
  have "(gen_trigger_pointer (ce_codec env) (ce_now env) (tor_primitive_type request)
      (tor_trigger_name request) (tor_primitive request) = None) \<longleftrightarrow> \<not> known_primitive (tor_primitive_type request)"
    by (cases "tor_primitive_type request") (auto simp: gen_trigger_pointer_def split: prod.splits)
  then show ?thesis
    using ADD_TRIGGER by (auto simp: trigger_op_handler_def add_trigger_def Let_def split: option.splits)
qed (auto simp: trigger_op_handler_def Let_def split: prod.splits)

text \<open>
  Registering a periodic dependency installs a periodic trigger at the coordinator, but the
  message that goes to every node describes an immediate trigger without a name in the same bucket.
\<close>

lemma app_register_periodic:
  assumes "dd_type d = PERIODIC" and "dd_tgt_functions d = f # fs" and "stoi (dd_description d) = Ok w"
  shows "\<exists>msg s'. app_register_handler env \<lparr>apr_app_name = app, apr_functions = funs, apr_dependencies = [d]\<rparr> s =
      Ok (map (\<lambda>n. Send (trigger_update_address (fst n)) (Update_Msg msg)) (co_node_status s), s') \<and>
    co_triggers s' (''b_'' @ f) = Some (map_at [] (co_triggers s) (''b_'' @ f) @
      [new_ByTime (ce_now env) f (''t_3_'' @ f) (word_of_int w)]) \<and>
    map te_primitive_type (uc_triggers msg) = [IMMEDIATE] \<and> map te_trigger_name (uc_triggers msg) = [[]] \<and>
    map te_bucket_name (uc_triggers msg) = [''b_'' @ f]"
proof -
  have "to_string 3 = ''3''" by code_simp
  then have "dependency_trigger_name 3 f = ''t_3_'' @ f" by (simp add: dependency_trigger_name_def)
  let ?s1 = "create_bucket app (''b_'' @ f) (create_bucket app (''b_'' @ f) s)"
  let ?s2 = "push_trigger (''b_'' @ f) (new_ByTime (ce_now env) f (''t_3_'' @ f) (word_of_int w)) ?s1"
  let ?msg = "empty_update\<lparr>uc_ip := ce_private_ip env, uc_thread_id := ce_thread_id env,
              uc_app_name := app, uc_msg_type := 0, uc_functions := funs,
              uc_triggers := [empty_entity\<lparr>te_bucket_name := ''b_'' @ f\<rparr>]\<rparr>"
  have "app_register_handler env \<lparr>apr_app_name = app, apr_functions = funs, apr_dependencies = [d]\<rparr> s =
      Ok (broadcast ?s2 ?msg, ?s2)"
    using assms \<open>dependency_trigger_name 3 f = ''t_3_'' @ f\<close>
    by (simp add: app_register_handler_def app_dependency_def register_dependency_def nth_res_def Let_def
        empty_update_def)
  moreover have "co_node_status ?s2 = co_node_status s" by (simp add: push_trigger_def create_bucket_def)
  ultimately show ?thesis
    by (intro exI [of _ ?msg] exI [of _ ?s2])
      (simp add: broadcast_def push_trigger_def create_bucket_def empty_entity_def)
qed

text \<open>
  Deleting a bucket removes its owner and its triggers. The list of buckets is changed for the
  application that asks, which need not be the owner: then the owner still lists the bucket.
\<close>

lemma delete_bucket_effect:
  assumes "co_bucket_app s b = Some owner" and "b \<in> set (map_at [] (co_app_buckets s) owner)"
    and "distinct (map_at [] (co_app_buckets s) owner)"
    and "bor_operation_type r = DELETE_BUCKET" and "bor_bucket_name r = b"
    and "bucket_op_handler r s = (out, s')"
  shows "co_bucket_app s' b = None \<and> co_triggers s' b = None \<and>
    (b \<in> set (map_at [] (co_app_buckets s') owner) \<longleftrightarrow> bor_app_name r \<noteq> owner)"
  using assms by (auto simp: bucket_op_handler_def delete_bucket_def Let_def)

end
