(* ===== verification/Ph_Kvs_Client.thy ===== *)
theory Ph_Kvs_Client
  imports Ph_Threads
begin

text \<open>
  The asynchronous client of the Anna key-value store, \<^verbatim>\<open>common/include/anna_client/kvs_client.hpp\<close>,
  with the messages of \<^verbatim>\<open>common/proto/anna.proto\<close>. The maps that the client iterates are
  association lists. An operation returns what it sends and the new state; it takes the clock, read
  once per operation, and the generator behind \<^verbatim>\<open>rand_r\<close>. Indexing the first tuple of a message
  that has none, an address without a colon, a routing tier without threads, and growing the vector
  of pending requests while it is walked are faults.
\<close>

section \<open>Messages\<close>

datatype RequestType = RT_UNSPECIFIED | GET | PUT | UNKNOWN_REQUEST nat

datatype LatticeType =
    NONE | LWW | SET | SINGLE_CAUSAL | MULTI_CAUSAL | ORDERED_SET | PRIORITY | UNKNOWN_LATTICE nat

datatype AnnaError =
    NO_ERROR | KEY_DNE | WRONG_THREAD | TIMEOUT | LATTICE | NO_SERVERS | UNKNOWN_ANNA_ERROR nat

record KeyTuple =
  kt_key :: string
  kt_lattice_type :: LatticeType
  kt_error :: AnnaError
  kt_payload :: string
  kt_address_cache_size :: uint32
  kt_invalidate :: bool

record KeyRequest =
  rq_type :: RequestType
  rq_tuples :: "KeyTuple list"
  rq_response_address :: string
  rq_request_id :: string

record KeyResponse =
  rs_type :: RequestType
  rs_tuples :: "KeyTuple list"
  rs_response_id :: string
  rs_error :: AnnaError

record KeyAddressRequest =
  kar_response_address :: string
  kar_keys :: "string list"
  kar_request_id :: string

record KeyAddress =
  ka_key :: string
  ka_ips :: "string list"

record KeyAddressResponse =
  kas_addresses :: "KeyAddress list"
  kas_error :: AnnaError
  kas_response_id :: string

definition empty_tuple :: KeyTuple where
  "empty_tuple = \<lparr>kt_key = [], kt_lattice_type = NONE, kt_error = NO_ERROR, kt_payload = [],
                  kt_address_cache_size = 0, kt_invalidate = False\<rparr>"

datatype kvs_send =
    Send_Key Address KeyRequest
  | Send_Key_Address Address KeyAddressRequest

section \<open>State\<close>

record PendingRequest =
  pr_tp :: time
  pr_worker_addr :: Address
  pr_request :: KeyRequest

record KvsClient =
  kc_routing_threads :: "NodeThread list"
  kc_rid :: uint32
  kc_seed :: uint32
  kc_ut :: NodeThread
  kc_key_address_cache :: "(Key \<times> Address list) list"
  kc_timeout :: uint32
  kc_pending_request_map :: "(Key \<times> time \<times> KeyRequest list) list"
  kc_pending_get_response_map :: "(Key \<times> PendingRequest) list"
  kc_pending_put_response_map :: "(Key \<times> (string \<times> PendingRequest) list) list"

definition new_KvsClient :: "uint32 \<Rightarrow> NodeThread list \<Rightarrow> string \<Rightarrow> uint32 \<Rightarrow> uint32 \<Rightarrow> KvsClient" where
  "new_KvsClient seed routing_threads ip tid timeout =
     \<lparr>kc_routing_threads = routing_threads, kc_rid = 0, kc_seed = seed, kc_ut = new_thread ip tid,
      kc_key_address_cache = [], kc_timeout = timeout, kc_pending_request_map = [],
      kc_pending_get_response_map = [], kc_pending_put_response_map = []\<rparr>"

section \<open>Requests\<close>

text \<open>\<^verbatim>\<open>get_request_id\<close> on the thread and the counter: the id and the next counter.\<close>

definition next_request_id :: "NodeThread \<Rightarrow> uint32 \<Rightarrow> string \<times> uint32" where
  "next_request_id ut rid =
     (let rid1 = (if (rid + 1) mod 10000 = 0 then 0 else rid + 1)
      in (th_ip ut @ '':'' @ to_string (unat (th_tid ut)) @ ''_'' @ to_string (unat rid1), rid1 + 1))"

definition get_request_id :: "KvsClient \<Rightarrow> string \<times> KvsClient" where
  "get_request_id kc =
     (case next_request_id (kc_ut kc) (kc_rid kc) of (i, rid) \<Rightarrow> (i, kc\<lparr>kc_rid := rid\<rparr>))"

definition get_routing_thread :: "rand_fun \<Rightarrow> KvsClient \<Rightarrow> (Address \<times> KvsClient) res" where
  "get_routing_thread rnd kc =
     (if kc_routing_threads kc = [] then Fault Division_By_Zero
      else case rnd (kc_seed kc) of
        (r, seed) \<Rightarrow>
          Ok (routing_key_address_connect_address
                (kc_routing_threads kc ! (r mod length (kc_routing_threads kc))), kc\<lparr>kc_seed := seed\<rparr>))"

definition query_routing_async :: "rand_fun \<Rightarrow> Key \<Rightarrow> KvsClient \<Rightarrow> (kvs_send list \<times> KvsClient) res" where
  "query_routing_async rnd key kc =
     (case get_request_id kc of
        (request_id, kc1) \<Rightarrow>
          res_bind (get_routing_thread rnd kc1) (\<lambda>(rt_thread, kc2).
          Ok ([Send_Key_Address rt_thread
                 \<lparr>kar_response_address = user_key_address_connect_address (kc_ut kc), kar_keys = [key],
                  kar_request_id = request_id\<rparr>], kc2)))"

definition cached_addresses :: "Key \<Rightarrow> KvsClient \<Rightarrow> Address list" where
  "cached_addresses key kc = umap_at [] (kc_key_address_cache kc) key"

definition get_all_worker_threads ::
  "rand_fun \<Rightarrow> Key \<Rightarrow> KvsClient \<Rightarrow> (Address list \<times> kvs_send list \<times> KvsClient) res" where
  "get_all_worker_threads rnd key kc =
     (if cached_addresses key kc = []
      then if map_of (kc_pending_request_map kc) key = None
           then res_bind (query_routing_async rnd key kc) (\<lambda>(sends, kc'). Ok ([], sends, kc'))
           else Ok ([], [], kc)
      else Ok (cached_addresses key kc, [], kc))"

definition get_worker_thread ::
  "rand_fun \<Rightarrow> Key \<Rightarrow> KvsClient \<Rightarrow> (Address \<times> kvs_send list \<times> KvsClient) res" where
  "get_worker_thread rnd key kc =
     res_bind (get_all_worker_threads rnd key kc) (\<lambda>(local_cache, sends, kc').
     if local_cache = [] then Ok ([], sends, kc')
     else case rnd (kc_seed kc') of
       (r, seed) \<Rightarrow> Ok (local_cache ! (r mod length local_cache), sends, kc'\<lparr>kc_seed := seed\<rparr>))"

text \<open>What \<^verbatim>\<open>try_request\<close> notes about a request that waits for an address, or for an answer.\<close>

definition wait_for_address :: "time \<Rightarrow> Key \<Rightarrow> KeyRequest \<Rightarrow> KvsClient \<Rightarrow> KvsClient" where
  "wait_for_address now key request kc =
     (let pending = map_at (now, []) (map_of (kc_pending_request_map kc)) key
      in kc\<lparr>kc_pending_request_map := AList.update key (fst pending, snd pending @ [request])
                                        (kc_pending_request_map kc)\<rparr>)"

definition note_pending :: "time \<Rightarrow> Address \<Rightarrow> KeyRequest \<Rightarrow> PendingRequest option \<Rightarrow> PendingRequest" where
  "note_pending now worker request found =
     (case found of
        None \<Rightarrow> \<lparr>pr_tp = now, pr_worker_addr = worker, pr_request = request\<rparr>
      | Some p \<Rightarrow> p\<lparr>pr_worker_addr := worker\<rparr>)"

definition set_get :: "Key \<Rightarrow> PendingRequest \<Rightarrow> KvsClient \<Rightarrow> KvsClient" where
  "set_get key p kc = kc\<lparr>kc_pending_get_response_map := AList.update key p (kc_pending_get_response_map kc)\<rparr>"

definition put_ids :: "Key \<Rightarrow> KvsClient \<Rightarrow> (string \<times> PendingRequest) list" where
  "put_ids key kc = umap_at [] (kc_pending_put_response_map kc) key"

definition set_put :: "Key \<Rightarrow> string \<Rightarrow> PendingRequest \<Rightarrow> KvsClient \<Rightarrow> KvsClient" where
  "set_put key i p kc =
     kc\<lparr>kc_pending_put_response_map :=
          AList.update key (AList.update i p (put_ids key kc)) (kc_pending_put_response_map kc)\<rparr>"

definition wait_for_response :: "time \<Rightarrow> Key \<Rightarrow> Address \<Rightarrow> KeyRequest \<Rightarrow> KvsClient \<Rightarrow> KvsClient" where
  "wait_for_response now key worker request kc =
     (if rq_type request = GET
      then set_get key (note_pending now worker request (map_of (kc_pending_get_response_map kc) key)) kc
      else set_put key (rq_request_id request)
             (note_pending now worker request (map_of (put_ids key kc) (rq_request_id request))) kc)"

text \<open>The request is passed by reference; its new value is part of the result.\<close>

definition try_request ::
  "rand_fun \<Rightarrow> time \<Rightarrow> KeyRequest \<Rightarrow> KvsClient \<Rightarrow> (KeyRequest \<times> kvs_send list \<times> KvsClient) res" where
  "try_request rnd now request kc =
     res_bind (nth_res (rq_tuples request) 0) (\<lambda>tuple.
     let key = kt_key tuple
     in res_bind (get_worker_thread rnd key kc) (\<lambda>(worker, sends, kc1).
        if worker = [] then Ok (request, sends, wait_for_address now key request kc1)
        else (let request' = request\<lparr>rq_tuples := (rq_tuples request)[0 := tuple\<lparr>
                    kt_address_cache_size := word_of_nat (length (cached_addresses key kc1))\<rparr>]\<rparr>
              in Ok (request', sends @ [Send_Key worker request'],
                     wait_for_response now key worker request' kc1))))"

definition prepare_data_request :: "RequestType \<Rightarrow> KeyTuple \<Rightarrow> KvsClient \<Rightarrow> KeyRequest \<times> KvsClient" where
  "prepare_data_request type tuple kc =
     (case get_request_id kc of
        (request_id, kc') \<Rightarrow>
          (\<lparr>rq_type = type, rq_tuples = [tuple],
            rq_response_address = user_response_connect_address (kc_ut kc), rq_request_id = request_id\<rparr>, kc'))"

definition put_async ::
  "rand_fun \<Rightarrow> time \<Rightarrow> Key \<Rightarrow> string \<Rightarrow> LatticeType \<Rightarrow> KvsClient \<Rightarrow> (string \<times> kvs_send list \<times> KvsClient) res" where
  "put_async rnd now key payload lattice_type kc =
     (case prepare_data_request PUT (empty_tuple\<lparr>kt_key := key, kt_lattice_type := lattice_type,
             kt_payload := payload\<rparr>) kc of
        (request, kc1) \<Rightarrow>
          res_bind (try_request rnd now request kc1) (\<lambda>(request', sends, kc2).
          Ok (rq_request_id request', sends, kc2)))"

definition get_async :: "rand_fun \<Rightarrow> time \<Rightarrow> Key \<Rightarrow> KvsClient \<Rightarrow> (kvs_send list \<times> KvsClient) res" where
  "get_async rnd now key kc =
     (if map_of (kc_pending_get_response_map kc) key = None
      then (case prepare_data_request GET (empty_tuple\<lparr>kt_key := key\<rparr>) kc of
              (request, kc1) \<Rightarrow>
                res_bind (try_request rnd now request kc1) (\<lambda>(request', sends, kc2). Ok (sends, kc2)))
      else Ok ([], kc))"

definition clear_cache :: "KvsClient \<Rightarrow> KvsClient" where
  "clear_cache kc = kc\<lparr>kc_key_address_cache := []\<rparr>"

section \<open>Responses\<close>

definition invalidate_cache_for_key :: "Key \<Rightarrow> KvsClient \<Rightarrow> KvsClient" where
  "invalidate_cache_for_key key kc = kc\<lparr>kc_key_address_cache := AList.delete key (kc_key_address_cache kc)\<rparr>"

text \<open>The host between the first two colons of an address.\<close>

definition signature :: "Address \<Rightarrow> string res" where
  "signature address = nth_res (split address CHR '':'') 1"

definition invalidate_cache_for_worker :: "Address \<Rightarrow> KvsClient \<Rightarrow> KvsClient res" where
  "invalidate_cache_for_worker worker kc =
     res_bind (signature worker) (\<lambda>sig.
     res_bind (res_map (\<lambda>(key, addresses). res_bind (res_map signature addresses) (\<lambda>sigs. Ok (key, sigs)))
                 (kc_key_address_cache kc)) (\<lambda>signed.
     let remove_set = map fst (filter (\<lambda>(key, sigs). sig \<in> set sigs) signed)
     in Ok (kc\<lparr>kc_key_address_cache :=
                 filter (\<lambda>entry. fst entry \<notin> set remove_set) (kc_key_address_cache kc)\<rparr>)))"

definition check_tuple :: "KeyTuple \<Rightarrow> KvsClient \<Rightarrow> bool \<times> KvsClient" where
  "check_tuple tuple kc =
     (if kt_error tuple = WRONG_THREAD then (True, invalidate_cache_for_key (kt_key tuple) kc)
      else if kt_invalidate tuple then (False, invalidate_cache_for_key (kt_key tuple) kc)
      else (False, kc))"

definition generate_bad_response :: "KeyRequest \<Rightarrow> KeyResponse res" where
  "generate_bad_response req =
     res_bind (nth_res (rq_tuples req) 0) (\<lambda>tuple.
     Ok \<lparr>rs_type = rq_type req,
         rs_tuples = [if rq_type req = PUT
                      then empty_tuple\<lparr>kt_key := kt_key tuple, kt_lattice_type := kt_lattice_type tuple,
                             kt_payload := kt_payload tuple\<rparr>
                      else empty_tuple\<lparr>kt_key := kt_key tuple\<rparr>],
         rs_response_id = rq_request_id req, rs_error = TIMEOUT\<rparr>)"

text \<open>
  The loop over the requests that waited for an address. A request that still finds no address is
  appended to the vector that the loop walks.
\<close>

definition retry_pending ::
  "rand_fun \<Rightarrow> time \<Rightarrow> KeyRequest \<Rightarrow> kvs_send list \<times> KvsClient \<Rightarrow> (kvs_send list \<times> KvsClient) res" where
  "retry_pending rnd now req acc =
     (case acc of
        (out, kc) \<Rightarrow>
          res_bind (try_request rnd now req kc) (\<lambda>(_, sends, kc').
          if kc_pending_request_map kc' \<noteq> kc_pending_request_map kc then Fault Invalid_Iterator
          else Ok (out @ sends, kc')))"

definition handle_address_response ::
  "rand_fun \<Rightarrow> time \<Rightarrow> KeyAddressResponse \<Rightarrow> KvsClient \<Rightarrow> (kvs_send list \<times> KvsClient) res" where
  "handle_address_response rnd now response kc =
     res_bind (nth_res (kas_addresses response) 0) (\<lambda>address.
     let key = ka_key address
     in case map_of (kc_pending_request_map kc) key of
          None \<Rightarrow> Ok ([], kc)
        | Some (tp, requests) \<Rightarrow>
            if kas_error response = NO_SERVERS
            then query_routing_async rnd key
                   (kc\<lparr>kc_pending_request_map := AList.update key (now, requests) (kc_pending_request_map kc)\<rparr>)
            else (let kc1 = (if ka_ips address = [] then kc
                             else kc\<lparr>kc_key_address_cache := AList.update key
                                       (fold uset_insert (ka_ips address) (cached_addresses key kc))
                                       (kc_key_address_cache kc)\<rparr>)
                  in res_bind (res_fold (retry_pending rnd now) requests ([], kc1)) (\<lambda>(sends, kc2).
                     Ok (sends, kc2\<lparr>kc_pending_request_map :=
                                     AList.delete key (kc_pending_request_map kc2)\<rparr>))))"

text \<open>
  An answer that orders a retry: the clock of the pending entry is reset and its request, which is
  passed by reference, is tried again.
\<close>

definition retry_get :: "rand_fun \<Rightarrow> time \<Rightarrow> Key \<Rightarrow> PendingRequest \<Rightarrow> KvsClient \<Rightarrow> (kvs_send list \<times> KvsClient) res" where
  "retry_get rnd now key p kc =
     res_bind (try_request rnd now (pr_request p) (set_get key (p\<lparr>pr_tp := now\<rparr>) kc)) (\<lambda>(request, sends, kc').
     let p' = map_at p (map_of (kc_pending_get_response_map kc')) key
     in Ok (sends, set_get key (p'\<lparr>pr_request := request\<rparr>) kc'))"

definition retry_put ::
  "rand_fun \<Rightarrow> time \<Rightarrow> Key \<Rightarrow> string \<Rightarrow> PendingRequest \<Rightarrow> KvsClient \<Rightarrow> (kvs_send list \<times> KvsClient) res" where
  "retry_put rnd now key i p kc =
     res_bind (try_request rnd now (pr_request p) (set_put key i (p\<lparr>pr_tp := now\<rparr>) kc)) (\<lambda>(request, sends, kc').
     let p' = map_at p (map_of (put_ids key kc')) i
     in Ok (sends, set_put key i (p'\<lparr>pr_request := request\<rparr>) kc'))"

definition handle_get_response ::
  "rand_fun \<Rightarrow> time \<Rightarrow> KeyResponse \<Rightarrow> KeyTuple \<Rightarrow> KvsClient \<Rightarrow> (KeyResponse list \<times> kvs_send list \<times> KvsClient) res" where
  "handle_get_response rnd now response tuple kc =
     (let key = kt_key tuple
      in case map_of (kc_pending_get_response_map kc) key of
           None \<Rightarrow> Ok ([], [], kc)
         | Some p \<Rightarrow>
             (case check_tuple tuple kc of
                (reissue, kc1) \<Rightarrow>
                  if reissue
                  then res_bind (retry_get rnd now key p kc1) (\<lambda>(sends, kc2). Ok ([], sends, kc2))
                  else Ok ([response], [], kc1\<lparr>kc_pending_get_response_map :=
                             AList.delete key (kc_pending_get_response_map kc1)\<rparr>)))"

definition handle_put_response ::
  "rand_fun \<Rightarrow> time \<Rightarrow> KeyResponse \<Rightarrow> KeyTuple \<Rightarrow> KvsClient \<Rightarrow> (KeyResponse list \<times> kvs_send list \<times> KvsClient) res" where
  "handle_put_response rnd now response tuple kc =
     (let key = kt_key tuple;
          ids = put_ids key kc
      in case map_of ids (rs_response_id response) of
           None \<Rightarrow> Ok ([], [], kc)
         | Some p \<Rightarrow>
             (case check_tuple tuple kc of
                (reissue, kc1) \<Rightarrow>
                  if reissue
                  then res_bind (retry_put rnd now key (rs_response_id response) p kc1)
                         (\<lambda>(sends, kc2). Ok ([], sends, kc2))
                  else (let ids' = AList.delete (rs_response_id response) ids
                        in Ok ([response], [], kc1\<lparr>kc_pending_put_response_map :=
                             (if ids' = [] then AList.delete key (kc_pending_put_response_map kc1)
                              else AList.update key ids' (kc_pending_put_response_map kc1))\<rparr>))))"

definition handle_key_response ::
  "rand_fun \<Rightarrow> time \<Rightarrow> KeyResponse \<Rightarrow> KvsClient \<Rightarrow> (KeyResponse list \<times> kvs_send list \<times> KvsClient) res" where
  "handle_key_response rnd now response kc =
     res_bind (nth_res (rs_tuples response) 0) (\<lambda>tuple.
     if rs_type response = GET then handle_get_response rnd now response tuple kc
     else handle_put_response rnd now response tuple kc)"

section \<open>Timeouts\<close>

definition timed_out :: "time \<Rightarrow> KvsClient \<Rightarrow> time \<Rightarrow> bool" where
  "timed_out now kc tp \<longleftrightarrow> uint (kc_timeout kc) < cast_ms (now - tp)"

definition gc_requests :: "time \<Rightarrow> KvsClient \<Rightarrow> (KeyResponse list \<times> KvsClient) res" where
  "gc_requests now kc =
     (let expired = filter (\<lambda>(key, tp, reqs). timed_out now kc tp) (kc_pending_request_map kc)
      in res_bind (res_map generate_bad_response (concat (map (\<lambda>(key, tp, reqs). reqs) expired))) (\<lambda>result.
         Ok (result, kc\<lparr>kc_pending_request_map :=
           filter (\<lambda>(key, tp, reqs). \<not> timed_out now kc tp) (kc_pending_request_map kc)\<rparr>)))"

text \<open>The answer to a request that a worker has not answered in time; the worker is forgotten.\<close>

definition gc_worker ::
  "PendingRequest \<Rightarrow> KeyResponse list \<times> KvsClient \<Rightarrow> (KeyResponse list \<times> KvsClient) res" where
  "gc_worker p acc =
     (case acc of
        (result, kc) \<Rightarrow>
          res_bind (generate_bad_response (pr_request p)) (\<lambda>bad.
          res_bind (invalidate_cache_for_worker (pr_worker_addr p) kc) (\<lambda>kc'. Ok (result @ [bad], kc'))))"

definition gc_gets :: "time \<Rightarrow> KvsClient \<Rightarrow> (KeyResponse list \<times> KvsClient) res" where
  "gc_gets now kc =
     (let expired = filter (\<lambda>(key, p). timed_out now kc (pr_tp p)) (kc_pending_get_response_map kc)
      in res_bind (res_fold gc_worker (map snd expired) ([], kc)) (\<lambda>(result, kc').
         Ok (result, kc'\<lparr>kc_pending_get_response_map :=
           filter (\<lambda>(key, p). \<not> timed_out now kc (pr_tp p)) (kc_pending_get_response_map kc')\<rparr>)))"

definition gc_puts :: "time \<Rightarrow> KvsClient \<Rightarrow> (KeyResponse list \<times> KvsClient) res" where
  "gc_puts now kc =
     (let expired = filter (\<lambda>(i, p). timed_out now kc (pr_tp p))
                      (concat (map snd (kc_pending_put_response_map kc)))
      in res_bind (res_fold gc_worker (map snd expired) ([], kc)) (\<lambda>(result, kc').
         Ok (result, kc'\<lparr>kc_pending_put_response_map :=
           map (\<lambda>(key, ids). (key, filter (\<lambda>(i, p). \<not> timed_out now kc (pr_tp p)) ids))
             (kc_pending_put_response_map kc')\<rparr>)))"

section \<open>Receiving\<close>

text \<open>The arguments are the messages that the poll finds on the two sockets, if any.\<close>

definition receive_async ::
  "rand_fun \<Rightarrow> time \<Rightarrow> KeyAddressResponse option \<Rightarrow> KeyResponse option \<Rightarrow> KvsClient \<Rightarrow>
   (KeyResponse list \<times> kvs_send list \<times> KvsClient) res" where
  "receive_async rnd now address_msg response_msg kc =
     res_bind (case address_msg of
                 None \<Rightarrow> Ok ([], kc)
               | Some response \<Rightarrow> handle_address_response rnd now response kc) (\<lambda>(sends1, kc1).
     res_bind (case response_msg of
                 None \<Rightarrow> Ok ([], [], kc1)
               | Some response \<Rightarrow> handle_key_response rnd now response kc1) (\<lambda>(result1, sends2, kc2).
     res_bind (gc_requests now kc2) (\<lambda>(result2, kc3).
     res_bind (gc_gets now kc3) (\<lambda>(result3, kc4).
     res_bind (gc_puts now kc4) (\<lambda>(result4, kc5).
     Ok (result1 @ result2 @ result3 @ result4, sends1 @ sends2, kc5))))))"

end
