(* ===== verification/Ph_Kvs_Inv.thy ===== *)
theory Ph_Kvs_Inv
  imports Ph_Kvs_Client
begin

text \<open>
  The key-value client, first part of its laws: the ids of its requests, the invariant of its tables,
  and what trying a request does to them.
\<close>

section \<open>Request ids\<close>

text \<open>The ids that a thread hands out in a row.\<close>

fun request_ids :: "NodeThread \<Rightarrow> nat \<Rightarrow> uint32 \<Rightarrow> string list" where
  "request_ids ut 0 rid = []"
| "request_ids ut (Suc n) rid = (case next_request_id ut rid of (i, rid') \<Rightarrow> i # request_ids ut n rid')"

lemma next_request_id_even:
  assumes "2 * k < 2 ^ 32"
  shows "next_request_id ut (word_of_nat (2 * k)) =
    (th_ip ut @ '':'' @ to_string (unat (th_tid ut)) @ ''_'' @ to_string (2 * k + 1), word_of_nat (2 * (k + 1)))"
proof -
  have lt: "2 * k + 1 < 2 ^ 32" using assms by simp
  have w: "(word_of_nat (2 * k) :: uint32) + 1 = word_of_nat (2 * k + 1)" by simp
  have u: "unat (word_of_nat (2 * k + 1) :: uint32) = 2 * k + 1"
    using lt by (simp only: unat_of_nat) simp
  have "(word_of_nat (2 * k + 1) :: uint32) mod 10000 \<noteq> 0"
  proof
    assume "(word_of_nat (2 * k + 1) :: uint32) mod 10000 = 0"
    then have "unat ((word_of_nat (2 * k + 1) :: uint32) mod 10000) = 0" by (simp only: unat_0)
    then have "(2 * k + 1) mod 10000 = 0" unfolding unat_mod_distrib u by simp
    then have "10000 dvd 2 * k + 1" by (rule mod_0_imp_dvd)
    then have "2 dvd 2 * k + 1" by (rule dvd_trans [rotated]) simp
    then show False by simp
  qed
  then show ?thesis unfolding next_request_id_def w Let_def u if_not_P [OF \<open>_ \<noteq> _\<close>] by simp
qed

lemma request_ids_eq:
  "k + n \<le> 2 ^ 31 \<Longrightarrow> request_ids ut n (word_of_nat (2 * k)) =
   map (\<lambda>j. th_ip ut @ '':'' @ to_string (unat (th_tid ut)) @ ''_'' @ to_string (2 * j + 1)) [k..<k + n]"
proof (induction n arbitrary: k)
  case (Suc n)
  then have "next_request_id ut (word_of_nat (2 * k)) =
      (th_ip ut @ '':'' @ to_string (unat (th_tid ut)) @ ''_'' @ to_string (2 * k + 1), word_of_nat (2 * (k + 1)))"
    by (intro next_request_id_even) simp
  with Suc.IH [of "k + 1"] Suc.prems show ?case
    by (simp add: upt_conv_Cons del: upt_Suc)
qed simp

text \<open>
  The ids that a client gives to its requests are pairwise distinct for the first two thousand
  million requests: the counter takes the odd numbers in turn, so the reset at multiples of 10000
  never happens and only the wrap-around of the 32-bit counter repeats an id.
\<close>

lemma request_ids_distinct:
  "n \<le> 2 ^ 31 \<Longrightarrow> distinct (request_ids ut n 0) \<and>
   (\<forall>k < n. request_ids ut n 0 ! k =
      th_ip ut @ '':'' @ to_string (unat (th_tid ut)) @ ''_'' @ to_string (2 * k + 1))"
  using request_ids_eq [of 0 n ut]
  by (auto simp: distinct_map inj_on_def to_string_inject)

section \<open>The invariant\<close>

text \<open>An address has a part behind its first colon; a request has one tuple, for its key.\<close>

definition good_address :: "Address \<Rightarrow> bool" where
  "good_address a \<longleftrightarrow> 2 \<le> length (split a CHR '':'')"

definition request_for :: "Key \<Rightarrow> KeyRequest \<Rightarrow> bool" where
  "request_for key r \<longleftrightarrow> map kt_key (rq_tuples r) = [key] \<and> (rq_type r = GET \<or> rq_type r = PUT)"

definition cache_ok :: "(Key \<times> Address list) list \<Rightarrow> bool" where
  "cache_ok c \<longleftrightarrow> umap_ok c \<and> (\<forall>(k, as) \<in> set c. as \<noteq> [] \<and> list_all good_address as)"

definition requests_ok :: "(Key \<times> time \<times> KeyRequest list) list \<Rightarrow> bool" where
  "requests_ok m \<longleftrightarrow> umap_ok m \<and> (\<forall>(k, t, rs) \<in> set m. list_all (request_for k) rs)"

definition get_ok :: "Key \<Rightarrow> PendingRequest \<Rightarrow> bool" where
  "get_ok k p \<longleftrightarrow> request_for k (pr_request p) \<and> rq_type (pr_request p) = GET \<and> good_address (pr_worker_addr p)"

definition put_ok :: "Key \<Rightarrow> string \<Rightarrow> PendingRequest \<Rightarrow> bool" where
  "put_ok k i p \<longleftrightarrow> request_for k (pr_request p) \<and> rq_type (pr_request p) = PUT \<and>
     rq_request_id (pr_request p) = i \<and> good_address (pr_worker_addr p)"

definition gets_ok :: "(Key \<times> PendingRequest) list \<Rightarrow> bool" where
  "gets_ok m \<longleftrightarrow> umap_ok m \<and> (\<forall>(k, p) \<in> set m. get_ok k p)"

definition ids_ok :: "Key \<Rightarrow> (string \<times> PendingRequest) list \<Rightarrow> bool" where
  "ids_ok k ids \<longleftrightarrow> umap_ok ids \<and> (\<forall>(i, p) \<in> set ids. put_ok k i p)"

definition puts_ok :: "(Key \<times> (string \<times> PendingRequest) list) list \<Rightarrow> bool" where
  "puts_ok m \<longleftrightarrow> umap_ok m \<and> (\<forall>(k, ids) \<in> set m. ids_ok k ids)"

definition kvs_inv :: "KvsClient \<Rightarrow> bool" where
  "kvs_inv kc \<longleftrightarrow> kc_routing_threads kc \<noteq> [] \<and> cache_ok (kc_key_address_cache kc) \<and>
     requests_ok (kc_pending_request_map kc) \<and> gets_ok (kc_pending_get_response_map kc) \<and>
     puts_ok (kc_pending_put_response_map kc)"

lemma good_address_not_Nil: "good_address a \<Longrightarrow> a \<noteq> []"
  by (auto simp: good_address_def)

lemma signature_ok: "good_address a \<Longrightarrow> \<exists>x. signature a = Ok x"
  by (auto simp: good_address_def signature_def nth_res_def)

lemma request_for_tuple: "request_for key r \<Longrightarrow> \<exists>tp. rq_tuples r = [tp] \<and> kt_key tp = key"
  by (auto simp: request_for_def)

lemma cached_good:
  assumes "cache_ok (kc_key_address_cache kc)" and "a \<in> set (cached_addresses key kc)"
  shows "good_address a"
proof -
  have "(key, cached_addresses key kc) \<in> set (kc_key_address_cache kc)"
    unfolding cached_addresses_def by (rule umap_at_mem) (use assms(2) in \<open>auto simp: cached_addresses_def\<close>)
  with assms show ?thesis by (auto simp: cache_ok_def list_all_iff)
qed

lemma requests_ok_at: "requests_ok m \<Longrightarrow> map_of m k = Some (t, rs) \<Longrightarrow> list_all (request_for k) rs"
  unfolding requests_ok_def by (drule map_of_SomeD) blast

lemma gets_ok_at: "gets_ok m \<Longrightarrow> map_of m k = Some p \<Longrightarrow> get_ok k p"
  unfolding gets_ok_def by (drule map_of_SomeD) blast

lemma ids_ok_at: "ids_ok k ids \<Longrightarrow> map_of ids i = Some p \<Longrightarrow> put_ok k i p"
  unfolding ids_ok_def by (drule map_of_SomeD) blast

lemma put_ids_ok:
  assumes "puts_ok (kc_pending_put_response_map kc)"
  shows "ids_ok k (put_ids k kc)"
proof (cases "put_ids k kc = []")
  case False
  then have "(k, put_ids k kc) \<in> set (kc_pending_put_response_map kc)"
    unfolding put_ids_def by (rule umap_at_mem)
  with assms show ?thesis unfolding puts_ok_def by blast
qed (simp add: ids_ok_def)

lemma gets_ok_update: "gets_ok m \<Longrightarrow> get_ok k p \<Longrightarrow> gets_ok (AList.update k p m)"
  unfolding gets_ok_def by (intro conjI umap_ok_update umap_all_update) auto

lemma ids_ok_update: "ids_ok k ids \<Longrightarrow> put_ok k i p \<Longrightarrow> ids_ok k (AList.update i p ids)"
  unfolding ids_ok_def by (intro conjI umap_ok_update umap_all_update) auto

lemma puts_ok_update: "puts_ok m \<Longrightarrow> ids_ok k ids \<Longrightarrow> puts_ok (AList.update k ids m)"
  unfolding puts_ok_def by (intro conjI umap_ok_update umap_all_update) auto

lemma requests_ok_update:
  "requests_ok m \<Longrightarrow> list_all (request_for k) rs \<Longrightarrow> requests_ok (AList.update k (t, rs) m)"
  unfolding requests_ok_def by (intro conjI umap_ok_update umap_all_update) auto

lemma kvs_inv_set_get: "kvs_inv kc \<Longrightarrow> get_ok k p \<Longrightarrow> kvs_inv (set_get k p kc)"
  by (simp add: kvs_inv_def set_get_def gets_ok_update)

lemma kvs_inv_set_put: "kvs_inv kc \<Longrightarrow> put_ok k i p \<Longrightarrow> kvs_inv (set_put k i p kc)"
  by (simp add: kvs_inv_def set_put_def puts_ok_update ids_ok_update put_ids_ok)

lemma note_pending_ok:
  assumes "request_for k r" and "good_address w"
  shows "rq_type r = GET \<Longrightarrow> (\<And>p. found = Some p \<Longrightarrow> get_ok k p) \<Longrightarrow> get_ok k (note_pending now w r found)"
    and "rq_type r = PUT \<Longrightarrow> (\<And>p. found = Some p \<Longrightarrow> put_ok k (rq_request_id r) p) \<Longrightarrow>
      put_ok k (rq_request_id r) (note_pending now w r found)"
  using assms by (auto simp: note_pending_def get_ok_def put_ok_def split: option.splits)

lemma kvs_inv_wait_for_response:
  assumes "kvs_inv kc" and "request_for k r" and "good_address w"
  shows "kvs_inv (wait_for_response now k w r kc)"
proof (cases "rq_type r = GET")
  case True
  have "get_ok k (note_pending now w r (map_of (kc_pending_get_response_map kc) k))"
    by (rule note_pending_ok(1) [OF assms(2,3) True])
      (use assms(1) gets_ok_at in \<open>auto simp: kvs_inv_def\<close>)
  with assms(1) True show ?thesis by (simp add: wait_for_response_def kvs_inv_set_get)
next
  case False
  then have put: "rq_type r = PUT" using assms(2) by (simp add: request_for_def)
  have "put_ok k (rq_request_id r) (note_pending now w r (map_of (put_ids k kc) (rq_request_id r)))"
    by (rule note_pending_ok(2) [OF assms(2,3) put])
      (use assms(1) in \<open>auto simp: kvs_inv_def intro: ids_ok_at [OF put_ids_ok]\<close>)
  with assms(1) False show ?thesis by (simp add: wait_for_response_def kvs_inv_set_put)
qed

lemma kvs_inv_wait_for_address:
  assumes "kvs_inv kc" and "request_for k r"
  shows "kvs_inv (wait_for_address now k r kc)"
proof -
  obtain t rs where p: "map_at (now, []) (map_of (kc_pending_request_map kc)) k = (t, rs)" by fastforce
  have ok: "requests_ok (kc_pending_request_map kc)" using assms(1) by (simp add: kvs_inv_def)
  have "list_all (request_for k) rs"
    using p requests_ok_at [OF ok, of k t rs]
    by (cases "map_of (kc_pending_request_map kc) k") auto
  then have "requests_ok (AList.update k (t, rs @ [r]) (kc_pending_request_map kc))"
    using ok assms(2) by (simp add: requests_ok_update)
  with assms(1) p show ?thesis by (simp add: kvs_inv_def wait_for_address_def Let_def)
qed

section \<open>Trying a request\<close>

lemma kvs_inv_counters [simp]: "kvs_inv (kc\<lparr>kc_rid := x, kc_seed := y\<rparr>) = kvs_inv kc" "kvs_inv (kc\<lparr>kc_rid := x\<rparr>) = kvs_inv kc"
  "kvs_inv (kc\<lparr>kc_seed := y\<rparr>) = kvs_inv kc"
  by (simp_all add: kvs_inv_def)

lemma query_routing_ok:
  assumes "kc_routing_threads kc \<noteq> []"
  shows "\<exists>sends x y. query_routing_async rnd key kc = Ok (sends, kc\<lparr>kc_rid := x, kc_seed := y\<rparr>)"
  using assms
  by (cases "next_request_id (kc_ut kc) (kc_rid kc)"; cases "rnd (kc_seed kc)")
    (auto simp: query_routing_async_def get_request_id_def get_routing_thread_def)

lemma try_request_waits:
  assumes "kvs_inv kc" and "request_for k r" and "cached_addresses k kc = []"
  shows "\<exists>sends x y. try_request rnd now r kc =
    Ok (r, sends, wait_for_address now k r (kc\<lparr>kc_rid := x, kc_seed := y\<rparr>))"
proof -
  obtain tp where tp: "rq_tuples r = [tp]" "kt_key tp = k" using request_for_tuple [OF assms(2)] by blast
  obtain sends x y where q: "query_routing_async rnd k kc = Ok (sends, kc\<lparr>kc_rid := x, kc_seed := y\<rparr>)"
    using query_routing_ok assms(1) by (metis kvs_inv_def)
  have same: "kc = kc\<lparr>kc_rid := kc_rid kc, kc_seed := kc_seed kc\<rparr>" by simp
  show ?thesis
  proof (cases "map_of (kc_pending_request_map kc) k")
    case None
    then have "try_request rnd now r kc = Ok (r, sends, wait_for_address now k r (kc\<lparr>kc_rid := x, kc_seed := y\<rparr>))"
      using q by (simp add: try_request_def tp get_worker_thread_def get_all_worker_threads_def assms(3))
    then show ?thesis by blast
  next
    case (Some p)
    then have "try_request rnd now r kc =
        Ok (r, [], wait_for_address now k r (kc\<lparr>kc_rid := kc_rid kc, kc_seed := kc_seed kc\<rparr>))"
      by (simp add: try_request_def tp get_worker_thread_def get_all_worker_threads_def assms(3))
    then show ?thesis by blast
  qed
qed

text \<open>The request with the number of addresses filled in.\<close>

definition sized_request :: "nat \<Rightarrow> KeyRequest \<Rightarrow> KeyRequest" where
  "sized_request n r =
     r\<lparr>rq_tuples := map (\<lambda>tp. tp\<lparr>kt_address_cache_size := word_of_nat n\<rparr>) (rq_tuples r)\<rparr>"

lemma sized_request_simps [simp]:
  "rq_type (sized_request n r) = rq_type r" "rq_request_id (sized_request n r) = rq_request_id r"
  "request_for k (sized_request n r) = request_for k r"
  by (simp_all add: sized_request_def request_for_def comp_def)

lemma try_request_sends:
  assumes "kvs_inv kc" and "request_for k r" and "cached_addresses k kc \<noteq> []"
  shows "\<exists>w y. w \<in> set (cached_addresses k kc) \<and>
    (let r' = sized_request (length (cached_addresses k kc)) r
     in try_request rnd now r kc =
          Ok (r', [Send_Key w r'], wait_for_response now k w r' (kc\<lparr>kc_seed := y\<rparr>)))"
proof -
  obtain tp where tp: "rq_tuples r = [tp]" "kt_key tp = k" using request_for_tuple [OF assms(2)] by blast
  obtain n seed where rnd: "rnd (kc_seed kc) = (n, seed)" by fastforce
  let ?as = "cached_addresses k kc"
  let ?w = "?as ! (n mod length ?as)"
  have w: "?w \<in> set ?as" using assms(3) by simp
  then have "?w \<noteq> []" using assms(1) cached_good good_address_not_Nil by (auto simp: kvs_inv_def)
  moreover have "cached_addresses k (kc\<lparr>kc_seed := seed\<rparr>) = ?as" by (simp add: cached_addresses_def)
  ultimately show ?thesis
    using w assms(3)
    by (intro exI [of _ ?w] exI [of _ seed])
      (simp add: try_request_def tp get_worker_thread_def get_all_worker_threads_def rnd Let_def
        sized_request_def)
qed

end
