(* ===== verification/Ph_Kvs_Open.thy ===== *)
theory Ph_Kvs_Open
  imports Ph_Kvs_Inv
begin

text \<open>
  The key-value client, second part: which requests are open, and that trying, retrying and moving
  requests between the tables loses none of them.
\<close>

section \<open>Open requests\<close>

definition pending_reqs :: "KvsClient \<Rightarrow> Key \<Rightarrow> KeyRequest list" where
  "pending_reqs kc k = snd (umap_at (0, []) (kc_pending_request_map kc) k)"

definition sent_get :: "KvsClient \<Rightarrow> Key \<Rightarrow> bool" where
  "sent_get kc k \<longleftrightarrow> map_of (kc_pending_get_response_map kc) k \<noteq> None"

definition sent_put :: "KvsClient \<Rightarrow> Key \<Rightarrow> string \<Rightarrow> bool" where
  "sent_put kc k i \<longleftrightarrow> map_of (put_ids k kc) i \<noteq> None"

text \<open>A read is known by its key, a write by its key and id. It is open while a table holds it.\<close>

definition open_get :: "KvsClient \<Rightarrow> Key \<Rightarrow> bool" where
  "open_get kc k \<longleftrightarrow> sent_get kc k \<or> (\<exists>r \<in> set (pending_reqs kc k). rq_type r = GET)"

definition open_put :: "KvsClient \<Rightarrow> Key \<Rightarrow> string \<Rightarrow> bool" where
  "open_put kc k i \<longleftrightarrow> sent_put kc k i \<or>
     (\<exists>r \<in> set (pending_reqs kc k). rq_type r = PUT \<and> rq_request_id r = i)"

definition answers_get :: "KeyResponse list \<Rightarrow> Key \<Rightarrow> bool" where
  "answers_get result k \<longleftrightarrow> (\<exists>r \<in> set result. rs_type r = GET \<and> map kt_key (take 1 (rs_tuples r)) = [k])"

definition answers_put :: "KeyResponse list \<Rightarrow> Key \<Rightarrow> string \<Rightarrow> bool" where
  "answers_put result k i \<longleftrightarrow>
     (\<exists>r \<in> set result. rs_type r \<noteq> GET \<and> map kt_key (take 1 (rs_tuples r)) = [k] \<and> rs_response_id r = i)"

text \<open>No request disappears without an answer.\<close>

definition keeps :: "KvsClient \<Rightarrow> KeyResponse list \<Rightarrow> KvsClient \<Rightarrow> bool" where
  "keeps kc result kc' \<longleftrightarrow>
     (\<forall>k. open_get kc k \<longrightarrow> open_get kc' k \<or> answers_get result k) \<and>
     (\<forall>k i. open_put kc k i \<longrightarrow> open_put kc' k i \<or> answers_put result k i)"

definition grows :: "KvsClient \<Rightarrow> KvsClient \<Rightarrow> bool" where
  "grows kc kc' \<longleftrightarrow> (\<forall>k. sent_get kc k \<longrightarrow> sent_get kc' k) \<and> (\<forall>k i. sent_put kc k i \<longrightarrow> sent_put kc' k i) \<and>
     (\<forall>k. set (pending_reqs kc k) \<subseteq> set (pending_reqs kc' k))"

lemma keeps_refl: "keeps kc [] kc" by (simp add: keeps_def)

lemma keeps_trans: "keeps a r1 b \<Longrightarrow> keeps b r2 c \<Longrightarrow> keeps a (r1 @ r2) c"
  unfolding keeps_def answers_get_def answers_put_def by (simp only: set_append Un_iff bex_Un) blast

lemma grows_refl: "grows kc kc" by (simp add: grows_def)

lemma grows_trans: "grows a b \<Longrightarrow> grows b c \<Longrightarrow> grows a c"
  unfolding grows_def by blast

lemma grows_keeps: "grows kc kc' \<Longrightarrow> keeps kc [] kc'"
  unfolding grows_def keeps_def open_get_def open_put_def by blast

text \<open>Only the tables matter.\<close>

definition tables ::
  "KvsClient \<Rightarrow> (Key \<times> time \<times> KeyRequest list) list \<times> (Key \<times> PendingRequest) list \<times>
   (Key \<times> (string \<times> PendingRequest) list) list" where
  "tables kc = (kc_pending_request_map kc, kc_pending_get_response_map kc, kc_pending_put_response_map kc)"

lemma tables_cong:
  assumes "tables kc = tables kc'"
  shows "pending_reqs kc = pending_reqs kc'" "sent_get kc = sent_get kc'" "sent_put kc = sent_put kc'"
    "grows kc kc'"
  using assms by (auto simp: tables_def pending_reqs_def sent_get_def sent_put_def put_ids_def grows_def fun_eq_iff)

lemma set_get_tables [simp]:
  "pending_reqs (set_get k p kc) = pending_reqs kc"
  "sent_get (set_get k p kc) k' \<longleftrightarrow> k' = k \<or> sent_get kc k'"
  "sent_put (set_get k p kc) = sent_put kc"
  by (auto simp: set_get_def pending_reqs_def sent_get_def sent_put_def put_ids_def fun_eq_iff update_conv')

lemma put_ids_set_put [simp]:
  "put_ids k' (set_put k i p kc) = (if k' = k then AList.update i p (put_ids k kc) else put_ids k' kc)"
  by (simp add: set_put_def put_ids_def)

lemma set_put_tables [simp]:
  "pending_reqs (set_put k i p kc) = pending_reqs kc"
  "sent_get (set_put k i p kc) = sent_get kc"
  "sent_put (set_put k i p kc) k' i' \<longleftrightarrow> (k', i') = (k, i) \<or> sent_put kc k' i'"
proof -
  show "pending_reqs (set_put k i p kc) = pending_reqs kc" "sent_get (set_put k i p kc) = sent_get kc"
    by (simp_all add: set_put_def pending_reqs_def sent_get_def fun_eq_iff)
  show "sent_put (set_put k i p kc) k' i' \<longleftrightarrow> (k', i') = (k, i) \<or> sent_put kc k' i'"
    by (simp add: sent_put_def update_conv')
qed

lemma wait_for_address_tables [simp]:
  "pending_reqs (wait_for_address now k r kc) k' = (if k' = k then pending_reqs kc k @ [r] else pending_reqs kc k')"
  "sent_get (wait_for_address now k r kc) = sent_get kc"
  "sent_put (wait_for_address now k r kc) = sent_put kc"
proof -
  show "pending_reqs (wait_for_address now k r kc) k' = (if k' = k then pending_reqs kc k @ [r] else pending_reqs kc k')"
    by (cases "map_of (kc_pending_request_map kc) k")
      (simp_all add: wait_for_address_def pending_reqs_def umap_at_def update_conv' Let_def)
  show "sent_get (wait_for_address now k r kc) = sent_get kc" "sent_put (wait_for_address now k r kc) = sent_put kc"
    by (simp_all add: wait_for_address_def sent_get_def sent_put_def put_ids_def fun_eq_iff Let_def)
qed

lemma wait_for_response_tables [simp]:
  "pending_reqs (wait_for_response now k w r kc) = pending_reqs kc"
  "sent_get (wait_for_response now k w r kc) k' \<longleftrightarrow> rq_type r = GET \<and> k' = k \<or> sent_get kc k'"
  "sent_put (wait_for_response now k w r kc) k' i \<longleftrightarrow>
     rq_type r \<noteq> GET \<and> k' = k \<and> i = rq_request_id r \<or> sent_put kc k' i"
  by (auto simp: wait_for_response_def)

lemma frames [simp]:
  "kc_key_address_cache (wait_for_response now k w r kc) = kc_key_address_cache kc"
  "kc_pending_request_map (wait_for_response now k w r kc) = kc_pending_request_map kc"
  "kc_key_address_cache (wait_for_address now k r kc) = kc_key_address_cache kc"
  "kc_key_address_cache (set_get k p kc) = kc_key_address_cache kc"
  "kc_key_address_cache (set_put k i p kc) = kc_key_address_cache kc"
  by (simp_all add: wait_for_response_def wait_for_address_def set_get_def set_put_def Let_def)

lemma counter_tables [simp]:
  "tables (kc\<lparr>kc_rid := x, kc_seed := y\<rparr>) = tables kc" "tables (kc\<lparr>kc_seed := y\<rparr>) = tables kc"
  "tables (kc\<lparr>kc_rid := x\<rparr>) = tables kc" "tables (kc\<lparr>kc_key_address_cache := c\<rparr>) = tables kc"
  by (simp_all add: tables_def)

section \<open>Trying a request\<close>

lemma try_request_ok:
  assumes "kvs_inv kc" and "request_for k r"
  shows "\<exists>r' sends kc'. try_request rnd now r kc = Ok (r', sends, kc') \<and> kvs_inv kc' \<and>
    request_for k r' \<and> rq_type r' = rq_type r \<and> rq_request_id r' = rq_request_id r \<and>
    kc_key_address_cache kc' = kc_key_address_cache kc \<and> grows kc kc' \<and>
    (rq_type r = GET \<longrightarrow> open_get kc' k) \<and> (rq_type r = PUT \<longrightarrow> open_put kc' k (rq_request_id r)) \<and>
    (cached_addresses k kc \<noteq> [] \<longrightarrow> kc_pending_request_map kc' = kc_pending_request_map kc \<and>
      (rq_type r = GET \<longrightarrow> sent_get kc' k) \<and> (rq_type r = PUT \<longrightarrow> sent_put kc' k (rq_request_id r)))"
proof (cases "cached_addresses k kc = []")
  case True
  obtain sends x y where t: "try_request rnd now r kc =
      Ok (r, sends, wait_for_address now k r (kc\<lparr>kc_rid := x, kc_seed := y\<rparr>))"
    using try_request_waits [OF assms True] by blast
  let ?kc = "kc\<lparr>kc_rid := x, kc_seed := y\<rparr>"
  note same = tables_cong [of ?kc kc, OF counter_tables(1)]
  have "kvs_inv (wait_for_address now k r ?kc)"
    by (rule kvs_inv_wait_for_address) (use assms in simp_all)
  moreover have "grows kc (wait_for_address now k r ?kc)"
    by (auto simp: grows_def same)
  ultimately show ?thesis
    using True assms(2) unfolding t
    by (intro exI [of _ r] exI [of _ sends] exI [of _ "wait_for_address now k r ?kc"])
      (auto simp: open_get_def open_put_def)
next
  case False
  let ?r = "sized_request (length (cached_addresses k kc)) r"
  obtain w y where w: "w \<in> set (cached_addresses k kc)" and t: "try_request rnd now r kc =
      Ok (?r, [Send_Key w ?r], wait_for_response now k w ?r (kc\<lparr>kc_seed := y\<rparr>))"
    using try_request_sends [OF assms False] unfolding Let_def by blast
  let ?kc = "kc\<lparr>kc_seed := y\<rparr>"
  note same = tables_cong [of ?kc kc, OF counter_tables(2)]
  have "good_address w" using w assms(1) cached_good by (auto simp: kvs_inv_def)
  then have "kvs_inv (wait_for_response now k w ?r ?kc)"
    by (intro kvs_inv_wait_for_response) (use assms in simp_all)
  moreover have "grows kc (wait_for_response now k w ?r ?kc)"
    by (auto simp: grows_def same)
  ultimately show ?thesis
    using False assms(2) unfolding t
    by (intro exI [of _ ?r] exI [of _ "[Send_Key w ?r]"] exI [of _ "wait_for_response now k w ?r ?kc"])
      (auto simp: open_get_def open_put_def)
qed

definition handed_over :: "KvsClient \<Rightarrow> Key \<Rightarrow> KeyRequest \<Rightarrow> bool" where
  "handed_over kc k r \<longleftrightarrow> (rq_type r = GET \<longrightarrow> sent_get kc k) \<and> (rq_type r = PUT \<longrightarrow> sent_put kc k (rq_request_id r))"

lemma handed_over_grows: "handed_over kc k r \<Longrightarrow> grows kc kc' \<Longrightarrow> handed_over kc' k r"
  unfolding handed_over_def grows_def by blast

lemma retry_pending_ok:
  assumes "kvs_inv kc" and "list_all (request_for k) rs" and "cached_addresses k kc \<noteq> []"
  shows "\<exists>sends kc'. res_fold (retry_pending rnd now) rs (out, kc) = Ok (sends, kc') \<and> kvs_inv kc' \<and>
    kc_pending_request_map kc' = kc_pending_request_map kc \<and> grows kc kc' \<and> list_all (handed_over kc' k) rs"
  using assms
proof (induction rs arbitrary: out kc)
  case Nil
  then show ?case by (simp add: grows_refl)
next
  case (Cons r rs)
  then have r: "request_for k r" by simp
  obtain r' sends kc1 where t: "try_request rnd now r kc = Ok (r', sends, kc1)" and inv: "kvs_inv kc1"
    and cache: "kc_key_address_cache kc1 = kc_key_address_cache kc" and g: "grows kc kc1"
    and pend: "kc_pending_request_map kc1 = kc_pending_request_map kc"
    and "(rq_type r = GET \<longrightarrow> sent_get kc1 k) \<and> (rq_type r = PUT \<longrightarrow> sent_put kc1 k (rq_request_id r))"
    using try_request_ok [OF Cons.prems(1) r, of rnd now] Cons.prems(3) by blast
  then have h: "handed_over kc1 k r" by (simp add: handed_over_def)
  have ne: "cached_addresses k kc1 \<noteq> []" using Cons.prems(3) cache by (simp add: cached_addresses_def)
  have rs: "list_all (request_for k) rs" using Cons.prems(2) by simp
  obtain sends' kc' where "res_fold (retry_pending rnd now) rs (out @ sends, kc1) = Ok (sends', kc')"
    and 1: "kvs_inv kc'" "kc_pending_request_map kc' = kc_pending_request_map kc1" "grows kc1 kc'"
    "list_all (handed_over kc' k) rs"
    using Cons.IH [OF inv rs ne, of "out @ sends"] by blast
  then have "res_fold (retry_pending rnd now) (r # rs) (out, kc) = Ok (sends', kc')"
    by (simp add: retry_pending_def t pend)
  with 1 pend g h show ?case
    by (intro exI [of _ sends'] exI [of _ kc']) (auto intro: grows_trans handed_over_grows)
qed


section \<open>Messages from the routing tier and from workers\<close>

lemma requests_ok_delete: "requests_ok m \<Longrightarrow> requests_ok (AList.delete k m)"
  using set_delete_subset [of k m] by (auto simp: requests_ok_def umap_ok_delete)

lemma gets_ok_delete: "gets_ok m \<Longrightarrow> gets_ok (AList.delete k m)"
  using set_delete_subset [of k m] by (auto simp: gets_ok_def umap_ok_delete)

lemma ids_ok_delete: "ids_ok k m \<Longrightarrow> ids_ok k (AList.delete i m)"
  using set_delete_subset [of i m] by (auto simp: ids_ok_def umap_ok_delete)

lemma puts_ok_delete: "puts_ok m \<Longrightarrow> puts_ok (AList.delete k m)"
  using set_delete_subset [of k m] by (auto simp: puts_ok_def umap_ok_delete)

lemma cache_ok_delete: "cache_ok m \<Longrightarrow> cache_ok (AList.delete k m)"
  using set_delete_subset [of k m] by (auto simp: cache_ok_def umap_ok_delete)

lemma cache_ok_update: "cache_ok m \<Longrightarrow> as \<noteq> [] \<Longrightarrow> list_all good_address as \<Longrightarrow> cache_ok (AList.update k as m)"
  unfolding cache_ok_def by (intro conjI umap_ok_update umap_all_update) auto

text \<open>An answer of the routing tier names a key, and addresses unless no server has joined.\<close>

definition address_response_wf :: "KeyAddressResponse \<Rightarrow> bool" where
  "address_response_wf resp \<longleftrightarrow>
     (case kas_addresses resp of
        [] \<Rightarrow> False
      | a # _ \<Rightarrow> kas_error resp = NO_SERVERS \<or> ka_ips a \<noteq> [] \<and> list_all good_address (ka_ips a))"

lemma kvs_inv_new_addresses:
  assumes "kvs_inv kc" and "ips \<noteq> []" and "list_all good_address ips"
    and "kc1 = kc\<lparr>kc_key_address_cache := AList.update k
      (fold uset_insert ips (cached_addresses k kc)) (kc_key_address_cache kc)\<rparr>"
  shows "kvs_inv kc1 \<and> cached_addresses k kc1 \<noteq> []"
proof -
  let ?as = "fold uset_insert ips (cached_addresses k kc)"
  have "set ?as = set (cached_addresses k kc) \<union> set ips" by (rule set_fold_uset_insert)
  then have "?as \<noteq> []" "list_all good_address ?as"
    using assms(1-3) cached_good by (auto simp: kvs_inv_def list_all_iff)
  with assms(1) show ?thesis
    unfolding assms(4) by (simp add: kvs_inv_def cache_ok_update cached_addresses_def)
qed

lemma keeps_after_delete:
  assumes "list_all (handed_over kc k) (pending_reqs kc k)"
  shows "keeps kc [] (kc\<lparr>kc_pending_request_map := AList.delete k (kc_pending_request_map kc)\<rparr>)"
proof -
  let ?kc = "kc\<lparr>kc_pending_request_map := AList.delete k (kc_pending_request_map kc)\<rparr>"
  have "pending_reqs ?kc k' = (if k' = k then [] else pending_reqs kc k')" for k'
    by (simp add: pending_reqs_def umap_at_def map_at_def delete_conv')
  moreover have "sent_get ?kc = sent_get kc" "sent_put ?kc = sent_put kc"
    by (simp_all add: sent_get_def sent_put_def put_ids_def fun_eq_iff)
  ultimately show ?thesis
    using assms by (auto simp: keeps_def open_get_def open_put_def handed_over_def list_all_iff)
qed

lemma handle_address_response_ok:
  assumes "kvs_inv kc" and "address_response_wf resp"
  shows "\<exists>sends kc'. handle_address_response rnd now resp kc = Ok (sends, kc') \<and> kvs_inv kc' \<and> keeps kc [] kc'"
proof -
  obtain a as where a: "kas_addresses resp = a # as"
    and wf: "kas_error resp = NO_SERVERS \<or> ka_ips a \<noteq> [] \<and> list_all good_address (ka_ips a)"
    using assms(2) by (auto simp: address_response_wf_def split: list.splits)
  let ?k = "ka_key a"
  have reqs: "requests_ok (kc_pending_request_map kc)" and rt: "kc_routing_threads kc \<noteq> []"
    using assms(1) by (simp_all add: kvs_inv_def)
  show ?thesis
  proof (cases "map_of (kc_pending_request_map kc) ?k")
    case None
    then show ?thesis using assms(1) by (simp add: handle_address_response_def a keeps_refl)
  next
    case (Some p)
    obtain tp rs where p: "p = (tp, rs)" by fastforce
    have rs: "list_all (request_for ?k) rs" using requests_ok_at [OF reqs] Some p by simp
    show ?thesis
    proof (cases "kas_error resp = NO_SERVERS")
      case True
      let ?kc = "kc\<lparr>kc_pending_request_map := AList.update ?k (now, rs) (kc_pending_request_map kc)\<rparr>"
      obtain sends x y where q: "query_routing_async rnd ?k ?kc = Ok (sends, ?kc\<lparr>kc_rid := x, kc_seed := y\<rparr>)"
        using query_routing_ok [of ?kc rnd ?k] rt by auto
      have "kvs_inv ?kc" using assms(1) reqs rs by (simp add: kvs_inv_def requests_ok_update)
      moreover have "pending_reqs ?kc = pending_reqs kc"
        using Some p by (auto simp: pending_reqs_def umap_at_def fun_eq_iff update_conv' map_at_def)
      then have "grows kc ?kc"
        by (simp add: grows_def sent_get_def sent_put_def put_ids_def)
      then have "grows kc (?kc\<lparr>kc_rid := x, kc_seed := y\<rparr>)"
        using tables_cong(4) [of ?kc "?kc\<lparr>kc_rid := x, kc_seed := y\<rparr>"] grows_trans by simp
      ultimately show ?thesis
        using q by (simp add: handle_address_response_def a Some p True grows_keeps)
    next
      case False
      then have ips: "ka_ips a \<noteq> []" "list_all good_address (ka_ips a)" using wf by auto
      let ?kc = "kc\<lparr>kc_key_address_cache := AList.update ?k
          (fold uset_insert (ka_ips a) (cached_addresses ?k kc)) (kc_key_address_cache kc)\<rparr>"
      have inv: "kvs_inv ?kc" and ne: "cached_addresses ?k ?kc \<noteq> []"
        using kvs_inv_new_addresses [OF assms(1) ips refl] by blast+
      obtain sends kc2 where f: "res_fold (retry_pending rnd now) rs ([], ?kc) = Ok (sends, kc2)"
        and 2: "kvs_inv kc2" "kc_pending_request_map kc2 = kc_pending_request_map ?kc" "grows ?kc kc2"
        "list_all (handed_over kc2 ?k) rs"
        using retry_pending_ok [OF inv rs ne] by blast
      let ?kc3 = "kc2\<lparr>kc_pending_request_map := AList.delete ?k (kc_pending_request_map kc2)\<rparr>"
      have "pending_reqs kc2 ?k = rs" using 2(2) Some p by (simp add: pending_reqs_def umap_at_def)
      with 2(4) have "keeps kc2 [] ?kc3" by (intro keeps_after_delete) simp
      moreover have "keeps kc [] kc2"
        using grows_trans [OF tables_cong(4) [of kc ?kc] 2(3)] by (intro grows_keeps) simp
      ultimately have "keeps kc [] ?kc3" using keeps_trans [of kc "[]" kc2 "[]" ?kc3] by simp
      moreover have "kvs_inv ?kc3" using 2(1) by (simp add: kvs_inv_def requests_ok_delete)
      ultimately show ?thesis
        using f ips by (simp add: handle_address_response_def a Some p False)
    qed
  qed
qed

lemma check_tuple_ok:
  assumes "kvs_inv kc" and "check_tuple tp kc = (reissue, kc')"
  shows "kvs_inv kc' \<and> tables kc' = tables kc"
  using assms
  by (auto simp: check_tuple_def invalidate_cache_for_key_def kvs_inv_def cache_ok_delete tables_def
      split: if_splits)

lemma retry_get_ok:
  assumes "kvs_inv kc" and "get_ok k p"
  shows "\<exists>sends kc'. retry_get rnd now k p kc = Ok (sends, kc') \<and> kvs_inv kc' \<and> grows kc kc'"
proof -
  let ?kc = "set_get k (p\<lparr>pr_tp := now\<rparr>) kc"
  have inv: "kvs_inv ?kc" using assms by (intro kvs_inv_set_get) (simp_all add: get_ok_def)
  have r: "request_for k (pr_request p)" "rq_type (pr_request p) = GET" using assms(2) by (simp_all add: get_ok_def)
  obtain r' sends kc1 where t: "try_request rnd now (pr_request p) ?kc = Ok (r', sends, kc1)" "kvs_inv kc1"
    "request_for k r'" "rq_type r' = rq_type (pr_request p)" "grows ?kc kc1"
    using try_request_ok [OF inv r(1), of rnd now] by blast
  let ?p = "map_at p (map_of (kc_pending_get_response_map kc1)) k"
  have "get_ok k ?p"
    using t(2) assms(2) gets_ok_at [of "kc_pending_get_response_map kc1" k]
    by (cases "map_of (kc_pending_get_response_map kc1) k") (auto simp: kvs_inv_def)
  then have "kvs_inv (set_get k (?p\<lparr>pr_request := r'\<rparr>) kc1)"
    using t r by (intro kvs_inv_set_get) (simp_all add: get_ok_def)
  moreover have "grows kc ?kc" "grows kc1 (set_get k (?p\<lparr>pr_request := r'\<rparr>) kc1)" by (simp_all add: grows_def)
  then have "grows kc (set_get k (?p\<lparr>pr_request := r'\<rparr>) kc1)" using t(5) grows_trans by blast
  ultimately show ?thesis using t(1) by (simp add: retry_get_def Let_def)
qed

lemma retry_put_ok:
  assumes "kvs_inv kc" and "put_ok k i p"
  shows "\<exists>sends kc'. retry_put rnd now k i p kc = Ok (sends, kc') \<and> kvs_inv kc' \<and> grows kc kc'"
proof -
  let ?kc = "set_put k i (p\<lparr>pr_tp := now\<rparr>) kc"
  have inv: "kvs_inv ?kc" using assms by (intro kvs_inv_set_put) (simp_all add: put_ok_def)
  have r: "request_for k (pr_request p)" "rq_type (pr_request p) = PUT" "rq_request_id (pr_request p) = i"
    using assms(2) by (simp_all add: put_ok_def)
  obtain r' sends kc1 where t: "try_request rnd now (pr_request p) ?kc = Ok (r', sends, kc1)" "kvs_inv kc1"
    "request_for k r'" "rq_type r' = rq_type (pr_request p)" "rq_request_id r' = rq_request_id (pr_request p)"
    "grows ?kc kc1"
    using try_request_ok [OF inv r(1), of rnd now] by blast
  let ?p = "map_at p (map_of (put_ids k kc1)) i"
  have "ids_ok k (put_ids k kc1)" using t(2) by (simp add: kvs_inv_def put_ids_ok)
  then have "put_ok k i ?p"
    using assms(2) ids_ok_at [of k "put_ids k kc1" i] by (cases "map_of (put_ids k kc1) i") auto
  then have "kvs_inv (set_put k i (?p\<lparr>pr_request := r'\<rparr>) kc1)"
    using t r by (intro kvs_inv_set_put) (simp_all add: put_ok_def)
  moreover have "grows kc ?kc" "grows kc1 (set_put k i (?p\<lparr>pr_request := r'\<rparr>) kc1)" by (simp_all add: grows_def)
  then have "grows kc (set_put k i (?p\<lparr>pr_request := r'\<rparr>) kc1)" using t(6) grows_trans by blast
  ultimately show ?thesis using t(1) by (simp add: retry_put_def Let_def)
qed

end
