(* ===== verification/Ph_Kvs_Laws.thy ===== *)
theory Ph_Kvs_Laws
  imports Ph_Kvs_Open
begin

text \<open>
  The key-value client, last part: answers of workers, timeouts, and the properties of issuing and
  receiving.
\<close>

lemma handle_get_response_ok:
  assumes "kvs_inv kc" and "rs_type resp = GET" and "rs_tuples resp = tp # tps"
  shows "\<exists>result sends kc'. handle_get_response rnd now resp tp kc = Ok (result, sends, kc') \<and>
    kvs_inv kc' \<and> keeps kc result kc'"
proof (cases "map_of (kc_pending_get_response_map kc) (kt_key tp)")
  case None
  then show ?thesis using assms(1) by (simp add: handle_get_response_def keeps_refl)
next
  case (Some p)
  obtain reissue kc1 where c: "check_tuple tp kc = (reissue, kc1)" by fastforce
  have inv: "kvs_inv kc1" and tab: "tables kc1 = tables kc" using check_tuple_ok [OF assms(1) c] by blast+
  have p: "get_ok (kt_key tp) p" using assms(1) gets_ok_at [OF _ Some] by (simp add: kvs_inv_def)
  have g: "grows kc kc1" using tables_cong(4) [OF tab [symmetric]] .
  show ?thesis
  proof (cases reissue)
    case True
    obtain sends kc2 where "retry_get rnd now (kt_key tp) p kc1 = Ok (sends, kc2)" "kvs_inv kc2" "grows kc1 kc2"
      using retry_get_ok [OF inv p] by blast
    with g show ?thesis
      by (auto simp: handle_get_response_def Some c True intro: grows_keeps grows_trans)
  next
    case False
    let ?kc = "kc1\<lparr>kc_pending_get_response_map := AList.delete (kt_key tp) (kc_pending_get_response_map kc1)\<rparr>"
    have "kvs_inv ?kc" using inv by (simp add: kvs_inv_def gets_ok_delete)
    moreover have "sent_get ?kc k \<longleftrightarrow> sent_get kc k \<and> k \<noteq> kt_key tp" "pending_reqs ?kc k = pending_reqs kc k"
      "sent_put ?kc k i = sent_put kc k i" for k i
      using tab by (simp_all add: tables_def sent_get_def pending_reqs_def sent_put_def put_ids_def delete_conv')
    then have "keeps kc [resp] ?kc"
      using assms(2,3) by (auto simp: keeps_def open_get_def open_put_def answers_get_def)
    ultimately show ?thesis by (auto simp: handle_get_response_def Some c False)
  qed
qed

lemma handle_put_response_ok:
  assumes "kvs_inv kc" and "rs_type resp \<noteq> GET" and "rs_tuples resp = tp # tps"
  shows "\<exists>result sends kc'. handle_put_response rnd now resp tp kc = Ok (result, sends, kc') \<and>
    kvs_inv kc' \<and> keeps kc result kc'"
proof (cases "map_of (put_ids (kt_key tp) kc) (rs_response_id resp)")
  case None
  then show ?thesis using assms(1) by (simp add: handle_put_response_def keeps_refl Let_def)
next
  case (Some p)
  let ?k = "kt_key tp" and ?i = "rs_response_id resp"
  obtain reissue kc1 where c: "check_tuple tp kc = (reissue, kc1)" by fastforce
  have inv: "kvs_inv kc1" and tab: "tables kc1 = tables kc" using check_tuple_ok [OF assms(1) c] by blast+
  have ids: "ids_ok ?k (put_ids ?k kc)" using assms(1) by (simp add: kvs_inv_def put_ids_ok)
  have p: "put_ok ?k ?i p" by (rule ids_ok_at [OF ids Some])
  have g: "grows kc kc1" using tables_cong(4) [OF tab [symmetric]] .
  show ?thesis
  proof (cases reissue)
    case True
    obtain sends kc2 where "retry_put rnd now ?k ?i p kc1 = Ok (sends, kc2)" "kvs_inv kc2" "grows kc1 kc2"
      using retry_put_ok [OF inv p] by blast
    with g show ?thesis
      by (auto simp: handle_put_response_def Some c True Let_def intro: grows_keeps grows_trans)
  next
    case False
    let ?ids = "AList.delete ?i (put_ids ?k kc)"
    let ?kc = "kc1\<lparr>kc_pending_put_response_map :=
      (if ?ids = [] then AList.delete ?k (kc_pending_put_response_map kc1)
       else AList.update ?k ?ids (kc_pending_put_response_map kc1))\<rparr>"
    have "kvs_inv ?kc"
      using inv ids by (simp add: kvs_inv_def puts_ok_delete puts_ok_update ids_ok_delete)
    moreover have "put_ids k ?kc = (if k = ?k then ?ids else put_ids k kc)" for k
      using tab by (simp add: tables_def put_ids_def umap_at_def map_at_def update_conv' delete_conv')
    then have "sent_put ?kc k i \<longleftrightarrow> sent_put kc k i \<and> (k, i) \<noteq> (?k, ?i)" for k i
      by (simp add: sent_put_def delete_conv')
    moreover have "sent_get ?kc k = sent_get kc k" "pending_reqs ?kc k = pending_reqs kc k" for k
      using tab by (simp_all add: tables_def sent_get_def pending_reqs_def)
    ultimately have "kvs_inv ?kc \<and> keeps kc [resp] ?kc"
      using assms(2,3) by (auto simp: keeps_def open_get_def open_put_def answers_put_def)
    then show ?thesis by (auto simp: handle_put_response_def Some c False Let_def)
  qed
qed

lemma handle_key_response_ok:
  assumes "kvs_inv kc" and "rs_tuples resp \<noteq> []"
  shows "\<exists>result sends kc'. handle_key_response rnd now resp kc = Ok (result, sends, kc') \<and>
    kvs_inv kc' \<and> keeps kc result kc'"
proof -
  obtain tp tps where tp: "rs_tuples resp = tp # tps" using assms(2) by (cases "rs_tuples resp") auto
  show ?thesis
    using handle_get_response_ok [OF assms(1) _ tp, of rnd now] handle_put_response_ok [OF assms(1) _ tp, of rnd now]
    by (simp add: handle_key_response_def tp)
qed

section \<open>Timeouts\<close>

text \<open>The answer to an expired request, and to a list of them.\<close>

definition timeout_for :: "Key \<Rightarrow> KeyRequest \<Rightarrow> KeyResponse \<Rightarrow> bool" where
  "timeout_for k r b \<longleftrightarrow> rs_type b = rq_type r \<and> map kt_key (rs_tuples b) = [k] \<and>
     rs_response_id b = rq_request_id r \<and> rs_error b = TIMEOUT"

definition timeouts :: "(Key \<times> KeyRequest) list \<Rightarrow> KeyResponse list \<Rightarrow> bool" where
  "timeouts expired result \<longleftrightarrow> list_all2 (\<lambda>kr. timeout_for (fst kr) (snd kr)) expired result"

lemma generate_bad_response_ok:
  "request_for k r \<Longrightarrow> \<exists>b. generate_bad_response r = Ok b \<and> timeout_for k r b"
  by (drule request_for_tuple) (auto simp: generate_bad_response_def timeout_for_def)

lemma timeouts_answer:
  assumes "timeouts expired result" and "(k, r) \<in> set expired"
  shows "rq_type r = GET \<Longrightarrow> answers_get result k" "rq_type r \<noteq> GET \<Longrightarrow> answers_put result k (rq_request_id r)"
proof -
  obtain i where i: "i < length expired" "expired ! i = (k, r)" using assms(2) by (auto simp: in_set_conv_nth)
  then have b: "result ! i \<in> set result" "rs_type (result ! i) = rq_type r"
    "map kt_key (rs_tuples (result ! i)) = [k]" "rs_response_id (result ! i) = rq_request_id r"
    using list_all2_nthD [OF assms(1) [unfolded timeouts_def] i(1)]
      list_all2_lengthD [OF assms(1) [unfolded timeouts_def]] by (simp_all add: timeout_for_def)
  then have "map kt_key (take 1 (rs_tuples (result ! i))) = [k]" by (auto simp: map_eq_Cons_conv)
  with b show "rq_type r = GET \<Longrightarrow> answers_get result k" "rq_type r \<noteq> GET \<Longrightarrow> answers_put result k (rq_request_id r)"
    unfolding answers_get_def answers_put_def by (metis, metis)
qed

lemma bad_responses_ok:
  "list_all (\<lambda>(k, r). request_for k r) expired \<Longrightarrow>
   \<exists>result. res_map generate_bad_response (map snd expired) = Ok result \<and> timeouts expired result"
proof (induction expired)
  case (Cons kr expired)
  obtain k r where kr: "kr = (k, r)" by fastforce
  have "request_for k r" using Cons.prems kr by simp
  from generate_bad_response_ok [OF this] Cons kr show ?case by (auto simp: timeouts_def)
qed (simp add: timeouts_def)

lemma invalidate_cache_for_worker_ok:
  assumes "kvs_inv kc" and "good_address w"
  shows "\<exists>c. invalidate_cache_for_worker w kc = Ok (kc\<lparr>kc_key_address_cache := c\<rparr>) \<and> cache_ok c"
proof -
  let ?c = "kc_key_address_cache kc"
  have c: "cache_ok ?c" using assms(1) by (simp add: kvs_inv_def)
  obtain sig where sig: "signature w = Ok sig" using signature_ok [OF assms(2)] by blast
  have "\<forall>e \<in> set ?c. \<exists>sigs. res_map signature (snd e) = Ok sigs"
  proof
    fix e
    assume "e \<in> set ?c"
    then have "\<forall>a \<in> set (snd e). \<exists>x. signature a = Ok x"
      using c signature_ok by (auto simp: cache_ok_def list_all_iff)
    from bchoice [OF this] obtain f where "\<forall>a \<in> set (snd e). signature a = Ok (f a)" by blast
    then have "res_map signature (snd e) = Ok (map f (snd e))" by (intro res_map_total) blast
    then show "\<exists>sigs. res_map signature (snd e) = Ok sigs" ..
  qed
  from bchoice [OF this] obtain g where "\<forall>e \<in> set ?c. res_map signature (snd e) = Ok (g e)" by blast
  then have map: "res_map (\<lambda>(key, addresses). res_bind (res_map signature addresses) (\<lambda>sigs. Ok (key, sigs))) ?c =
      Ok (map (\<lambda>e. (fst e, g e)) ?c)"
    by (intro res_map_total) (auto split: prod.splits)
  have "cache_ok (filter P ?c)" for P using c by (auto simp: cache_ok_def umap_ok_filter)
  then show ?thesis unfolding invalidate_cache_for_worker_def sig map res_bind.simps Let_def by blast
qed

lemma gc_workers_ok:
  assumes "kvs_inv kc" and "list_all (\<lambda>(k, p). request_for k (pr_request p) \<and> good_address (pr_worker_addr p)) kps"
  shows "\<exists>result c. res_fold gc_worker (map snd kps) (res0, kc) = Ok (res0 @ result, kc\<lparr>kc_key_address_cache := c\<rparr>) \<and>
    cache_ok c \<and> timeouts (map (\<lambda>(k, p). (k, pr_request p)) kps) result"
  using assms
proof (induction kps arbitrary: res0 kc)
  case Nil
  then have "cache_ok (kc_key_address_cache kc)" by (simp add: kvs_inv_def)
  then show ?case by (intro exI [of _ "[]"] exI [of _ "kc_key_address_cache kc"]) (simp add: timeouts_def)
next
  case (Cons kp kps)
  obtain k p where kp: "kp = (k, p)" by fastforce
  have p: "request_for k (pr_request p)" "good_address (pr_worker_addr p)" using Cons.prems(2) kp by simp_all
  obtain b where b: "generate_bad_response (pr_request p) = Ok b" "timeout_for k (pr_request p) b"
    using generate_bad_response_ok [OF p(1)] by blast
  obtain c where c: "invalidate_cache_for_worker (pr_worker_addr p) kc = Ok (kc\<lparr>kc_key_address_cache := c\<rparr>)"
    and cok: "cache_ok c"
    using invalidate_cache_for_worker_ok [OF Cons.prems(1) p(2)] by blast
  have "kvs_inv (kc\<lparr>kc_key_address_cache := c\<rparr>)" using Cons.prems(1) cok by (simp add: kvs_inv_def)
  then obtain result c' where
    "res_fold gc_worker (map snd kps) (res0 @ [b], kc\<lparr>kc_key_address_cache := c\<rparr>) =
       Ok ((res0 @ [b]) @ result, kc\<lparr>kc_key_address_cache := c'\<rparr>)"
    "cache_ok c'" "timeouts (map (\<lambda>(k, p). (k, pr_request p)) kps) result"
    using Cons.IH [of "kc\<lparr>kc_key_address_cache := c\<rparr>" "res0 @ [b]"] Cons.prems(2) by (auto simp del: append_assoc)
  moreover have "gc_worker p (res0, kc) = Ok (res0 @ [b], kc\<lparr>kc_key_address_cache := c\<rparr>)"
    by (simp add: gc_worker_def b(1) c)
  ultimately show ?case
    using b(2) kp by (intro exI [of _ "b # result"] exI [of _ c']) (simp add: timeouts_def)
qed


lemma gc_requests_ok:
  assumes "kvs_inv kc"
  shows "\<exists>result kc'. gc_requests now kc = Ok (result, kc') \<and> kvs_inv kc' \<and> keeps kc result kc' \<and>
    kc' = kc\<lparr>kc_pending_request_map := filter (\<lambda>(k, t, rs). \<not> timed_out now kc t) (kc_pending_request_map kc)\<rparr>"
proof -
  let ?m = "kc_pending_request_map kc"
  let ?dead = "filter (\<lambda>(k, t, rs). timed_out now kc t) ?m"
  let ?kc = "kc\<lparr>kc_pending_request_map := filter (\<lambda>(k, t, rs). \<not> timed_out now kc t) ?m\<rparr>"
  let ?krs = "concat (map (\<lambda>(k, t, rs). map (Pair k) rs) ?dead)"
  have ok: "requests_ok ?m" using assms by (simp add: kvs_inv_def)
  have "list_all (\<lambda>(k, r). request_for k r) ?krs"
    using ok by (auto simp: requests_ok_def list_all_iff)
  then obtain result where r: "res_map generate_bad_response (map snd ?krs) = Ok result" and t: "timeouts ?krs result"
    using bad_responses_ok by blast
  have "map snd (concat (map (\<lambda>(k, t, rs). map (Pair k) rs) xs)) = concat (map (\<lambda>(k, t, rs). rs) xs)"
    for xs :: "(Key \<times> time \<times> KeyRequest list) list"
    by (induction xs) (auto simp: comp_def)
  with r have gc: "gc_requests now kc = Ok (result, ?kc)" by (simp add: gc_requests_def Let_def)
  have "requests_ok (filter P ?m)" for P using ok by (auto simp: requests_ok_def umap_ok_filter)
  then have inv: "kvs_inv ?kc" using assms by (simp add: kvs_inv_def)
  have same: "sent_get ?kc = sent_get kc" "sent_put ?kc = sent_put kc"
    by (simp_all add: sent_get_def sent_put_def put_ids_def fun_eq_iff)
  have moved: "r \<in> set (pending_reqs ?kc k) \<or> (k, r) \<in> set ?krs" if "r \<in> set (pending_reqs kc k)" for k r
  proof (cases "map_of ?m k")
    case None
    with that show ?thesis by (simp add: pending_reqs_def umap_at_def)
  next
    case (Some trs)
    obtain tp rs where m: "map_of ?m k = Some (tp, rs)" using Some by (cases trs) simp
    then have r: "r \<in> set rs" using that by (simp add: pending_reqs_def umap_at_def)
    have mem: "(k, tp, rs) \<in> set ?m" using m by (rule map_of_SomeD)
    show ?thesis
    proof (cases "timed_out now kc tp")
      case True
      with mem r show ?thesis by force
    next
      case False
      with m ok r show ?thesis
        by (simp add: requests_ok_def pending_reqs_def umap_at_def map_of_filter_umap)
    qed
  qed
  have "keeps kc result ?kc"
    unfolding keeps_def open_get_def open_put_def same
    using moved timeouts_answer [OF t] by (metis RequestType.distinct(7))
  with gc inv show ?thesis by blast
qed

lemma gc_gets_ok:
  assumes "kvs_inv kc"
  shows "\<exists>result kc'. gc_gets now kc = Ok (result, kc') \<and> kvs_inv kc' \<and> keeps kc result kc' \<and>
    kc_pending_get_response_map kc' =
      filter (\<lambda>(k, p). \<not> timed_out now kc (pr_tp p)) (kc_pending_get_response_map kc) \<and>
    kc_pending_request_map kc' = kc_pending_request_map kc \<and> kc_timeout kc' = kc_timeout kc"
proof -
  let ?m = "kc_pending_get_response_map kc"
  let ?dead = "filter (\<lambda>(k, p). timed_out now kc (pr_tp p)) ?m"
  have ok: "gets_ok ?m" using assms by (simp add: kvs_inv_def)
  have "list_all (\<lambda>(k, p). request_for k (pr_request p) \<and> good_address (pr_worker_addr p)) ?dead"
    using ok by (auto simp: gets_ok_def list_all_iff get_ok_def)
  from gc_workers_ok [OF assms this, of "[]"] obtain result c where
    f: "res_fold gc_worker (map snd ?dead) ([], kc) = Ok (result, kc\<lparr>kc_key_address_cache := c\<rparr>)"
    and c: "cache_ok c" and t: "timeouts (map (\<lambda>(k, p). (k, pr_request p)) ?dead) result"
    by auto
  let ?kc = "kc\<lparr>kc_key_address_cache := c, kc_pending_get_response_map :=
      filter (\<lambda>(k, p). \<not> timed_out now kc (pr_tp p)) ?m\<rparr>"
  have gc: "gc_gets now kc = Ok (result, ?kc)" using f by (simp add: gc_gets_def Let_def)
  have "gets_ok (filter P ?m)" for P using ok by (auto simp: gets_ok_def umap_ok_filter)
  then have inv: "kvs_inv ?kc" using assms c by (simp add: kvs_inv_def)
  have same: "pending_reqs ?kc = pending_reqs kc" "sent_put ?kc = sent_put kc"
    by (simp_all add: pending_reqs_def sent_put_def put_ids_def fun_eq_iff)
  have "sent_get ?kc k \<or> answers_get result k" if s: "sent_get kc k" for k
  proof -
    obtain p where m: "map_of ?m k = Some p" using s by (auto simp: sent_get_def)
    then have mem: "(k, p) \<in> set ?m" by (rule map_of_SomeD)
    show ?thesis
    proof (cases "timed_out now kc (pr_tp p)")
      case True
      with mem have "(k, pr_request p) \<in> set (map (\<lambda>(k, p). (k, pr_request p)) ?dead)" by force
      moreover have "rq_type (pr_request p) = GET" using gets_ok_at [OF ok m] by (simp add: get_ok_def)
      ultimately show ?thesis using timeouts_answer(1) [OF t] by blast
    next
      case False
      with m ok show ?thesis by (simp add: sent_get_def gets_ok_def map_of_filter_umap)
    qed
  qed
  then have "keeps kc result ?kc" unfolding keeps_def open_get_def open_put_def same by blast
  with gc inv show ?thesis by (intro exI [of _ result] exI [of _ ?kc]) simp
qed


text \<open>The entries of all writes with their keys, as the loop over them meets them.\<close>

definition put_entries :: "(Key \<times> (string \<times> PendingRequest) list) list \<Rightarrow> (Key \<times> string \<times> PendingRequest) list" where
  "put_entries m = concat (map (\<lambda>(k, ids). map (Pair k) ids) m)"

lemma put_entries_filter:
  "map snd (filter (\<lambda>(k, i, p). P p) (put_entries m)) = filter (\<lambda>(i, p). P p) (concat (map snd m))"
proof (induction m)
  case (Cons e m)
  have "map snd (filter (\<lambda>(k, i, p). P p) (map (Pair k) ids)) = filter (\<lambda>(i, p). P p) ids" for k and ids :: "(string \<times> PendingRequest) list"
    by (induction ids) auto
  with Cons show ?case by (cases e) (simp add: put_entries_def)
qed (simp add: put_entries_def)

lemma gc_puts_ok:
  assumes "kvs_inv kc"
  shows "\<exists>result kc'. gc_puts now kc = Ok (result, kc') \<and> kvs_inv kc' \<and> keeps kc result kc' \<and>
    kc_pending_put_response_map kc' =
      map (\<lambda>(k, ids). (k, filter (\<lambda>(i, p). \<not> timed_out now kc (pr_tp p)) ids)) (kc_pending_put_response_map kc) \<and>
    kc_pending_request_map kc' = kc_pending_request_map kc \<and>
    kc_pending_get_response_map kc' = kc_pending_get_response_map kc \<and> kc_timeout kc' = kc_timeout kc"
proof -
  let ?m = "kc_pending_put_response_map kc"
  let ?dead = "filter (\<lambda>(k, i, p). timed_out now kc (pr_tp p)) (put_entries ?m)"
  let ?live = "\<lambda>ids. filter (\<lambda>(i, p). \<not> timed_out now kc (pr_tp p)) ids"
  have ok: "puts_ok ?m" using assms by (simp add: kvs_inv_def)
  have entry: "put_ok k i p" if "(k, i, p) \<in> set (put_entries ?m)" for k i p
    using that ok by (auto simp: put_entries_def puts_ok_def ids_ok_def)
  have "list_all (\<lambda>(k, p). request_for k (pr_request p) \<and> good_address (pr_worker_addr p))
      (map (\<lambda>(k, i, p). (k, p)) ?dead)"
    using entry by (auto simp: list_all_iff put_ok_def)
  from gc_workers_ok [OF assms this, of "[]"] obtain result c where
    f: "res_fold gc_worker (map snd (map (\<lambda>(k, i, p). (k, p)) ?dead)) ([], kc) =
      Ok (result, kc\<lparr>kc_key_address_cache := c\<rparr>)"
    and c: "cache_ok c"
    and t: "timeouts (map (\<lambda>(k, p). (k, pr_request p)) (map (\<lambda>(k, i, p). (k, p)) ?dead)) result"
    by auto
  have dead: "map snd (map (\<lambda>(k, i, p). (k, p)) ?dead) =
      map snd (filter (\<lambda>(i, p). timed_out now kc (pr_tp p)) (concat (map snd ?m)))"
    unfolding put_entries_filter [symmetric] by (simp add: comp_def case_prod_unfold)
  let ?kc = "kc\<lparr>kc_key_address_cache := c, kc_pending_put_response_map := map (\<lambda>(k, ids). (k, ?live ids)) ?m\<rparr>"
  have gc: "gc_puts now kc = Ok (result, ?kc)" using f unfolding dead by (simp add: gc_puts_def Let_def)
  have "ids_ok k (?live ids)" if "ids_ok k ids" for k ids using that by (auto simp: ids_ok_def umap_ok_filter)
  then have "puts_ok (map (\<lambda>(k, ids). (k, ?live ids)) ?m)"
    using ok by (auto simp: puts_ok_def comp_def case_prod_unfold)
  then have inv: "kvs_inv ?kc" using assms c by (simp add: kvs_inv_def)
  have same: "pending_reqs ?kc = pending_reqs kc" "sent_get ?kc = sent_get kc"
    by (simp_all add: pending_reqs_def sent_get_def fun_eq_iff)
  have "map_of (map (\<lambda>(k, ids). (k, ?live ids)) ?m) k = map_option ?live (map_of ?m k)" for k
    by (simp add: map_of_map)
  then have ids: "put_ids k ?kc = ?live (put_ids k kc)" for k
    by (cases "map_of ?m k") (simp_all add: put_ids_def umap_at_def)
  have "sent_put ?kc k i \<or> answers_put result k i" if s: "sent_put kc k i" for k i
  proof -
    obtain p where m: "map_of (put_ids k kc) i = Some p" using s by (auto simp: sent_put_def)
    have kok: "ids_ok k (put_ids k kc)" by (rule put_ids_ok [OF ok])
    have ne: "put_ids k kc \<noteq> []" using m by auto
    then have "(k, put_ids k kc) \<in> set ?m" unfolding put_ids_def by (rule umap_at_mem)
    then have mem: "(k, i, p) \<in> set (put_entries ?m)"
      using map_of_SomeD [OF m] by (force simp: put_entries_def)
    show ?thesis
    proof (cases "timed_out now kc (pr_tp p)")
      case True
      with mem have "(k, pr_request p) \<in> set (map (\<lambda>(k, p). (k, pr_request p)) (map (\<lambda>(k, i, p). (k, p)) ?dead))"
        by force
      moreover have "rq_type (pr_request p) \<noteq> GET" "rq_request_id (pr_request p) = i"
        using entry [OF mem] by (simp_all add: put_ok_def)
      ultimately show ?thesis using timeouts_answer(2) [OF t] by blast
    next
      case False
      with m kok show ?thesis by (simp add: sent_put_def ids ids_ok_def map_of_filter_umap)
    qed
  qed
  then have "keeps kc result ?kc" unfolding keeps_def open_get_def open_put_def same by blast
  with gc inv show ?thesis by (intro exI [of _ result] exI [of _ ?kc]) simp
qed


section \<open>Receiving\<close>

text \<open>No open request is older than the timeout.\<close>

definition all_fresh :: "time \<Rightarrow> KvsClient \<Rightarrow> bool" where
  "all_fresh now kc \<longleftrightarrow> (\<forall>(k, t, rs) \<in> set (kc_pending_request_map kc). \<not> timed_out now kc t) \<and>
     (\<forall>(k, p) \<in> set (kc_pending_get_response_map kc). \<not> timed_out now kc (pr_tp p)) \<and>
     (\<forall>(k, ids) \<in> set (kc_pending_put_response_map kc). \<forall>(i, p) \<in> set ids. \<not> timed_out now kc (pr_tp p))"

lemma gc_ok:
  assumes "kvs_inv kc"
  shows "\<exists>r2 kc3 r3 kc4 r4 kc5. gc_requests now kc = Ok (r2, kc3) \<and> gc_gets now kc3 = Ok (r3, kc4) \<and>
    gc_puts now kc4 = Ok (r4, kc5) \<and> kvs_inv kc5 \<and> keeps kc (r2 @ r3 @ r4) kc5 \<and> all_fresh now kc5"
proof -
  obtain r2 kc3 where 2: "gc_requests now kc = Ok (r2, kc3)" "kvs_inv kc3" "keeps kc r2 kc3"
    "kc3 = kc\<lparr>kc_pending_request_map := filter (\<lambda>(k, t, rs). \<not> timed_out now kc t) (kc_pending_request_map kc)\<rparr>"
    using gc_requests_ok [OF assms] by blast
  obtain r3 kc4 where 3: "gc_gets now kc3 = Ok (r3, kc4)" "kvs_inv kc4" "keeps kc3 r3 kc4"
    "kc_pending_get_response_map kc4 =
      filter (\<lambda>(k, p). \<not> timed_out now kc3 (pr_tp p)) (kc_pending_get_response_map kc3)"
    "kc_pending_request_map kc4 = kc_pending_request_map kc3" "kc_timeout kc4 = kc_timeout kc3"
    using gc_gets_ok [OF 2(2)] by blast
  obtain r4 kc5 where 4: "gc_puts now kc4 = Ok (r4, kc5)" "kvs_inv kc5" "keeps kc4 r4 kc5"
    "kc_pending_put_response_map kc5 =
      map (\<lambda>(k, ids). (k, filter (\<lambda>(i, p). \<not> timed_out now kc4 (pr_tp p)) ids)) (kc_pending_put_response_map kc4)"
    "kc_pending_request_map kc5 = kc_pending_request_map kc4"
    "kc_pending_get_response_map kc5 = kc_pending_get_response_map kc4" "kc_timeout kc5 = kc_timeout kc4"
    using gc_puts_ok [OF 3(2)] by blast
  have m3: "kc_pending_request_map kc3 = filter (\<lambda>(k, t, rs). \<not> timed_out now kc t) (kc_pending_request_map kc)"
    by (simp add: 2(4))
  have same: "timed_out now kc5 = timed_out now kc" "timed_out now kc4 = timed_out now kc"
    "timed_out now kc3 = timed_out now kc"
    using 2(4) 3(6) 4(7) by (simp_all add: timed_out_def fun_eq_iff)
  have "all_fresh now kc5"
    unfolding all_fresh_def 4(4-6) 3(4,5) same m3 by auto
  moreover have "keeps kc (r2 @ r3 @ r4) kc5"
    by (rule keeps_trans [OF 2(3) keeps_trans [OF 3(3) 4(3)]])
  ultimately show ?thesis using 2(1) 3(1) 4(1,2) by blast
qed

text \<open>
  Property C10: no request to the key-value store gets lost. In a state of the client that satisfies its
  invariant, receiving ends without a fault for every well-formed message of the routing tier and of
  a worker. Every read and write that was open before is still open or is answered in the result, and
  afterwards no open request is older than the timeout. The invariant is kept.
\<close>

theorem kvs_receive_loses_nothing:
  assumes "kvs_inv kc"
    and "\<forall>resp. address_msg = Some resp \<longrightarrow> address_response_wf resp"
    and "\<forall>resp. response_msg = Some resp \<longrightarrow> rs_tuples resp \<noteq> []"
  shows "\<exists>result sends kc'. receive_async rnd now address_msg response_msg kc = Ok (result, sends, kc') \<and>
    kvs_inv kc' \<and> all_fresh now kc' \<and>
    (\<forall>k. open_get kc k \<longrightarrow> open_get kc' k \<or> answers_get result k) \<and>
    (\<forall>k i. open_put kc k i \<longrightarrow> open_put kc' k i \<or> answers_put result k i)"
proof -
  obtain sends1 kc1 where 1: "(case address_msg of None \<Rightarrow> Ok ([], kc)
      | Some response \<Rightarrow> handle_address_response rnd now response kc) = Ok (sends1, kc1)" "kvs_inv kc1" "keeps kc [] kc1"
  proof (cases address_msg)
    case None
    then show ?thesis using that assms(1) keeps_refl by simp
  next
    case (Some resp)
    then show ?thesis using that handle_address_response_ok [OF assms(1), of resp rnd now] assms(2) by auto
  qed
  obtain r1 sends2 kc2 where 2: "(case response_msg of None \<Rightarrow> Ok ([], [], kc1)
      | Some response \<Rightarrow> handle_key_response rnd now response kc1) = Ok (r1, sends2, kc2)" "kvs_inv kc2" "keeps kc1 r1 kc2"
  proof (cases response_msg)
    case None
    then show ?thesis using that 1(2) keeps_refl by simp
  next
    case (Some resp)
    then show ?thesis using that handle_key_response_ok [OF 1(2), of resp rnd now] assms(3) by auto
  qed
  obtain r2 kc3 r3 kc4 r4 kc5 where 3: "gc_requests now kc2 = Ok (r2, kc3)" "gc_gets now kc3 = Ok (r3, kc4)"
    "gc_puts now kc4 = Ok (r4, kc5)" "kvs_inv kc5" "keeps kc2 (r2 @ r3 @ r4) kc5" "all_fresh now kc5"
    using gc_ok [OF 2(2)] by blast
  have "receive_async rnd now address_msg response_msg kc = Ok (r1 @ r2 @ r3 @ r4, sends1 @ sends2, kc5)"
    unfolding receive_async_def 1(1) 2(1) by (simp add: 1(1) 2(1) 3(1-3))
  moreover have "keeps kc (r1 @ r2 @ r3 @ r4) kc5"
    using keeps_trans [OF 1(3) keeps_trans [OF 2(3) 3(5)]] by simp
  ultimately show ?thesis using 3(4,6) unfolding keeps_def by blast
qed


section \<open>Issuing requests\<close>

lemma kvs_inv_new: "routing \<noteq> [] \<Longrightarrow> kvs_inv (new_KvsClient seed routing ip tid timeout)"
  by (simp add: kvs_inv_def new_KvsClient_def cache_ok_def requests_ok_def gets_ok_def puts_ok_def)

lemma prepared_request:
  "prepare_data_request type (empty_tuple\<lparr>kt_key := k\<rparr>) kc = (r, kc1) \<Longrightarrow> type = GET \<or> type = PUT \<Longrightarrow>
   request_for k r \<and> rq_type r = type \<and> (\<exists>x. kc1 = kc\<lparr>kc_rid := x\<rparr>)"
  "prepare_data_request type (empty_tuple\<lparr>kt_key := k, kt_lattice_type := lt, kt_payload := v\<rparr>) kc = (r, kc1) \<Longrightarrow>
   type = GET \<or> type = PUT \<Longrightarrow> request_for k r \<and> rq_type r = type \<and> (\<exists>x. kc1 = kc\<lparr>kc_rid := x\<rparr>)"
  by (auto simp: prepare_data_request_def get_request_id_def request_for_def empty_tuple_def split: prod.splits)

lemma put_async_ok:
  assumes "kvs_inv kc"
  shows "\<exists>i sends kc'. put_async rnd now k v lt kc = Ok (i, sends, kc') \<and> kvs_inv kc' \<and> grows kc kc' \<and> open_put kc' k i"
proof -
  obtain r kc1 where p: "prepare_data_request PUT
      (empty_tuple\<lparr>kt_key := k, kt_lattice_type := lt, kt_payload := v\<rparr>) kc = (r, kc1)" by fastforce
  obtain x where r: "request_for k r" "rq_type r = PUT" and kc1: "kc1 = kc\<lparr>kc_rid := x\<rparr>"
    using prepared_request(2) [OF p] by blast
  have inv: "kvs_inv kc1" using assms kc1 by simp
  obtain r' sends kc' where t: "try_request rnd now r kc1 = Ok (r', sends, kc')" "kvs_inv kc'"
    "rq_request_id r' = rq_request_id r" "grows kc1 kc'" "open_put kc' k (rq_request_id r)"
    using try_request_ok [OF inv r(1), of rnd now] r(2) by blast
  have "grows kc kc'" using t(4) tables_cong(4) [of kc kc1] kc1 grows_trans by simp
  with p t show ?thesis by (simp add: put_async_def)
qed

lemma get_async_ok:
  assumes "kvs_inv kc"
  shows "\<exists>sends kc'. get_async rnd now k kc = Ok (sends, kc') \<and> kvs_inv kc' \<and> grows kc kc' \<and> open_get kc' k"
proof (cases "map_of (kc_pending_get_response_map kc) k")
  case None
  obtain r kc1 where p: "prepare_data_request GET (empty_tuple\<lparr>kt_key := k\<rparr>) kc = (r, kc1)" by fastforce
  obtain x where r: "request_for k r" "rq_type r = GET" and kc1: "kc1 = kc\<lparr>kc_rid := x\<rparr>"
    using prepared_request(1) [OF p] by blast
  have inv: "kvs_inv kc1" using assms kc1 by simp
  obtain r' sends kc' where t: "try_request rnd now r kc1 = Ok (r', sends, kc')" "kvs_inv kc'"
    "grows kc1 kc'" "open_get kc' k"
    using try_request_ok [OF inv r(1), of rnd now] r(2) by blast
  have "grows kc kc'" using t(3) tables_cong(4) [of kc kc1] kc1 grows_trans by simp
  with p t None show ?thesis by (simp add: get_async_def)
next
  case (Some p)
  then show ?thesis using assms by (simp add: get_async_def grows_refl open_get_def sent_get_def)
qed

definition ex_kvs :: KvsClient where
  "ex_kvs = new_KvsClient 7 [new_thread ''r'' 0] ''c'' 0 10"

definition ex_rnd :: rand_fun where
  "ex_rnd x = (unat x, x + 1)"

lemma kvs_inv_ex: "kvs_inv ex_kvs"
  by (simp add: ex_kvs_def kvs_inv_new)

theorem kvs_receive_loses_nothing_witness:
  "\<exists>i s1 kc1 result sends kc'. put_async ex_rnd 0 ''k'' ''v'' LWW ex_kvs = Ok (i, s1, kc1) \<and> open_put kc1 ''k'' i \<and>
     receive_async ex_rnd 1 (Some \<lparr>kas_addresses = [\<lparr>ka_key = ''k'', ka_ips = [''tcp://a:1'']\<rparr>],
       kas_error = NO_ERROR, kas_response_id = []\<rparr>) None kc1 = Ok (result, sends, kc') \<and>
     (open_put kc' ''k'' i \<or> answers_put result ''k'' i)"
proof -
  obtain i s1 kc1 where p: "put_async ex_rnd 0 ''k'' ''v'' LWW ex_kvs = Ok (i, s1, kc1)" "kvs_inv kc1"
    "open_put kc1 ''k'' i"
    using put_async_ok [OF kvs_inv_ex] by blast
  let ?msg = "\<lparr>kas_addresses = [\<lparr>ka_key = ''k'', ka_ips = [''tcp://a:1'']\<rparr>], kas_error = NO_ERROR, kas_response_id = []\<rparr>"
  have "good_address ''tcp://a:1''" by (simp add: good_address_def) code_simp
  then have "address_response_wf ?msg" by (simp add: address_response_wf_def)
  then obtain result sends kc' where r: "receive_async ex_rnd 1 (Some ?msg) None kc1 = Ok (result, sends, kc')"
    "\<forall>k i. open_put kc1 k i \<longrightarrow> open_put kc' k i \<or> answers_put result k i"
    using kvs_receive_loses_nothing [OF p(2), of "Some ?msg" None ex_rnd 1] by auto
  then have "open_put kc' ''k'' i \<or> answers_put result ''k'' i" using p(3) by blast
  with p(1,3) r(1) show ?thesis by blast
qed

text \<open>
  A read or write that is issued is open from then on, in a client whose invariant still holds,
  and no other open request is affected.
\<close>

lemma kvs_issue:
  assumes "kvs_inv kc"
  shows "(\<exists>i sends kc'. put_async rnd now k v lt kc = Ok (i, sends, kc') \<and> kvs_inv kc' \<and> keeps kc [] kc' \<and> open_put kc' k i) \<and>
    (\<exists>sends kc'. get_async rnd now k kc = Ok (sends, kc') \<and> kvs_inv kc' \<and> keeps kc [] kc' \<and> open_get kc' k)"
  using put_async_ok [OF assms, of rnd now k v lt] get_async_ok [OF assms, of rnd now k] grows_keeps by blast

text \<open>
  An answer of the routing tier that names no address for a key, and reports no missing
  servers, makes the client append to the vector of pending requests while it walks it.
\<close>

lemma kvs_empty_addresses:
  assumes "kvs_inv kc" and "pending_reqs kc k \<noteq> []" and "cached_addresses k kc = []"
    and "kas_addresses resp = \<lparr>ka_key = k, ka_ips = []\<rparr> # rest" and "kas_error resp \<noteq> NO_SERVERS"
  shows "receive_async rnd now (Some resp) response_msg kc = Fault Invalid_Iterator"
proof -
  obtain r rs tp where m: "map_of (kc_pending_request_map kc) k = Some (tp, r # rs)"
  proof (cases "map_of (kc_pending_request_map kc) k")
    case None
    then show ?thesis using assms(2) by (simp add: pending_reqs_def umap_at_def)
  next
    case (Some p)
    obtain tp reqs where p: "p = (tp, reqs)" by fastforce
    then have "reqs \<noteq> []" using assms(2) Some by (simp add: pending_reqs_def umap_at_def)
    then show ?thesis using that Some p by (cases reqs) auto
  qed
  then have r: "request_for k r" using requests_ok_at [OF _ m] assms(1) by (simp add: kvs_inv_def)
  obtain sends x y where t: "try_request rnd now r kc =
      Ok (r, sends, wait_for_address now k r (kc\<lparr>kc_rid := x, kc_seed := y\<rparr>))"
    using try_request_waits [OF assms(1) r assms(3)] by blast
  have "kc_pending_request_map (wait_for_address now k r (kc\<lparr>kc_rid := x, kc_seed := y\<rparr>)) \<noteq> kc_pending_request_map kc"
  proof
    assume "kc_pending_request_map (wait_for_address now k r (kc\<lparr>kc_rid := x, kc_seed := y\<rparr>)) = kc_pending_request_map kc"
    then have "pending_reqs (wait_for_address now k r (kc\<lparr>kc_rid := x, kc_seed := y\<rparr>)) k = pending_reqs kc k"
      by (simp add: pending_reqs_def)
    then show False using tables_cong(1) [of "kc\<lparr>kc_rid := x, kc_seed := y\<rparr>" kc] by simp
  qed
  then have "res_fold (retry_pending rnd now) (r # rs) ([], kc) = Fault Invalid_Iterator"
    by (simp add: retry_pending_def t)
  then show ?thesis using assms(4,5) m by (simp add: receive_async_def handle_address_response_def)
qed

end
