(* ===== verification/Ph_Manager.thy ===== *)
theory Ph_Manager
  imports Ph_Protocol
begin

text \<open>
  The management server, \<^verbatim>\<open>src/manager/manager_server.cpp\<close>: coordinators announce themselves, and
  a client asks which coordinator is responsible for an application. The set of coordinators is
  walked with \<^verbatim>\<open>std::next\<close>, so it is a distinct list in iteration order.
\<close>

record CoordIp =
  ci_public_ip :: string
  ci_private_ip :: string
  ci_thread_id :: uint32

record ManagerState =
  mg_app_coord_map :: "string \<rightharpoonup> string \<times> uint32"
  mg_coord_ips :: "CoordIp list"
  mg_seed :: uint32

definition init_manager :: "uint32 \<Rightarrow> ManagerState" where
  "init_manager seed = \<lparr>mg_app_coord_map = Map.empty, mg_coord_ips = [], mg_seed = seed\<rparr>"

definition CoordIp_of :: "CoordSync \<Rightarrow> CoordIp" where
  "CoordIp_of msg = \<lparr>ci_public_ip = cs_public_ip msg, ci_private_ip = cs_private_ip msg,
                     ci_thread_id = cs_thread_id msg\<rparr>"

definition coord_sync :: "CoordSync \<Rightarrow> ManagerState \<Rightarrow> ManagerState" where
  "coord_sync msg s = s\<lparr>mg_coord_ips := uset_insert (CoordIp_of msg) (mg_coord_ips s)\<rparr>"

text \<open>The ip that a client is told, by the configuration of the server.\<close>

definition ip_to_send :: "bool \<Rightarrow> CoordIp \<Rightarrow> string" where
  "ip_to_send externalUser coord_ip = (if externalUser then ci_public_ip coord_ip else ci_private_ip coord_ip)"

definition pick_coord :: "rand_fun \<Rightarrow> ManagerState \<Rightarrow> (CoordIp \<times> uint32) res" where
  "pick_coord rnd s =
     (if mg_coord_ips s = [] then Fault Division_By_Zero
      else case rnd (mg_seed s) of
        (r, seed) \<Rightarrow> Ok (mg_coord_ips s ! (r mod length (mg_coord_ips s)), seed))"

definition assign_coord :: "rand_fun \<Rightarrow> bool \<Rightarrow> string \<Rightarrow> ManagerState \<Rightarrow> ManagerState res" where
  "assign_coord rnd externalUser app_name s =
     (if mg_app_coord_map s app_name = None
      then res_bind (pick_coord rnd s) (\<lambda>(coord_ip, seed).
             Ok (s\<lparr>mg_app_coord_map := (mg_app_coord_map s)(app_name \<mapsto>
                     (ip_to_send externalUser coord_ip, ci_thread_id coord_ip)),
                   mg_seed := seed\<rparr>))
      else Ok s)"

definition coord_query ::
  "rand_fun \<Rightarrow> bool \<Rightarrow> CoordQuery \<Rightarrow> ManagerState \<Rightarrow> (CoordResponse \<times> ManagerState) res" where
  "coord_query rnd externalUser query s =
     res_bind (assign_coord rnd externalUser (cq_application query) s) (\<lambda>s'.
     let coord = map_at ([], 0) (mg_app_coord_map s') (cq_application query)
     in Ok (\<lparr>cr_coord_ip = fst coord, cr_thread_id = snd coord, cr_request_id = cq_request_id query\<rparr>, s'))"

text \<open>One message of one of the two sockets that \<^verbatim>\<open>run\<close> polls.\<close>

datatype manager_input = In_Sync CoordSync | In_Coord_Query CoordQuery

fun manager_step ::
  "rand_fun \<Rightarrow> bool \<Rightarrow> ManagerState \<Rightarrow> manager_input \<Rightarrow> (CoordResponse list \<times> ManagerState) res" where
  "manager_step rnd externalUser s (In_Sync msg) = Ok ([], coord_sync msg s)"
| "manager_step rnd externalUser s (In_Coord_Query query) =
     res_bind (coord_query rnd externalUser query s) (\<lambda>(resp, s'). Ok ([resp], s'))"

abbreviation manager_run ::
  "rand_fun \<Rightarrow> bool \<Rightarrow> ManagerState \<Rightarrow> manager_input list \<Rightarrow> (CoordResponse list \<times> ManagerState) res" where
  "manager_run rnd externalUser \<equiv> res_run (manager_step rnd externalUser)"

section \<open>Laws\<close>

fun queries :: "manager_input list \<Rightarrow> CoordQuery list" where
  "queries [] = []"
| "queries (In_Sync _ # xs) = queries xs"
| "queries (In_Coord_Query q # xs) = q # queries xs"

fun syncs :: "manager_input list \<Rightarrow> CoordIp list" where
  "syncs [] = []"
| "syncs (In_Sync msg # xs) = CoordIp_of msg # syncs xs"
| "syncs (In_Coord_Query _ # xs) = syncs xs"

lemma coord_query_cases:
  assumes "coord_query rnd ext q s = Ok (resp, s')"
  shows "mg_coord_ips s' = mg_coord_ips s \<and> cr_request_id resp = cq_request_id q \<and>
    mg_app_coord_map s' (cq_application q) = Some (cr_coord_ip resp, cr_thread_id resp) \<and>
    mg_app_coord_map s \<subseteq>\<^sub>m mg_app_coord_map s' \<and>
    (\<forall>a c. mg_app_coord_map s' a = Some c \<longrightarrow> mg_app_coord_map s a = Some c \<or>
      (\<exists>ci \<in> set (mg_coord_ips s). c = (ip_to_send ext ci, ci_thread_id ci)))"
proof (cases "mg_app_coord_map s (cq_application q)")
  case (Some c)
  with assms show ?thesis by (auto simp: coord_query_def assign_coord_def Let_def)
next
  case None
  obtain r seed where r: "rnd (mg_seed s) = (r, seed)" by fastforce
  have ne: "mg_coord_ips s \<noteq> []"
    using assms None by (auto simp: coord_query_def assign_coord_def pick_coord_def)
  let ?ci = "mg_coord_ips s ! (r mod length (mg_coord_ips s))"
  let ?c = "(ip_to_send ext ?ci, ci_thread_id ?ci)"
  have ci: "?ci \<in> set (mg_coord_ips s)" using ne by simp
  have eq: "resp = \<lparr>cr_coord_ip = fst ?c, cr_thread_id = snd ?c, cr_request_id = cq_request_id q\<rparr>"
    "mg_coord_ips s' = mg_coord_ips s" "mg_app_coord_map s' = (mg_app_coord_map s)(cq_application q \<mapsto> ?c)"
    using assms None ne r by (auto simp: coord_query_def assign_coord_def pick_coord_def Let_def)
  have "mg_app_coord_map s a = Some c \<or> (\<exists>ci \<in> set (mg_coord_ips s). c = (ip_to_send ext ci, ci_thread_id ci))"
    if "mg_app_coord_map s' a = Some c" for a c
    using that ci by (auto simp: eq split: if_splits)
  with None show ?thesis by (simp add: eq map_le_def dom_def)
qed

text \<open>An answer to a query, by the map of applications and the announced coordinators.\<close>

definition answers ::
  "bool \<Rightarrow> CoordIp set \<Rightarrow> (string \<rightharpoonup> string \<times> uint32) \<Rightarrow> CoordQuery \<Rightarrow> CoordResponse \<Rightarrow> bool" where
  "answers ext C m q r \<longleftrightarrow> cr_request_id r = cq_request_id q \<and>
     m (cq_application q) = Some (cr_coord_ip r, cr_thread_id r) \<and>
     (\<exists>ci \<in> C. cr_coord_ip r = ip_to_send ext ci \<and> cr_thread_id r = ci_thread_id ci)"

definition assigned :: "bool \<Rightarrow> CoordIp set \<Rightarrow> (string \<rightharpoonup> string \<times> uint32) \<Rightarrow> bool" where
  "assigned ext C m \<longleftrightarrow> (\<forall>c \<in> ran m. \<exists>ci \<in> C. c = (ip_to_send ext ci, ci_thread_id ci))"

lemma coord_query_answers:
  assumes "coord_query rnd ext q s = Ok (resp, s')" and "assigned ext C (mg_app_coord_map s)"
    and "set (mg_coord_ips s) \<subseteq> C"
  shows "assigned ext C (mg_app_coord_map s') \<and> answers ext C (mg_app_coord_map s') q resp"
proof -
  note step = coord_query_cases [OF assms(1)]
  have C: "assigned ext C (mg_app_coord_map s')"
    unfolding assigned_def
  proof
    fix c
    assume "c \<in> ran (mg_app_coord_map s')"
    then obtain a where a: "mg_app_coord_map s' a = Some c" by (auto simp: ran_def)
    from step a have "mg_app_coord_map s a = Some c \<or>
        (\<exists>ci \<in> set (mg_coord_ips s). c = (ip_to_send ext ci, ci_thread_id ci))" by blast
    with assms(2,3) show "\<exists>ci \<in> C. c = (ip_to_send ext ci, ci_thread_id ci)"
      unfolding assigned_def by (blast intro: ranI)
  qed
  have "(cr_coord_ip resp, cr_thread_id resp) \<in> ran (mg_app_coord_map s')"
    using step by (blast intro: ranI)
  with C have "\<exists>ci \<in> C. (cr_coord_ip resp, cr_thread_id resp) = (ip_to_send ext ci, ci_thread_id ci)"
    unfolding assigned_def by blast
  with step C show ?thesis by (simp add: answers_def)
qed

lemma answers_mono: "answers ext C m q r \<Longrightarrow> m \<subseteq>\<^sub>m m' \<Longrightarrow> answers ext C m' q r"
  by (auto simp: answers_def map_le_def dom_def)

lemma manager_run_answers:
  assumes "manager_run rnd ext s xs = Ok (resps, s')" and "assigned ext C (mg_app_coord_map s)"
    and "set (mg_coord_ips s) \<subseteq> C" and "set (syncs xs) \<subseteq> C"
  shows "mg_app_coord_map s \<subseteq>\<^sub>m mg_app_coord_map s' \<and>
    list_all2 (answers ext C (mg_app_coord_map s')) (queries xs) resps"
  using assms
proof (induction xs arbitrary: s resps)
  case (Cons x xs)
  show ?case
  proof (cases x)
    case (In_Sync msg)
    with Cons.prems show ?thesis
      using Cons.IH [of "coord_sync msg s" resps] by (auto simp: coord_sync_def)
  next
    case (In_Coord_Query q)
    obtain r s1 rs where q: "coord_query rnd ext q s = Ok (r, s1)"
      and run: "manager_run rnd ext s1 xs = Ok (rs, s')" and resps: "resps = r # rs"
      using Cons.prems(1) In_Coord_Query by auto
    have step: "mg_coord_ips s1 = mg_coord_ips s" "mg_app_coord_map s \<subseteq>\<^sub>m mg_app_coord_map s1"
      using coord_query_cases [OF q] by blast+
    have 1: "assigned ext C (mg_app_coord_map s1)" "answers ext C (mg_app_coord_map s1) q r"
      using coord_query_answers [OF q Cons.prems(2,3)] by blast+
    have IH: "mg_app_coord_map s1 \<subseteq>\<^sub>m mg_app_coord_map s'"
        "list_all2 (answers ext C (mg_app_coord_map s')) (queries xs) rs"
      using Cons.IH [OF run 1(1)] Cons.prems(3,4) step(1) In_Coord_Query by simp_all
    with 1 step show ?thesis
      unfolding resps In_Coord_Query by (simp add: answers_mono) (rule map_le_trans)
  qed
qed simp

text \<open>
  The management server answers every query, in order and under its request id, with a
  coordinator that has announced itself, and answers all queries for one application with the same
  coordinator, whatever announcements and queries come in between: each answer is the entry of the
  application in the final map.
\<close>

lemma manager_answers:
  assumes "manager_run rnd externalUser (init_manager seed) inputs = Ok (resps, s)"
  shows "list_all2 (\<lambda>q r. cr_request_id r = cq_request_id q \<and>
      mg_app_coord_map s (cq_application q) = Some (cr_coord_ip r, cr_thread_id r) \<and>
      (\<exists>ci \<in> set (syncs inputs).
         cr_coord_ip r = ip_to_send externalUser ci \<and> cr_thread_id r = ci_thread_id ci))
    (queries inputs) resps"
  using manager_run_answers [OF assms, of "set (syncs inputs)"]
  by (simp add: init_manager_def assigned_def answers_def [abs_def])

lemma manager_run_faults:
  assumes "\<forall>a. mg_app_coord_map s a \<noteq> None \<longrightarrow> mg_coord_ips s \<noteq> []"
  shows "(\<exists>e. manager_run rnd ext s xs = Fault e) \<longleftrightarrow>
    mg_coord_ips s = [] \<and> (\<exists>pre q post. xs = pre @ In_Coord_Query q # post \<and> syncs pre = [])"
  using assms
proof (induction xs arbitrary: s)
  case (Cons x xs)
  show ?case
  proof (cases x)
    case (In_Sync msg)
    have "\<not> (\<exists>e. manager_run rnd ext (coord_sync msg s) xs = Fault e)"
      using Cons.IH [of "coord_sync msg s"] by (simp add: coord_sync_def)
    then have "\<not> (\<exists>e. manager_run rnd ext s (x # xs) = Fault e)"
      by (cases "manager_run rnd ext (coord_sync msg s) xs") (auto simp: In_Sync)
    moreover have "syncs pre \<noteq> []" if "x # xs = pre @ In_Coord_Query q # post" for pre q post
      using that In_Sync by (cases pre) auto
    ultimately show ?thesis by blast
  next
    case (In_Coord_Query q)
    show ?thesis
    proof (cases "mg_coord_ips s = []")
      case True
      then have "manager_run rnd ext s (x # xs) = Fault Division_By_Zero"
        using Cons.prems by (auto simp: In_Coord_Query coord_query_def assign_coord_def pick_coord_def)
      moreover have "\<exists>pre q post. x # xs = pre @ In_Coord_Query q # post \<and> syncs pre = []"
        unfolding In_Coord_Query by (intro exI [of _ "[]"]) auto
      ultimately show ?thesis using True by blast
    next
      case False
      obtain ci seed where "pick_coord rnd s = Ok (ci, seed)"
        using False by (cases "rnd (mg_seed s)") (auto simp: pick_coord_def)
      then have "is_ok (coord_query rnd ext q s)" by (simp add: coord_query_def assign_coord_def Let_def)
      then obtain r s1 where q: "coord_query rnd ext q s = Ok (r, s1)" by (auto simp: is_ok_iff)
      have "\<not> (\<exists>e. manager_run rnd ext s1 xs = Fault e)"
        using Cons.IH [of s1] coord_query_cases [OF q] False by simp
      then show ?thesis
        using False by (cases "manager_run rnd ext s1 xs") (auto simp: In_Coord_Query q)
    qed
  qed
qed simp

text \<open>
  The management server fails exactly when a query arrives before any coordinator has
  announced itself: the random index is then taken modulo zero.
\<close>

lemma manager_faults:
  "(\<exists>e. manager_run rnd externalUser (init_manager seed) inputs = Fault e) \<longleftrightarrow>
   (\<exists>pre q post. inputs = pre @ In_Coord_Query q # post \<and> syncs pre = [])"
  by (subst manager_run_faults) (simp_all add: init_manager_def)

end
