(* ===== verification/Ph_Requests.thy ===== *)
theory Ph_Requests
  imports Ph_Prelude
begin

text \<open>
  \<^verbatim>\<open>common/include/requests.hpp\<close>: waiting for the responses to a set of requests. What the socket
  does is the argument: a list with a response for every message and \<open>None\<close> for every timeout
  of \<^verbatim>\<open>recv\<close>. The result is \<open>None\<close> while the loop still waits. The template parameter
  \<^verbatim>\<open>RES\<close> is a type variable with the accessor \<^verbatim>\<open>response_id\<close> as a parameter. The limit
  of timeouts is an \<^verbatim>\<open>unsigned\<close> that wraps around.
\<close>

fun receive_loop ::
  "('r \<Rightarrow> string) \<Rightarrow> uint32 \<Rightarrow> string list \<Rightarrow> 'r list \<Rightarrow> 'r option list \<Rightarrow> (bool \<times> string list \<times> 'r list) option" where
  "receive_loop response_id timeout_limit request_ids responses [] = None"
| "receive_loop response_id timeout_limit request_ids responses (Some response # events) =
     (let found = response_id response \<in> set request_ids;
          ids = (if found then uset_erase (response_id response) request_ids else request_ids);
          resps = (if found then responses @ [response] else responses)
      in if ids = [] then Some (True, ids, resps)
         else receive_loop response_id timeout_limit ids resps events)"
| "receive_loop response_id timeout_limit request_ids responses (None # events) =
     (if timeout_limit - 1 = 0 then Some (False, request_ids, [])
      else receive_loop response_id (timeout_limit - 1) request_ids responses events)"

definition receive ::
  "('r \<Rightarrow> string) \<Rightarrow> string list \<Rightarrow> 'r option list \<Rightarrow> (bool \<times> string list \<times> 'r list) option" where
  "receive response_id request_ids events =
     receive_loop response_id (word_of_nat (length request_ids)) request_ids [] events"

text \<open>\<^verbatim>\<open>make_request\<close>: the answer, or a message as its constructor leaves it, and the flag \<^verbatim>\<open>succeed\<close>.\<close>

definition make_request ::
  "('r \<Rightarrow> string) \<Rightarrow> 'r \<Rightarrow> string \<Rightarrow> 'r option list \<Rightarrow> ('r \<times> bool) res option" where
  "make_request response_id empty_response request_id events =
     (case receive response_id [request_id] events of
        None \<Rightarrow> None
      | Some (succeed, _, responses) \<Rightarrow>
          Some (if succeed then res_bind (nth_res responses 0) (\<lambda>r. Ok (r, True)) else Ok (empty_response, False)))"

section \<open>Laws\<close>

lemma uset_erase_remove1: "distinct xs \<Longrightarrow> uset_erase x xs = remove1 x xs"
  by (induction xs) (auto simp: uset_erase_def filter_id_conv)

lemma receive_loop_answers:
  assumes "receive_loop rid limit ids rs events = Some (True, ids', rs')" and "distinct ids"
  shows "ids' = [] \<and> mset (map rid rs') = mset (map rid rs) + mset ids \<and>
    set rs' \<subseteq> set rs \<union> {r. Some r \<in> set events}"
  using assms
proof (induction rid limit ids rs events rule: receive_loop.induct)
  case (2 rid limit ids rs r events)
  let ?ids = "uset_erase (rid r) ids"
  have erase: "mset ids = add_mset (rid r) (mset ?ids)" if "rid r \<in> set ids"
    using that 2(3) by (simp add: uset_erase_remove1)
  show ?case
  proof (cases "rid r \<in> set ids")
    case True
    with 2 erase show ?thesis by (auto simp: Let_def split: if_splits)
  next
    case False
    with 2 show ?thesis by (auto simp: Let_def split: if_splits)
  qed
qed (auto split: if_splits)

lemma receive_loop_gives_up:
  assumes "receive_loop rid limit ids rs events = Some (False, ids', rs')" and "limit \<noteq> 0"
  shows "rs' = [] \<and> unat limit \<le> length (filter (\<lambda>e. e = None) events)"
  using assms
proof (induction rid limit ids rs events rule: receive_loop.induct)
  case (3 rid limit ids rs events)
  have "unat limit = Suc (unat (limit - 1))"
    using 3(3) by (simp add: unat_minus_one unat_gt_0)
  with 3 show ?case by (auto split: if_splits)
qed (auto simp: Let_def split: if_splits)

lemma receive_loop_returns:
  assumes "limit \<noteq> 0" and "unat limit \<le> length (filter (\<lambda>e. e = None) events)"
  shows "\<exists>r. receive_loop rid limit ids rs events = Some r"
  using assms
proof (induction rid limit ids rs events rule: receive_loop.induct)
  case (3 rid limit ids rs events)
  have "unat limit = Suc (unat (limit - 1))"
    using 3(2) by (simp add: unat_minus_one unat_gt_0)
  with 3 show ?case by auto
qed (auto simp: Let_def unat_eq_0)

text \<open>
  Waiting for the responses to distinct request ids ends at the latest with as many timeouts
  as there are requests. If it succeeds, there is exactly one response for every request, and if it
  fails, that many timeouts have happened and no response is handed out.
\<close>

lemma receive_spec:
  assumes "distinct ids" and "ids \<noteq> []" and "length ids < 2 ^ 32"
  shows "(length ids \<le> length (filter (\<lambda>e. e = None) events) \<longrightarrow> receive rid ids events \<noteq> None) \<and>
    (\<forall>left rs. receive rid ids events = Some (True, left, rs) \<longrightarrow>
       left = [] \<and> mset (map rid rs) = mset ids \<and> set rs \<subseteq> {r. Some r \<in> set events}) \<and>
    (\<forall>left rs. receive rid ids events = Some (False, left, rs) \<longrightarrow>
       rs = [] \<and> length ids \<le> length (filter (\<lambda>e. e = None) events))"
proof -
  let ?n = "word_of_nat (length ids) :: uint32"
  have n: "unat ?n = length ids" using assms(3) by (simp add: unat_of_nat)
  then have "?n \<noteq> 0" using assms(2) by (metis length_0_conv unat_0)
  with n show ?thesis
    using receive_loop_returns [of ?n events rid ids "[]"]
      receive_loop_answers [of rid ?n ids "[]" events, OF _ assms(1)]
      receive_loop_gives_up [of rid ?n ids "[]" events]
    unfolding receive_def by auto
qed

end
