(* ===== verification/Ph_Lattice_Base.thy ===== *)
theory Ph_Lattice_Base
  imports Ph_Common "HOL-Library.List_Lexorder" "HOL-Library.Char_ord"
begin

text \<open>
  The lattices of Anna's values, \<^verbatim>\<open>common/include/lattices/\<close>: \<^verbatim>\<open>lattice.hpp\<close>,
  \<^verbatim>\<open>core_lattices.hpp\<close>, \<^verbatim>\<open>lww_pair_lattice.hpp\<close>, \<^verbatim>\<open>priority_lattice.hpp\<close> and the two causal
  lattices. A lattice object is its \<^verbatim>\<open>element\<close>; \<^verbatim>\<open>merge\<close> is a function of the element and of the
  merged value. An unordered set is a distinct list, an ordered set a sorted one, an unordered map
  an association list. The operators that return a \<^verbatim>\<open>MaxLattice<unsigned>\<close> from a size keep its
  low 32 bits. \<^verbatim>\<open>MapLattice::intersect\<close> calls the non-constant \<^verbatim>\<open>at\<close> on a constant
  object, so no instance of it compiles; it has no definition here.
\<close>

section \<open>Booleans and maxima\<close>

definition bool_merge :: "bool \<Rightarrow> bool \<Rightarrow> bool" where
  "bool_merge element e \<longleftrightarrow> element \<or> e"

text \<open>
  The element is copied into an \<^verbatim>\<open>int\<close> and converted back to \<^verbatim>\<open>unsigned\<close> by the comparison:
  the same 32 bits.
\<close>

definition max_merge :: "uint32 \<Rightarrow> uint32 \<Rightarrow> uint32" where
  "max_merge element e =
     (let current = (scast element :: 32 word)
      in if current < e then e else element)"

definition max_add :: "uint32 \<Rightarrow> uint32 \<Rightarrow> uint32" where
  "max_add element n = element + n"

definition max_subtract :: "uint32 \<Rightarrow> uint32 \<Rightarrow> uint32" where
  "max_subtract element n = element - n"


section \<open>Sets\<close>

definition set_merge :: "'a list \<Rightarrow> 'a list \<Rightarrow> 'a list" where
  "set_merge element e = fold uset_insert e element"

definition set_size :: "'a list \<Rightarrow> uint32" where
  "set_size element = word_of_nat (length element)"

definition set_insert :: "'a \<Rightarrow> 'a list \<Rightarrow> 'a list" where
  "set_insert e element = uset_insert e element"

definition set_intersect :: "'a list \<Rightarrow> 'a list \<Rightarrow> 'a list" where
  "set_intersect element s =
     fold (\<lambda>that_elem res.
             fold (\<lambda>this_elem res. if this_elem = that_elem then uset_insert this_elem res else res)
               element res) s []"

definition set_project :: "('a \<Rightarrow> bool) \<Rightarrow> 'a list \<Rightarrow> 'a list" where
  "set_project f element = fold (\<lambda>elem res. if f elem then uset_insert elem res else res) element []"

definition oset_insert :: "'a::linorder \<Rightarrow> 'a list \<Rightarrow> 'a list" where
  "oset_insert x xs = (if x \<in> set xs then xs else insort x xs)"

definition oset_merge :: "'a::linorder list \<Rightarrow> 'a list \<Rightarrow> 'a list" where
  "oset_merge element e = fold oset_insert e element"

definition oset_intersect :: "'a::linorder list \<Rightarrow> 'a list \<Rightarrow> 'a list" where
  "oset_intersect element s =
     fold (\<lambda>that_elem res.
             fold (\<lambda>this_elem res. if this_elem = that_elem then oset_insert this_elem res else res)
               element res) s []"

definition oset_project :: "('a::linorder \<Rightarrow> bool) \<Rightarrow> 'a list \<Rightarrow> 'a list" where
  "oset_project f element = fold (\<lambda>elem res. if f elem then oset_insert elem res else res) element []"


section \<open>Maps\<close>

definition insert_pair :: "('v \<Rightarrow> 'v \<Rightarrow> 'v) \<Rightarrow> 'k \<Rightarrow> 'v \<Rightarrow> ('k \<times> 'v) list \<Rightarrow> ('k \<times> 'v) list" where
  "insert_pair mergeV k v element =
     (case map_of element k of
        Some old \<Rightarrow> AList.update k (mergeV old v) element
      | None \<Rightarrow> AList.update k v element)"

definition map_merge ::
  "('v \<Rightarrow> 'v \<Rightarrow> 'v) \<Rightarrow> ('k \<times> 'v) list \<Rightarrow> ('k \<times> 'v) list \<Rightarrow> ('k \<times> 'v) list" where
  "map_merge mergeV element m = fold (\<lambda>kv. insert_pair mergeV (fst kv) (snd kv)) m element"

definition map_size :: "('k \<times> 'v) list \<Rightarrow> uint32" where
  "map_size element = word_of_nat (length element)"

definition map_project :: "('v \<Rightarrow> bool) \<Rightarrow> ('k \<times> 'v) list \<Rightarrow> ('k \<times> 'v) list" where
  "map_project f element =
     fold (\<lambda>kv res. if f (snd kv) \<and> map_of res (fst kv) = None
                    then AList.update (fst kv) (snd kv) res else res) element []"

definition map_contains :: "'k \<Rightarrow> ('k \<times> 'v) list \<Rightarrow> bool" where
  "map_contains k element = (map_of element k \<noteq> None)"

definition map_key_set :: "('k \<times> 'v) list \<Rightarrow> 'k list" where
  "map_key_set element = fold (\<lambda>kv. uset_insert (fst kv)) element []"

text \<open>\<^verbatim>\<open>at\<close> inserts the default-constructed value for a missing key.\<close>

definition map_ref :: "'v \<Rightarrow> 'k \<Rightarrow> ('k \<times> 'v) list \<Rightarrow> 'v \<times> ('k \<times> 'v) list" where
  "map_ref d k element = (umap_at d element k, umap_touch d k element)"

definition map_remove :: "'k \<Rightarrow> ('k \<times> 'v) list \<Rightarrow> ('k \<times> 'v) list" where
  "map_remove k element = (if map_of element k \<noteq> None then AList.delete k element else element)"

text \<open>\<^verbatim>\<open>operator==\<close> of two unordered maps and of two unordered sets.\<close>

definition umap_eq :: "('v \<Rightarrow> 'v \<Rightarrow> bool) \<Rightarrow> ('k \<times> 'v) list \<Rightarrow> ('k \<times> 'v) list \<Rightarrow> bool" where
  "umap_eq eqv m n \<longleftrightarrow> length m = length n \<and>
     list_all (\<lambda>kv. case map_of n (fst kv) of None \<Rightarrow> False | Some v \<Rightarrow> eqv (snd kv) v) m"

definition uset_eq :: "'a list \<Rightarrow> 'a list \<Rightarrow> bool" where
  "uset_eq xs ys \<longleftrightarrow> length xs = length ys \<and> list_all (\<lambda>x. x \<in> set ys) xs"


section \<open>Timestamps, priorities and causal values\<close>

record 'a TimestampValuePair =
  tv_timestamp :: uint64
  tv_value :: 'a

definition lww_merge :: "'a TimestampValuePair \<Rightarrow> 'a TimestampValuePair \<Rightarrow> 'a TimestampValuePair" where
  "lww_merge element p =
     (if tv_timestamp element \<le> tv_timestamp p
      then element\<lparr>tv_timestamp := tv_timestamp p, tv_value := tv_value p\<rparr> else element)"

definition lww_bot :: "string TimestampValuePair" where
  "lww_bot = \<lparr>tv_timestamp = 0, tv_value = []\<rparr>"

definition lww_size :: "string TimestampValuePair \<Rightarrow> uint32" where
  "lww_size p = word_of_nat (length (tv_value p) + 8)"

text \<open>The type of priorities is a parameter of the template; \<^verbatim>\<open>std::less\<close> is its order.\<close>

record ('p, 'a) PriorityValuePair =
  pv_priority :: 'p
  pv_value :: 'a

definition priority_merge ::
  "('p::linorder, 'a) PriorityValuePair \<Rightarrow> ('p, 'a) PriorityValuePair \<Rightarrow> ('p, 'a) PriorityValuePair" where
  "priority_merge element p = (if pv_priority p < pv_priority element then p else element)"

type_synonym VectorClock = "(string \<times> uint32) list"

definition vc_merge :: "VectorClock \<Rightarrow> VectorClock \<Rightarrow> VectorClock" where
  "vc_merge = map_merge max_merge"

definition vc_eq :: "VectorClock \<Rightarrow> VectorClock \<Rightarrow> bool" where
  "vc_eq = umap_eq (=)"

record 'a VectorClockValuePair =
  vv_vector_clock :: VectorClock
  vv_value :: "'a list"

definition sk_merge ::
  "'a VectorClockValuePair \<Rightarrow> 'a VectorClockValuePair \<Rightarrow> 'a VectorClockValuePair" where
  "sk_merge element p =
     (let prev = vv_vector_clock element;
          vc = vc_merge (vv_vector_clock element) (vv_vector_clock p);
          element' = element\<lparr>vv_vector_clock := vc\<rparr>
      in if vc_eq vc (vv_vector_clock p) then element'\<lparr>vv_value := vv_value p\<rparr>
         else if \<not> vc_eq vc prev
         then element'\<lparr>vv_value := set_merge (vv_value element) (vv_value p)\<rparr>
         else element')"

definition sk_size :: "'a VectorClockValuePair \<Rightarrow> uint32" where
  "sk_size p = map_size (vv_vector_clock p) * 2 * 4 + set_size (vv_value p)"

record 'a MultiKeyCausalPayload =
  mk_vector_clock :: VectorClock
  mk_dependencies :: "(Key \<times> VectorClock) list"
  mk_value :: "'a list"

definition mk_merge ::
  "'a MultiKeyCausalPayload \<Rightarrow> 'a MultiKeyCausalPayload \<Rightarrow> 'a MultiKeyCausalPayload" where
  "mk_merge element p =
     (let prev = mk_vector_clock element;
          vc = vc_merge (mk_vector_clock element) (mk_vector_clock p);
          element' = element\<lparr>mk_vector_clock := vc\<rparr>
      in if vc_eq vc (mk_vector_clock p)
         then element'\<lparr>mk_dependencies := mk_dependencies p, mk_value := mk_value p\<rparr>
         else if \<not> vc_eq vc prev
         then element'\<lparr>mk_dependencies :=
                         map_merge vc_merge (mk_dependencies element) (mk_dependencies p),
                       mk_value := set_merge (mk_value element) (mk_value p)\<rparr>
         else element')"

definition mk_size :: "'a MultiKeyCausalPayload \<Rightarrow> uint32" where
  "mk_size p =
     (let dep_size = fold (\<lambda>kv n. n + word_of_nat (length (fst kv)) + map_size (snd kv) * 2 * 4)
                       (mk_dependencies p) 0
      in map_size (mk_vector_clock p) * 2 * 4 + dep_size + set_size (mk_value p))"

end
