(* ===== verification/Ph_Lattice_Laws.thy ===== *)
theory Ph_Lattice_Laws
  imports Ph_Lattice_Base
begin

text \<open>
  What the lattices of \<^verbatim>\<open>common/include/lattices/\<close> guarantee. The locale \<open>merge_lattice\<close> is the
  contract of \<^verbatim>\<open>merge\<close>: through an abstraction it is a semilattice operation, so replicas
  converge. It is interpreted on every lattice that satisfies it, and lifted to maps over such a
  lattice. The pairs with timestamps or priorities and the causal lattices, which satisfy it only in
  part, have properties of their own.
\<close>

section \<open>The contract of a merge\<close>

locale merge_lattice = semilattice join
  for join :: "'b \<Rightarrow> 'b \<Rightarrow> 'b" +
  fixes merge :: "'a \<Rightarrow> 'a \<Rightarrow> 'a" and abs :: "'a \<Rightarrow> 'b" and ok :: "'a \<Rightarrow> bool"
  assumes merge_abs: "ok x \<Longrightarrow> ok y \<Longrightarrow> abs (merge x y) = join (abs x) (abs y)"
    and merge_ok: "ok x \<Longrightarrow> ok y \<Longrightarrow> ok (merge x y)"
begin

lemma deliver_ok: "ok s \<Longrightarrow> \<forall>x \<in> set xs. ok x \<Longrightarrow> ok (fold (\<lambda>e s. merge s e) xs s)"
  by (induction xs arbitrary: s) (auto simp: merge_ok)

lemma deliver_abs:
  "ok s \<Longrightarrow> \<forall>x \<in> set xs. ok x \<Longrightarrow>
   abs (fold (\<lambda>e s. merge s e) xs s) = fold (\<lambda>e a. join a (abs e)) xs (abs s)"
  by (induction xs arbitrary: s) (auto simp: merge_ok merge_abs)

lemma idem_fold: "comp_fun_idem_on UNIV (\<lambda>e a. join a (abs e))"
  by unfold_locales (auto simp: fun_eq_iff left_commute commute assoc left_idem)

text \<open>Replicas that have received the same updates agree, whatever the order and repetitions.\<close>

lemma converges:
  assumes "ok s" and "\<forall>x \<in> set xs. ok x" and "set xs = set ys"
  shows "abs (fold (\<lambda>e s. merge s e) xs s) = abs (fold (\<lambda>e s. merge s e) ys s)"
proof -
  have "fold (\<lambda>e a. join a (abs e)) xs (abs s) = fold (\<lambda>e a. join a (abs e)) ys (abs s)"
    using comp_fun_idem_on.fold_set_fold [OF idem_fold, of xs "abs s"]
      comp_fun_idem_on.fold_set_fold [OF idem_fold, of ys "abs s"] assms(3) by simp
  then show ?thesis using assms by (simp add: deliver_abs)
qed

end

lemma max_merge_eq: "max_merge element e = max element e"
  by (auto simp: max_merge_def max_def)
  
interpretation bool_lattice: merge_lattice "(\<or>)" bool_merge "\<lambda>x. x" "\<lambda>_. True"
  by unfold_locales (auto simp: bool_merge_def)

interpretation max_lattice: merge_lattice "max" max_merge "\<lambda>x. x" "\<lambda>_. True"
  by unfold_locales (auto simp: max_merge_eq)

lemma set_set_merge [simp]: "set (set_merge element e) = set element \<union> set e"
  by (simp add: set_merge_def set_fold_uset_insert)

lemma distinct_set_merge [simp]: "distinct element \<Longrightarrow> distinct (set_merge element e)"
  by (simp add: set_merge_def distinct_fold_uset_insert)

interpretation set_lattice: merge_lattice "(\<union>)" set_merge set distinct
  by unfold_locales auto

lemma set_oset_insert [simp]: "set (oset_insert x xs) = insert x (set xs)"
  by (auto simp: oset_insert_def set_insort_key)

lemma oset_insert_ok [simp]:
  "sorted xs \<and> distinct xs \<Longrightarrow> sorted (oset_insert x xs) \<and> distinct (oset_insert x xs)"
  by (auto simp: oset_insert_def sorted_insort distinct_insort)

lemma set_oset_merge [simp]: "set (oset_merge element e) = set element \<union> set e"
  by (induction e arbitrary: element) (auto simp: oset_merge_def)

lemma oset_merge_ok:
  "sorted element \<and> distinct element \<Longrightarrow> sorted (oset_merge element e) \<and> distinct (oset_merge element e)"
  by (induction e arbitrary: element) (auto simp: oset_merge_def)

interpretation oset_lattice: merge_lattice "(\<union>)" oset_merge set "\<lambda>xs. sorted xs \<and> distinct xs"
  by unfold_locales (use oset_merge_ok in auto)

section \<open>Maps\<close>

definition map_join :: "('b \<Rightarrow> 'b \<Rightarrow> 'b) \<Rightarrow> ('k \<Rightarrow> 'b option) \<Rightarrow> ('k \<Rightarrow> 'b option) \<Rightarrow> 'k \<Rightarrow> 'b option" where
  "map_join jn f g = (\<lambda>k. case f k of None \<Rightarrow> g k
     | Some a \<Rightarrow> (case g k of None \<Rightarrow> Some a | Some b \<Rightarrow> Some (jn a b)))"

definition map_abs :: "('v \<Rightarrow> 'b) \<Rightarrow> ('k \<times> 'v) list \<Rightarrow> 'k \<Rightarrow> 'b option" where
  "map_abs av m = (\<lambda>k. map_option av (map_of m k))"

definition map_ok :: "('v \<Rightarrow> bool) \<Rightarrow> ('k \<times> 'v) list \<Rightarrow> bool" where
  "map_ok ok m \<longleftrightarrow> umap_ok m \<and> (\<forall>kv \<in> set m. ok (snd kv))"

context merge_lattice
begin

lemma map_join_semilattice: "semilattice (map_join join)"
  by unfold_locales (auto simp: map_join_def fun_eq_iff assoc commute left_commute split: option.splits)

lemma insert_pair_ok:
  assumes "map_ok ok m" and "ok v"
  shows "map_ok ok (insert_pair merge k v m)"
proof -
  have "ok (merge old v)" if "map_of m k = Some old" for old
    using assms map_of_SomeD [OF that] by (auto simp: map_ok_def merge_ok)
  then show ?thesis
    using assms set_AList_update_subset [of k _ m]
    by (fastforce simp: map_ok_def insert_pair_def split: option.splits)
qed

lemma insert_pair_abs:
  assumes "map_ok ok m" and "ok v"
  shows "map_abs abs (insert_pair merge k v m) = map_join join (map_abs abs m) [k \<mapsto> abs v]"
proof -
  have "abs (merge old v) = join (abs old) (abs v)" if "map_of m k = Some old" for old
    using assms map_of_SomeD [OF that] by (auto simp: map_ok_def merge_abs)
  then show ?thesis
    by (auto simp: map_abs_def map_join_def insert_pair_def update_conv' fun_eq_iff split: option.splits)
qed

lemma map_merge_ok_abs:
  assumes "map_ok ok m" and "map_ok ok n"
  shows "map_ok ok (map_merge merge m n) \<and>
    map_abs abs (map_merge merge m n) = map_join join (map_abs abs m) (map_abs abs n)"
  using assms
proof (induction n arbitrary: m)
  case Nil
  then show ?case by (auto simp: map_merge_def map_abs_def map_join_def fun_eq_iff split: option.splits)
next
  case (Cons kv n)
  obtain k v where kv: "kv = (k, v)" by (cases kv)
  let ?m = "insert_pair merge k v m"
  have n: "ok v" "map_ok ok n" "map_of n k = None"
    using Cons.prems(2) by (auto simp: kv map_ok_def map_of_eq_None_iff)
  have step: "map_merge merge m (kv # n) = map_merge merge ?m n"
    by (simp add: map_merge_def kv)
  have "map_ok ok (map_merge merge ?m n) \<and>
    map_abs abs (map_merge merge ?m n) = map_join join (map_abs abs ?m) (map_abs abs n)"
    by (rule Cons.IH [OF insert_pair_ok [OF Cons.prems(1) n(1)] n(2)])
  moreover have "map_join join (map_abs abs ?m) (map_abs abs n) =
      map_join join (map_abs abs m) (map_abs abs (kv # n))"
    unfolding insert_pair_abs [OF Cons.prems(1) n(1)] using n(3)
    by (auto simp: map_join_def map_abs_def kv fun_eq_iff split: option.splits)
  ultimately show ?case by (simp add: step)
qed

lemma map_lattice: "merge_lattice (map_join join) (map_merge merge) (map_abs abs) (map_ok ok)"
  unfolding merge_lattice_def merge_lattice_axioms_def
  using map_join_semilattice map_merge_ok_abs by blast

end

interpretation vc_lattice: merge_lattice "map_join max" vc_merge "map_abs (\<lambda>x. x)" "map_ok (\<lambda>_. True)"
  unfolding vc_merge_def by (rule max_lattice.map_lattice)

interpretation dep_lattice: merge_lattice "map_join (map_join max)" "map_merge vc_merge"
  "map_abs (map_abs (\<lambda>x. x))" "map_ok (map_ok (\<lambda>_. True))"
  by (rule vc_lattice.map_lattice)

section \<open>Convergence\<close>

lemma umap_eq_iff:
  assumes "umap_ok m" and "umap_ok n"
  shows "umap_eq (=) m n \<longleftrightarrow> map_of m = map_of n"
proof -
  have "(case map_of n (fst kv) of None \<Rightarrow> False | Some v \<Rightarrow> snd kv = v) \<longleftrightarrow> kv \<in> set n" for kv
    using map_of_eq_Some_iff [OF assms(2), of "fst kv" "snd kv"] by (auto split: option.splits)
  then have "list_all (\<lambda>kv. case map_of n (fst kv) of None \<Rightarrow> False | Some v \<Rightarrow> snd kv = v) m \<longleftrightarrow>
      set m \<subseteq> set n"
    by (auto simp: list_all_iff)
  moreover have "set m \<subseteq> set n \<Longrightarrow> length m = length n \<longleftrightarrow> set m = set n"
    using assms by (intro distinct_subset_eq_length) (auto simp: distinct_map)
  ultimately show ?thesis
    using map_of_inject_set [OF assms] distinct_card [of m] distinct_card [of n] assms
    by (auto simp: umap_eq_def distinct_map)
qed

lemma uset_eq_iff: "distinct xs \<Longrightarrow> distinct ys \<Longrightarrow> uset_eq xs ys \<longleftrightarrow> set xs = set ys"
  using distinct_subset_eq_length [of xs ys] distinct_card [of xs] distinct_card [of ys]
  by (auto simp: uset_eq_def list_all_iff)

lemma map_abs_id [simp]: "map_abs (\<lambda>x. x) m = map_of m"
  by (simp add: map_abs_def option.map_ident)

text \<open>
  Property C30: vector clocks form a lattice under \<^verbatim>\<open>merge\<close>. Two replicas that start from the same clock
  and receive the same set of clocks, each in its own order and with any repetitions, end with
  clocks that \<^verbatim>\<open>operator==\<close> finds equal.
\<close>

theorem vector_clock_converges:
  assumes "umap_ok s" and "\<forall>x \<in> set xs. umap_ok x" and "set xs = set ys"
  shows "vc_eq (fold (\<lambda>e s. vc_merge s e) xs s) (fold (\<lambda>e s. vc_merge s e) ys s)"
proof -
  have ok: "map_ok (\<lambda>_. True) s" "\<forall>x \<in> set xs. map_ok (\<lambda>_. True) x" "\<forall>x \<in> set ys. map_ok (\<lambda>_. True) x"
    using assms by (auto simp: map_ok_def)
  show ?thesis
    using vc_lattice.converges [OF ok(1,2) assms(3)] vc_lattice.deliver_ok [OF ok(1,2)]
      vc_lattice.deliver_ok [OF ok(1,3)]
    by (simp add: vc_eq_def umap_eq_iff map_ok_def)
qed

theorem vector_clock_converges_witness:
  "vc_eq (fold (\<lambda>e s. vc_merge s e) [[(''a'', 1)], [(''b'', 2)]] [])
         (fold (\<lambda>e s. vc_merge s e) [[(''b'', 2)], [(''a'', 1)], [(''b'', 2)]] [])"
  by (rule vector_clock_converges) auto

text \<open>
  The same for sets of values, unordered and ordered.
\<close>

lemma set_lattices_converge:
  assumes "distinct s" and "\<forall>x \<in> set xs. distinct x" and "set xs = set ys"
    and "sorted os" and "distinct os" and "\<forall>x \<in> set oxs. sorted x \<and> distinct x" and "set oxs = set oys"
  shows "uset_eq (fold (\<lambda>e s. set_merge s e) xs s) (fold (\<lambda>e s. set_merge s e) ys s) \<and>
    fold (\<lambda>e s. oset_merge s e) oxs os = fold (\<lambda>e s. oset_merge s e) oys os"
proof
  show "uset_eq (fold (\<lambda>e s. set_merge s e) xs s) (fold (\<lambda>e s. set_merge s e) ys s)"
    using set_lattice.converges [OF assms(1-3)] set_lattice.deliver_ok [OF assms(1,2)]
      set_lattice.deliver_ok [OF assms(1), of ys] assms(2,3) by (simp add: uset_eq_iff)
  have os: "sorted os \<and> distinct os" using assms(4,5) by simp
  show "fold (\<lambda>e s. oset_merge s e) oxs os = fold (\<lambda>e s. oset_merge s e) oys os"
    using oset_lattice.converges [OF os assms(6,7)] oset_lattice.deliver_ok [OF os assms(6)]
      oset_lattice.deliver_ok [OF os, of oys] assms(6,7)
    by (intro sorted_distinct_set_unique) auto
qed

section \<open>Last writer wins\<close>

lemma lww_merge_eq:
  "lww_merge s p = (if tv_timestamp s \<le> tv_timestamp p
     then \<lparr>tv_timestamp = tv_timestamp p, tv_value = tv_value p\<rparr> else s)"
  for s :: "'a TimestampValuePair"
  by (simp add: lww_merge_def)

lemma lww_fold:
  fixes s :: "'a TimestampValuePair"
  shows "fold (\<lambda>e s. lww_merge s e) xs s \<in> insert s (set xs) \<and>
    (\<forall>x \<in> insert s (set xs). tv_timestamp x \<le> tv_timestamp (fold (\<lambda>e s. lww_merge s e) xs s))"
proof (induction xs arbitrary: s)
  case (Cons p xs)
  have "lww_merge s p \<in> {s, p} \<and> tv_timestamp s \<le> tv_timestamp (lww_merge s p) \<and>
      tv_timestamp p \<le> tv_timestamp (lww_merge s p)"
    by (auto simp: lww_merge_eq)
  with Cons.IH [of "lww_merge s p"] show ?case by fastforce
qed simp

text \<open>
  If no two different updates carry the same timestamp, a last-writer-wins register ends, for
  every order and repetition of the updates, with the one update of the greatest timestamp.
\<close>

lemma lww_converges:
  fixes s :: "'a TimestampValuePair"
  assumes "inj_on tv_timestamp (insert s (set xs))" and "set xs = set ys"
  shows "fold (\<lambda>e s. lww_merge s e) xs s = fold (\<lambda>e s. lww_merge s e) ys s \<and>
    fold (\<lambda>e s. lww_merge s e) xs s \<in> insert s (set xs) \<and>
    (\<forall>x \<in> insert s (set xs). tv_timestamp x \<le> tv_timestamp (fold (\<lambda>e s. lww_merge s e) xs s))"
proof -
  let ?r = "\<lambda>xs. fold (\<lambda>e s. lww_merge s e) xs s"
  have mem: "?r xs \<in> insert s (set xs)" "?r ys \<in> insert s (set xs)"
    using lww_fold [of xs s] lww_fold [of ys s] assms(2) by auto
  have "tv_timestamp (?r xs) = tv_timestamp (?r ys)"
    using lww_fold [of xs s] lww_fold [of ys s] assms(2) by (intro antisym) auto
  then have "?r xs = ?r ys" by (rule inj_onD [OF assms(1) _ mem])
  with lww_fold [of xs s] show ?thesis by simp
qed

text \<open>Equal timestamps: the later delivery wins, so the order of delivery shows.\<close>

lemma lww_tie:
  "tv_timestamp a = tv_timestamp b \<Longrightarrow> lww_merge a b = b \<and> lww_merge b a = (a :: 'a TimestampValuePair)"
  by (simp add: lww_merge_eq)

text \<open>Priorities: the smallest one is kept, and among equal ones the first.\<close>

lemma priority_fold:
  fixes s :: "('p::linorder, 'a) PriorityValuePair"
  shows "fold (\<lambda>e s. priority_merge s e) xs s \<in> insert s (set xs) \<and>
    (\<forall>x \<in> insert s (set xs). pv_priority (fold (\<lambda>e s. priority_merge s e) xs s) \<le> pv_priority x)"
proof (induction xs arbitrary: s)
  case (Cons p xs)
  have "priority_merge s p \<in> {s, p} \<and> pv_priority (priority_merge s p) \<le> pv_priority s \<and>
      pv_priority (priority_merge s p) \<le> pv_priority p"
    by (auto simp: priority_merge_def)
  with Cons.IH [of "priority_merge s p"] show ?case by fastforce
qed simp

section \<open>Causal values\<close>

definition vc_le :: "VectorClock \<Rightarrow> VectorClock \<Rightarrow> bool" where
  "vc_le v w \<longleftrightarrow> (\<forall>k n. map_of v k = Some n \<longrightarrow> (\<exists>m. map_of w k = Some m \<and> n \<le> m))"

lemma map_of_vc_merge:
  "umap_ok v \<Longrightarrow> umap_ok w \<Longrightarrow> map_of (vc_merge v w) = map_join max (map_of v) (map_of w)"
  using vc_lattice.merge_abs [of v w] by (simp add: map_ok_def)

lemma umap_ok_vc_merge: "umap_ok v \<Longrightarrow> umap_ok w \<Longrightarrow> umap_ok (vc_merge v w)"
  using vc_lattice.merge_ok [of v w] by (simp add: map_ok_def)

lemma vc_eq_iff: "umap_ok v \<Longrightarrow> umap_ok w \<Longrightarrow> vc_eq v w \<longleftrightarrow> map_of v = map_of w"
  by (simp add: vc_eq_def umap_eq_iff)

lemma map_join_eq_right: "map_join max (map_of v) (map_of w) = map_of w \<longleftrightarrow> vc_le v w"
proof -
  have "map_join max (map_of v) (map_of w) k = map_of w k \<longleftrightarrow>
      (\<forall>n. map_of v k = Some n \<longrightarrow> (\<exists>m. map_of w k = Some m \<and> n \<le> m))" for k
    by (cases "map_of v k"; cases "map_of w k") (auto simp: map_join_def max_def)
  then show ?thesis by (simp add: fun_eq_iff vc_le_def)
qed

lemma map_join_eq_left: "map_join max (map_of v) (map_of w) = map_of v \<longleftrightarrow> vc_le w v"
  using map_join_eq_right [of w v] semilattice.axioms vc_lattice.commute by metis

lemma vc_merge_dominates:
  assumes "umap_ok v" and "umap_ok w"
  shows "vc_eq (vc_merge v w) w \<longleftrightarrow> vc_le v w" and "vc_eq (vc_merge v w) v \<longleftrightarrow> vc_le w v"
  using assms
  by (simp_all add: vc_eq_iff umap_ok_vc_merge map_of_vc_merge map_join_eq_right map_join_eq_left)

text \<open>
  A single-key causal value merges an incoming version by its clock. If the incoming clock is
  at least the stored one its values replace the stored ones; if it is strictly older they are
  ignored; if the two are concurrent the values are united. The clock becomes the least clock above
  both.
\<close>

lemma sk_merge_cases:
  assumes "umap_ok (vv_vector_clock x)" and "umap_ok (vv_vector_clock p)"
  shows "map_of (vv_vector_clock (sk_merge x p)) =
      map_join max (map_of (vv_vector_clock x)) (map_of (vv_vector_clock p)) \<and>
    set (vv_value (sk_merge x p)) =
      (if vc_le (vv_vector_clock x) (vv_vector_clock p) then set (vv_value p)
       else if vc_le (vv_vector_clock p) (vv_vector_clock x) then set (vv_value x)
       else set (vv_value x) \<union> set (vv_value p))"
  using vc_merge_dominates [OF assms] map_of_vc_merge [OF assms]
  by (simp add: sk_merge_def Let_def)

lemma vc_le_cong: "map_of v = map_of v' \<Longrightarrow> map_of w = map_of w' \<Longrightarrow> vc_le v w = vc_le v' w'"
  by (simp add: vc_le_def)

lemma vc_le_trans: "vc_le u v \<Longrightarrow> vc_le v w \<Longrightarrow> vc_le u w"
  by (fastforce simp: vc_le_def)

lemma vc_le_merge:
  assumes "umap_ok v" and "umap_ok w"
  shows "vc_le v (vc_merge v w)" and "vc_le w (vc_merge v w)"
  using map_of_vc_merge [OF assms] by (auto simp: vc_le_def map_join_def split: option.splits)

lemma sk_merge_clock:
  "vv_vector_clock (sk_merge x p) = vc_merge (vv_vector_clock x) (vv_vector_clock p)"
  by (simp add: sk_merge_def Let_def)

text \<open>
  Property C40: the merge of causal values depends on the order of delivery. Take any three versions of which
  the third overwrites the first, and the second is concurrent with both. Delivered with the second one last,
  the values are those of the second and the third. Delivered with the third one last, the overwritten values of
  the first are still there, and those of the third are missing when its clock is below the join of the first two;
  the clock is the same.
\<close>

theorem sk_merge_order_dependent:
  fixes x y z :: "'a VectorClockValuePair"
  assumes "umap_ok (vv_vector_clock x)" and "umap_ok (vv_vector_clock y)" and "umap_ok (vv_vector_clock z)"
    and "vc_le (vv_vector_clock x) (vv_vector_clock z)" and "\<not> vc_le (vv_vector_clock x) (vv_vector_clock y)"
    and "\<not> vc_le (vv_vector_clock y) (vv_vector_clock z)" and "\<not> vc_le (vv_vector_clock z) (vv_vector_clock y)"
  shows "map_of (vv_vector_clock (sk_merge (sk_merge x z) y)) = map_of (vv_vector_clock (sk_merge (sk_merge x y) z)) \<and>
    set (vv_value (sk_merge (sk_merge x z) y)) = set (vv_value z) \<union> set (vv_value y) \<and>
    set (vv_value (sk_merge (sk_merge x y) z)) = set (vv_value x) \<union> set (vv_value y) \<union>
      (if vc_le (vv_vector_clock z) (vc_merge (vv_vector_clock x) (vv_vector_clock y)) then {} else set (vv_value z))"
proof (intro conjI)
  let ?x = "vv_vector_clock x" and ?y = "vv_vector_clock y" and ?z = "vv_vector_clock z"
  have ok: "umap_ok (vc_merge ?x ?z)" "umap_ok (vc_merge ?x ?y)" using assms(1-3) by (simp_all add: umap_ok_vc_merge)
  show "map_of (vv_vector_clock (sk_merge (sk_merge x z) y)) = map_of (vv_vector_clock (sk_merge (sk_merge x y) z))"
    using assms(1-3) ok by (simp add: sk_merge_clock map_of_vc_merge ac_simps vc_lattice.commute vc_lattice.assoc vc_lattice.left_commute)
  have "map_of (vc_merge ?x ?z) = map_of ?z" using assms(1,3,4) by (simp add: map_of_vc_merge map_join_eq_right)
  then show "set (vv_value (sk_merge (sk_merge x z) y)) = set (vv_value z) \<union> set (vv_value y)"
    using sk_merge_cases [of "sk_merge x z" y] sk_merge_cases [of x z] assms ok
      vc_le_cong [of "vc_merge ?x ?z" ?z ?y ?y] vc_le_cong [of ?y ?y "vc_merge ?x ?z" ?z]
    by (simp add: sk_merge_clock)
  have "\<not> vc_le (vc_merge ?x ?y) ?z" "\<not> vc_le ?y ?x"
    using vc_le_merge(2) [OF assms(1,2)] assms(4,6) vc_le_trans by blast+
  then show "set (vv_value (sk_merge (sk_merge x y) z)) = set (vv_value x) \<union> set (vv_value y) \<union>
      (if vc_le ?z (vc_merge ?x ?y) then {} else set (vv_value z))"
    using sk_merge_cases [of "sk_merge x y" z] sk_merge_cases [of x y] assms ok by (simp add: sk_merge_clock)
qed

theorem sk_merge_order_dependent_witness:
  "let x = \<lparr>vv_vector_clock = [(''a'', 1)], vv_value = [''x'']\<rparr>;
       y = \<lparr>vv_vector_clock = [(''b'', 1)], vv_value = [''y'']\<rparr>;
       z = \<lparr>vv_vector_clock = [(''a'', 2)], vv_value = [''z'']\<rparr>
   in set (vv_value (sk_merge (sk_merge x z) y)) = {''y'', ''z''} \<and>
      set (vv_value (sk_merge (sk_merge x y) z)) = {''x'', ''y'', ''z''}"
proof -
  let ?x = "\<lparr>vv_vector_clock = [(''a'', 1)], vv_value = [''x'']\<rparr>"
  let ?y = "\<lparr>vv_vector_clock = [(''b'', 1)], vv_value = [''y'']\<rparr>"
  let ?z = "\<lparr>vv_vector_clock = [(''a'', 2)], vv_value = [''z'']\<rparr>"
  have "\<not> vc_le (vv_vector_clock ?z) (vc_merge (vv_vector_clock ?x) (vv_vector_clock ?y))"
    by (simp add: vc_le_def vc_merge_def map_merge_def insert_pair_def word_le_nat_alt)
  moreover have "umap_ok (vv_vector_clock ?x)" "umap_ok (vv_vector_clock ?y)" "umap_ok (vv_vector_clock ?z)"
    "vc_le (vv_vector_clock ?x) (vv_vector_clock ?z)" "\<not> vc_le (vv_vector_clock ?x) (vv_vector_clock ?y)"
    "\<not> vc_le (vv_vector_clock ?y) (vv_vector_clock ?z)" "\<not> vc_le (vv_vector_clock ?z) (vv_vector_clock ?y)"
    by (simp_all add: vc_le_def word_le_nat_alt)
  note sk_merge_order_dependent [OF this]
  ultimately show ?thesis by (auto simp: Let_def)
qed

text \<open>The multi-key lattice decides in the same way, and treats dependencies like values.\<close>

lemma mk_merge_cases:
  assumes "umap_ok (mk_vector_clock x)" and "umap_ok (mk_vector_clock p)"
  shows "map_of (mk_vector_clock (mk_merge x p)) =
      map_join max (map_of (mk_vector_clock x)) (map_of (mk_vector_clock p)) \<and>
    set (mk_value (mk_merge x p)) =
      (if vc_le (mk_vector_clock x) (mk_vector_clock p) then set (mk_value p)
       else if vc_le (mk_vector_clock p) (mk_vector_clock x) then set (mk_value x)
       else set (mk_value x) \<union> set (mk_value p)) \<and>
    mk_dependencies (mk_merge x p) =
      (if vc_le (mk_vector_clock x) (mk_vector_clock p) then mk_dependencies p
       else if vc_le (mk_vector_clock p) (mk_vector_clock x) then mk_dependencies x
       else map_merge vc_merge (mk_dependencies x) (mk_dependencies p))"
  using vc_merge_dominates [OF assms] map_of_vc_merge [OF assms]
  by (simp add: mk_merge_def Let_def)

end
