(* ===== verification/Ph_Lattice_Codec.thy ===== *)
theory Ph_Lattice_Codec
  imports Ph_Lattice_Laws
begin

text \<open>
  \<^verbatim>\<open>common/include/common.hpp\<close>, second part: the conversion of lattice values to and from the
  strings that Anna stores. The messages of \<^verbatim>\<open>anna.proto\<close> are records; the generated
  \<^verbatim>\<open>SerializeToString\<close> and \<^verbatim>\<open>ParseFromString\<close> are the parameter \<open>value_codec\<close>. A map field
  of a message is an association list.
\<close>

section \<open>Messages\<close>

record LWWValue =
  lv_timestamp :: uint64
  lv_value :: string

record SetValue =
  sv_values :: "string list"

record SingleKeyCausalValue =
  skv_vector_clock :: VectorClock
  skv_values :: "string list"

record KeyVersion =
  kv_key :: string
  kv_vector_clock :: VectorClock

record MultiKeyCausalValue =
  mkv_vector_clock :: VectorClock
  mkv_dependencies :: "KeyVersion list"
  mkv_values :: "string list"

record 'p PriorityValue =
  prv_priority :: 'p
  prv_value :: string

record 'p value_codec =
  ser_LWW :: "LWWValue \<Rightarrow> string"
  parse_LWW :: "string \<Rightarrow> LWWValue"
  ser_Set :: "SetValue \<Rightarrow> string"
  parse_Set :: "string \<Rightarrow> SetValue"
  ser_SKCausal :: "SingleKeyCausalValue \<Rightarrow> string"
  parse_SKCausal :: "string \<Rightarrow> SingleKeyCausalValue"
  ser_MKCausal :: "MultiKeyCausalValue \<Rightarrow> string"
  parse_MKCausal :: "string \<Rightarrow> MultiKeyCausalValue"
  ser_Priority :: "'p PriorityValue \<Rightarrow> string"
  parse_Priority :: "string \<Rightarrow> 'p PriorityValue"


section \<open>Serialization\<close>

definition serialize_timestamp :: "'p value_codec \<Rightarrow> uint64 \<Rightarrow> string \<Rightarrow> string" where
  "serialize_timestamp pb timestamp val = ser_LWW pb \<lparr>lv_timestamp = timestamp, lv_value = val\<rparr>"

definition serialize_lww :: "'p value_codec \<Rightarrow> string TimestampValuePair \<Rightarrow> string" where
  "serialize_lww pb l = ser_LWW pb \<lparr>lv_timestamp = tv_timestamp l, lv_value = tv_value l\<rparr>"

definition add_values :: "string list \<Rightarrow> string list \<Rightarrow> string list" where
  "add_values vals message = fold (\<lambda>val msg. msg @ [val]) vals message"

definition serialize_set :: "'p value_codec \<Rightarrow> string list \<Rightarrow> string" where
  "serialize_set pb l = ser_Set pb \<lparr>sv_values = add_values l []\<rparr>"

definition serialize_ordered_set :: "'p value_codec \<Rightarrow> string list \<Rightarrow> string" where
  "serialize_ordered_set pb l = ser_Set pb \<lparr>sv_values = add_values l []\<rparr>"

definition serialize_plain_set :: "'p value_codec \<Rightarrow> string list \<Rightarrow> string" where
  "serialize_plain_set pb s = ser_Set pb \<lparr>sv_values = add_values s []\<rparr>"

definition set_clock :: "VectorClock \<Rightarrow> VectorClock \<Rightarrow> VectorClock" where
  "set_clock vc ptr = fold (\<lambda>pair. AList.update (fst pair) (snd pair)) vc ptr"

definition sk_message :: "string VectorClockValuePair \<Rightarrow> SingleKeyCausalValue" where
  "sk_message l =
     \<lparr>skv_vector_clock = set_clock (vv_vector_clock l) [], skv_values = add_values (vv_value l) []\<rparr>"

definition serialize_sk :: "'p value_codec \<Rightarrow> string VectorClockValuePair \<Rightarrow> string" where
  "serialize_sk pb l = ser_SKCausal pb (sk_message l)"

definition mk_message :: "string MultiKeyCausalPayload \<Rightarrow> MultiKeyCausalValue" where
  "mk_message l =
     \<lparr>mkv_vector_clock = set_clock (mk_vector_clock l) [],
      mkv_dependencies =
        fold (\<lambda>pair deps. deps @ [\<lparr>kv_key = fst pair, kv_vector_clock = set_clock (snd pair) []\<rparr>])
          (mk_dependencies l) [],
      mkv_values = add_values (mk_value l) []\<rparr>"

definition serialize_mk :: "'p value_codec \<Rightarrow> string MultiKeyCausalPayload \<Rightarrow> string" where
  "serialize_mk pb l = ser_MKCausal pb (mk_message l)"

definition serialize_priority :: "'p value_codec \<Rightarrow> ('p, string) PriorityValuePair \<Rightarrow> string" where
  "serialize_priority pb l = ser_Priority pb \<lparr>prv_priority = pv_priority l, prv_value = pv_value l\<rparr>"


section \<open>Deserialization\<close>

definition deserialize_lww :: "'p value_codec \<Rightarrow> string \<Rightarrow> string TimestampValuePair" where
  "deserialize_lww pb serialized =
     (let lww = parse_LWW pb serialized
      in \<lparr>tv_timestamp = lv_timestamp lww, tv_value = lv_value lww\<rparr>)"

definition deserialize_set :: "'p value_codec \<Rightarrow> string \<Rightarrow> string list" where
  "deserialize_set pb serialized = fold uset_insert (sv_values (parse_Set pb serialized)) []"

definition deserialize_ordered_set :: "'p value_codec \<Rightarrow> string \<Rightarrow> string list" where
  "deserialize_ordered_set pb serialized = fold oset_insert (sv_values (parse_Set pb serialized)) []"

definition deserialize_causal :: "'p value_codec \<Rightarrow> string \<Rightarrow> SingleKeyCausalValue" where
  "deserialize_causal pb serialized = parse_SKCausal pb serialized"

definition deserialize_multi_key_causal :: "'p value_codec \<Rightarrow> string \<Rightarrow> MultiKeyCausalValue" where
  "deserialize_multi_key_causal pb serialized = parse_MKCausal pb serialized"

definition deserialize_priority :: "'p value_codec \<Rightarrow> string \<Rightarrow> ('p, string) PriorityValuePair" where
  "deserialize_priority pb serialized =
     (let pv = parse_Priority pb serialized
      in \<lparr>pv_priority = prv_priority pv, pv_value = prv_value pv\<rparr>)"

definition insert_clock :: "VectorClock \<Rightarrow> VectorClock \<Rightarrow> VectorClock" where
  "insert_clock pairs vc = fold (\<lambda>pair. insert_pair max_merge (fst pair) (snd pair)) pairs vc"

definition to_vector_clock_value_pair :: "SingleKeyCausalValue \<Rightarrow> string VectorClockValuePair" where
  "to_vector_clock_value_pair cv =
     \<lparr>vv_vector_clock = insert_clock (skv_vector_clock cv) [],
      vv_value = fold set_insert (skv_values cv) []\<rparr>"

definition to_multi_key_causal_payload :: "MultiKeyCausalValue \<Rightarrow> string MultiKeyCausalPayload" where
  "to_multi_key_causal_payload mkcv =
     \<lparr>mk_vector_clock = insert_clock (mkv_vector_clock mkcv) [],
      mk_dependencies =
        fold (\<lambda>dep. insert_pair vc_merge (kv_key dep) (insert_clock (kv_vector_clock dep) []))
          (mkv_dependencies mkcv) [],
      mk_value = fold set_insert (mkv_values mkcv) []\<rparr>"


section \<open>Round trips\<close>

lemma add_values_eq [simp]: "add_values vals msg = msg @ vals"
  by (induction vals arbitrary: msg) (simp_all add: add_values_def)

lemma set_clock_append: "umap_ok (ptr @ vc) \<Longrightarrow> set_clock vc ptr = ptr @ vc"
proof (induction vc arbitrary: ptr)
  case (Cons pair vc)
  then have "AList.update (fst pair) (snd pair) ptr = ptr @ [pair]"
    by (cases pair) (auto simp: update_new)
  with Cons.IH [of "ptr @ [pair]"] Cons.prems show ?case by (simp add: set_clock_def)
qed (simp add: set_clock_def)

lemma insert_pairs_append:
  "umap_ok (m @ pairs) \<Longrightarrow>
   fold (\<lambda>pair. insert_pair mergeV (fst pair) (snd pair)) pairs m = m @ pairs"
proof (induction pairs arbitrary: m)
  case (Cons pair pairs)
  then have new: "fst pair \<notin> fst ` set m" by auto
  then have "map_of m (fst pair) = None" by (simp add: map_of_eq_None_iff)
  with new have "insert_pair mergeV (fst pair) (snd pair) m = m @ [pair]"
    by (simp add: update_new insert_pair_def)
  with Cons.IH [of "m @ [pair]"] Cons.prems show ?case by simp
qed simp

lemma fold_snoc: "fold (\<lambda>x acc. acc @ [f x]) xs acc = acc @ map f xs"
  by (induction xs arbitrary: acc) simp_all

lemma oset_insert_sorted:
  "sorted (acc @ xs) \<Longrightarrow> distinct (acc @ xs) \<Longrightarrow> fold oset_insert xs acc = acc @ xs"
proof (induction xs arbitrary: acc)
  case (Cons x xs)
  then have "insort x acc = acc @ [x]"
    by (intro sorted_insort_is_snoc) (auto simp: sorted_append)
  then have "oset_insert x acc = acc @ [x]"
    using Cons.prems(2) by (simp add: oset_insert_def)
  with Cons.IH [of "acc @ [x]"] Cons.prems show ?case by simp
qed simp

text \<open>
  What the generated code promises: a message is read back as it was written. A map field keeps its
  entries, but not their order.
\<close>

definition same_clock :: "VectorClock \<Rightarrow> VectorClock \<Rightarrow> bool" where
  "same_clock vc vc' \<longleftrightarrow> umap_ok vc' \<and> map_of vc' = map_of vc"

definition same_version :: "KeyVersion \<Rightarrow> KeyVersion \<Rightarrow> bool" where
  "same_version dep dep' \<longleftrightarrow> kv_key dep' = kv_key dep \<and> same_clock (kv_vector_clock dep) (kv_vector_clock dep')"

definition value_codec_ok :: "'p value_codec \<Rightarrow> bool" where
  "value_codec_ok pb \<longleftrightarrow>
     (\<forall>m. parse_LWW pb (ser_LWW pb m) = m) \<and> (\<forall>m. parse_Set pb (ser_Set pb m) = m) \<and>
     (\<forall>m. parse_Priority pb (ser_Priority pb m) = m) \<and>
     (\<forall>m. umap_ok (skv_vector_clock m) \<longrightarrow>
        same_clock (skv_vector_clock m) (skv_vector_clock (parse_SKCausal pb (ser_SKCausal pb m))) \<and>
        skv_values (parse_SKCausal pb (ser_SKCausal pb m)) = skv_values m) \<and>
     (\<forall>m. umap_ok (mkv_vector_clock m) \<and> (\<forall>dep \<in> set (mkv_dependencies m). umap_ok (kv_vector_clock dep)) \<longrightarrow>
        same_clock (mkv_vector_clock m) (mkv_vector_clock (parse_MKCausal pb (ser_MKCausal pb m))) \<and>
        list_all2 same_version (mkv_dependencies m) (mkv_dependencies (parse_MKCausal pb (ser_MKCausal pb m))) \<and>
        mkv_values (parse_MKCausal pb (ser_MKCausal pb m)) = mkv_values m)"

lemma value_codec_okD:
  assumes "value_codec_ok pb"
  shows "umap_ok (skv_vector_clock m) \<Longrightarrow>
      same_clock (skv_vector_clock m) (skv_vector_clock (parse_SKCausal pb (ser_SKCausal pb m))) \<and>
      skv_values (parse_SKCausal pb (ser_SKCausal pb m)) = skv_values m"
    and "umap_ok (mkv_vector_clock m') \<Longrightarrow> (\<forall>dep \<in> set (mkv_dependencies m'). umap_ok (kv_vector_clock dep)) \<Longrightarrow>
      same_clock (mkv_vector_clock m') (mkv_vector_clock (parse_MKCausal pb (ser_MKCausal pb m'))) \<and>
      list_all2 same_version (mkv_dependencies m') (mkv_dependencies (parse_MKCausal pb (ser_MKCausal pb m'))) \<and>
      mkv_values (parse_MKCausal pb (ser_MKCausal pb m')) = mkv_values m'"
  using assms unfolding value_codec_ok_def by blast+

lemma insert_clock_id [simp]: "umap_ok vc \<Longrightarrow> insert_clock vc [] = vc"
  by (simp add: insert_clock_def insert_pairs_append)

lemma insert_versions:
  assumes "distinct (map kv_key deps)" and "\<forall>dep \<in> set deps. umap_ok (kv_vector_clock dep)"
  shows "fold (\<lambda>dep. insert_pair vc_merge (kv_key dep) (insert_clock (kv_vector_clock dep) [])) deps [] =
    map (\<lambda>dep. (kv_key dep, kv_vector_clock dep)) deps"
proof -
  have "fold (\<lambda>dep. insert_pair vc_merge (kv_key dep) (insert_clock (kv_vector_clock dep) [])) deps [] =
    fold (\<lambda>dep. insert_pair vc_merge (kv_key dep) (kv_vector_clock dep)) deps []"
    by (rule fold_cong) (use assms(2) in auto)
  also have "\<dots> = fold (\<lambda>pair. insert_pair vc_merge (fst pair) (snd pair)) (map (\<lambda>dep. (kv_key dep, kv_vector_clock dep)) deps) []"
    by (simp add: fold_map comp_def)
  also have "\<dots> = map (\<lambda>dep. (kv_key dep, kv_vector_clock dep)) deps"
    using insert_pairs_append [of "[]" "map (\<lambda>dep. (kv_key dep, kv_vector_clock dep)) deps" vc_merge] assms(1) by (simp add: comp_def)
  finally show ?thesis .
qed

lemma sk_roundtrip:
  assumes "value_codec_ok pb" and "umap_ok (vv_vector_clock sk)"
  shows "let sk' = to_vector_clock_value_pair (deserialize_causal pb (serialize_sk pb sk))
    in umap_ok (vv_vector_clock sk') \<and> map_of (vv_vector_clock sk') = map_of (vv_vector_clock sk) \<and>
       set (vv_value sk') = set (vv_value sk)"
proof -
  have "same_clock (vv_vector_clock sk) (skv_vector_clock (parse_SKCausal pb (ser_SKCausal pb (sk_message sk)))) \<and>
      skv_values (parse_SKCausal pb (ser_SKCausal pb (sk_message sk))) = vv_value sk"
    using value_codec_okD(1) [OF assms(1), of "sk_message sk"] assms(2) by (simp add: sk_message_def set_clock_append)
  then show ?thesis
    by (simp add: same_clock_def to_vector_clock_value_pair_def deserialize_causal_def serialize_sk_def Let_def
        set_insert_def [abs_def] set_fold_uset_insert)
qed

lemma map_abs_Cons: "map_abs av (p # m) = (map_abs av m)(fst p \<mapsto> av (snd p))"
  by (cases p) (auto simp: map_abs_def fun_eq_iff)

lemma same_versions_map:
  "list_all2 same_version (map (\<lambda>pair. \<lparr>kv_key = fst pair, kv_vector_clock = snd pair\<rparr>) deps) deps' \<Longrightarrow>
   map kv_key deps' = map fst deps \<and> (\<forall>dep \<in> set deps'. umap_ok (kv_vector_clock dep)) \<and>
   map_abs map_of (map (\<lambda>dep. (kv_key dep, kv_vector_clock dep)) deps') = map_abs map_of deps"
proof (induction deps arbitrary: deps')
  case (Cons pair deps)
  then obtain dep rest where d: "deps' = dep # rest" "same_version \<lparr>kv_key = fst pair, kv_vector_clock = snd pair\<rparr> dep"
    and rest: "list_all2 same_version (map (\<lambda>pair. \<lparr>kv_key = fst pair, kv_vector_clock = snd pair\<rparr>) deps) rest"
    by (auto simp: list_all2_Cons1)
  show ?case using Cons.IH [OF rest] d by (simp add: same_version_def same_clock_def map_abs_Cons)
qed (simp add: map_abs_def)

lemma mk_roundtrip:
  assumes "value_codec_ok pb" and "umap_ok (mk_vector_clock mk)" and "map_ok umap_ok (mk_dependencies mk)"
  shows "let mk' = to_multi_key_causal_payload (deserialize_multi_key_causal pb (serialize_mk pb mk))
    in map_of (mk_vector_clock mk') = map_of (mk_vector_clock mk) \<and>
       map_abs map_of (mk_dependencies mk') = map_abs map_of (mk_dependencies mk) \<and> set (mk_value mk') = set (mk_value mk)"
proof -
  let ?deps = "map (\<lambda>pair. \<lparr>kv_key = fst pair, kv_vector_clock = snd pair\<rparr>) (mk_dependencies mk)"
  let ?m = "parse_MKCausal pb (ser_MKCausal pb (mk_message mk))"
  have clocks: "umap_ok (mk_dependencies mk)" "\<forall>p \<in> set (mk_dependencies mk). umap_ok (snd p)"
    using assms(3) by (auto simp: map_ok_def)
  then have "map (\<lambda>pair. \<lparr>kv_key = fst pair, kv_vector_clock = set_clock (snd pair) []\<rparr>) (mk_dependencies mk) = ?deps"
    by (auto simp: set_clock_append)
  then have msg: "mk_message mk = \<lparr>mkv_vector_clock = mk_vector_clock mk, mkv_dependencies = ?deps, mkv_values = mk_value mk\<rparr>"
    using assms(2) by (simp add: mk_message_def set_clock_append fold_snoc)
  have "same_clock (mk_vector_clock mk) (mkv_vector_clock ?m) \<and> list_all2 same_version ?deps (mkv_dependencies ?m) \<and>
      mkv_values ?m = mk_value mk"
    using value_codec_okD(2) [OF assms(1), of "mk_message mk"] assms(2) clocks(2) by (simp add: msg)
  then show ?thesis
    using same_versions_map [of "mk_dependencies mk" "mkv_dependencies ?m"] clocks(1) insert_versions [of "mkv_dependencies ?m"]
    by (simp add: same_clock_def to_multi_key_causal_payload_def deserialize_multi_key_causal_def serialize_mk_def Let_def
        set_insert_def [abs_def] set_fold_uset_insert)
qed

text \<open>
  Property C31: a value of any of the lattices, serialized and read back, is the same value: last-writer-wins
  and priority pairs, unordered sets, ordered sets, and single- and multi-key causal values with the
  entries of their clocks and dependencies. The generated code has to read back the messages it has
  written, map fields in any order.
\<close>

theorem lattice_roundtrip:
  assumes "value_codec_ok pb" and "sorted os" and "distinct os" and "umap_ok (vv_vector_clock sk)"
    and "umap_ok (mk_vector_clock mk)" and "map_ok umap_ok (mk_dependencies mk)"
  shows "deserialize_lww pb (serialize_lww pb l) = l \<and> deserialize_priority pb (serialize_priority pb p) = p \<and>
    set (deserialize_set pb (serialize_set pb s)) = set s \<and> distinct (deserialize_set pb (serialize_set pb s)) \<and>
    deserialize_ordered_set pb (serialize_ordered_set pb os) = os \<and>
    (let sk' = to_vector_clock_value_pair (deserialize_causal pb (serialize_sk pb sk))
     in umap_ok (vv_vector_clock sk') \<and> map_of (vv_vector_clock sk') = map_of (vv_vector_clock sk) \<and>
        set (vv_value sk') = set (vv_value sk)) \<and>
    (let mk' = to_multi_key_causal_payload (deserialize_multi_key_causal pb (serialize_mk pb mk))
     in map_of (mk_vector_clock mk') = map_of (mk_vector_clock mk) \<and>
        map_abs map_of (mk_dependencies mk') = map_abs map_of (mk_dependencies mk) \<and> set (mk_value mk') = set (mk_value mk))"
proof -
  have "parse_LWW pb (ser_LWW pb m) = m" "parse_Priority pb (ser_Priority pb q) = q" "parse_Set pb (ser_Set pb v) = v" for m q v
    using assms(1) by (simp_all add: value_codec_ok_def)
  then show ?thesis
    using oset_insert_sorted [of "[]" os] assms(2,3) sk_roundtrip [OF assms(1,4)] mk_roundtrip [OF assms(1,5,6)]
    by (simp add: deserialize_lww_def serialize_lww_def deserialize_priority_def serialize_priority_def deserialize_set_def
        serialize_set_def deserialize_ordered_set_def serialize_ordered_set_def Let_def set_fold_uset_insert
        distinct_fold_uset_insert)
qed

text \<open>A codec with that property: the fields of a message one after the other.\<close>

definition put_clock :: "VectorClock \<Rightarrow> string" where
  "put_clock vc = put_items (concat (map (\<lambda>(key, n). [key, put_number n]) vc))"

fun clock_entries :: "string list \<Rightarrow> VectorClock" where
  "clock_entries (key # n # rest) = (key, get_number n) # clock_entries rest"
| "clock_entries _ = []"

definition get_clock :: "string \<Rightarrow> VectorClock" where
  "get_clock s = clock_entries (get_items [] s)"

lemma get_put_clock [simp]: "get_clock (put_clock vc) = vc"
proof -
  have "clock_entries (concat (map (\<lambda>(key, n). [key, put_number n]) vc)) = vc" by (induction vc) auto
  then show ?thesis by (simp add: get_clock_def put_clock_def)
qed

definition item_value_codec :: "nat value_codec" where
  "item_value_codec = (let it = (\<lambda>i s. get_items [] s ! i)
     in \<lparr>ser_LWW = (\<lambda>m. put_items [put_number (lv_timestamp m), lv_value m]),
         parse_LWW = (\<lambda>s. \<lparr>lv_timestamp = get_number (it 0 s), lv_value = it 1 s\<rparr>),
         ser_Set = (\<lambda>m. put_items (sv_values m)), parse_Set = (\<lambda>s. \<lparr>sv_values = get_items [] s\<rparr>),
         ser_SKCausal = (\<lambda>m. put_items (put_clock (skv_vector_clock m) # skv_values m)),
         parse_SKCausal = (\<lambda>s. \<lparr>skv_vector_clock = get_clock (it 0 s), skv_values = tl (get_items [] s)\<rparr>),
         ser_MKCausal = (\<lambda>m. put_items (put_clock (mkv_vector_clock m) #
           put_items (map (\<lambda>dep. put_items [kv_key dep, put_clock (kv_vector_clock dep)]) (mkv_dependencies m)) # mkv_values m)),
         parse_MKCausal = (\<lambda>s. \<lparr>mkv_vector_clock = get_clock (it 0 s),
           mkv_dependencies = map (\<lambda>d. \<lparr>kv_key = it 0 d, kv_vector_clock = get_clock (it 1 d)\<rparr>) (get_items [] (it 1 s)),
           mkv_values = tl (tl (get_items [] s))\<rparr>),
         ser_Priority = (\<lambda>m. put_items [to_string (prv_priority m), prv_value m]),
         parse_Priority = (\<lambda>s. \<lparr>prv_priority = digits_val (it 0 s), prv_value = it 1 s\<rparr>)\<rparr>)"

lemma item_value_codec_ok: "value_codec_ok item_value_codec"
proof -
  have deps: "list_all2 same_version deps (map ((\<lambda>d. \<lparr>kv_key = get_items [] d ! 0, kv_vector_clock = get_clock (get_items [] d ! 1)\<rparr>) \<circ>
      (\<lambda>dep. put_items [kv_key dep, put_clock (kv_vector_clock dep)])) deps)"
    if "\<forall>dep \<in> set deps. umap_ok (kv_vector_clock dep)" for deps
    using that by (induction deps) (auto simp: same_version_def same_clock_def)
  show ?thesis
    using deps by (auto simp: value_codec_ok_def item_value_codec_def same_clock_def Let_def digits_val_to_string)
qed

definition ex_sk :: "string VectorClockValuePair" where
  "ex_sk = \<lparr>vv_vector_clock = [(''a'', 1)], vv_value = [''v'']\<rparr>"

definition ex_mk :: "string MultiKeyCausalPayload" where
  "ex_mk = \<lparr>mk_vector_clock = [(''a'', 1)], mk_dependencies = [(''k'', [(''b'', 2)])],
            mk_value = [''v'']\<rparr>"

theorem lattice_roundtrip_witness:
  "deserialize_lww item_value_codec (serialize_lww item_value_codec \<lparr>tv_timestamp = 7, tv_value = ''v''\<rparr>) =
     \<lparr>tv_timestamp = 7, tv_value = ''v''\<rparr> \<and>
   deserialize_ordered_set item_value_codec (serialize_ordered_set item_value_codec [''x'', ''y'']) = [''x'', ''y''] \<and>
   set (vv_value (to_vector_clock_value_pair (deserialize_causal item_value_codec (serialize_sk item_value_codec ex_sk)))) = {''v''} \<and>
   map_of (mk_vector_clock (to_multi_key_causal_payload
     (deserialize_multi_key_causal item_value_codec (serialize_mk item_value_codec ex_mk)))) ''a'' = Some 1"
  using lattice_roundtrip [OF item_value_codec_ok, of "[''x'', ''y'']" ex_sk ex_mk "\<lparr>tv_timestamp = 7, tv_value = ''v''\<rparr>"]
  by (simp add: ex_sk_def ex_mk_def map_ok_def less_list_code less_eq_list_code less_eq_char_def Let_def)

end
