(* ===== verification/Ph_Shm.thy ===== *)
theory Ph_Shm
  imports Ph_Strings
begin

text \<open>
  Shared-memory objects: \<^verbatim>\<open>common/shm-ipc/src/libipc/platform/shm_linux.cpp\<close>, and the two functions of
  \<^verbatim>\<open>src/scheduler/object_handlers.cpp\<close> that copy an object into shared memory and find it there. The
  store maps the name of a POSIX object to its bytes. The last eight bytes of an object are a counter
  of its mappings, least significant byte first. An object is looked up by its name: in the sources
  \<^verbatim>\<open>get_mem\<close> follows \<^verbatim>\<open>acquire\<close> at once. Failures of the system calls other than a missing or
  existing object are not modelled.
\<close>

type_synonym shm_store = "string \<rightharpoonup> string"

datatype shm_mode = Shm_Create | Shm_Open | Shm_Create_Open

record ShmId =
  si_name :: string
  si_size :: nat
  si_mapped :: bool

section \<open>Bytes\<close>

fun le_val :: "string \<Rightarrow> nat" where
  "le_val [] = 0"
| "le_val (c # cs) = of_char c + 256 * le_val cs"

fun le_bytes :: "nat \<Rightarrow> nat \<Rightarrow> string" where
  "le_bytes 0 v = []"
| "le_bytes (Suc n) v = char_of (v mod 256) # le_bytes n (v div 256)"

text \<open>\<^verbatim>\<open>ftruncate\<close>: cut off, or filled up with zeros.\<close>

definition ftruncate :: "nat \<Rightarrow> string \<Rightarrow> string" where
  "ftruncate n bytes = take n bytes @ replicate (n - length bytes) (CHR 0x00)"

text \<open>The size of an object with its counter; only called with a positive size.\<close>

definition calc_size :: "nat \<Rightarrow> nat" where
  "calc_size sz = ((sz - 1) div 8 + 1) * 8 + 8"

text \<open>The counter of a mapping of \<open>size\<close> bytes, and the object with a new counter.\<close>

definition acc_of :: "nat \<Rightarrow> string \<Rightarrow> nat" where
  "acc_of sz bytes = le_val (take 8 (drop (sz - 8) bytes))"

definition set_acc :: "nat \<Rightarrow> nat \<Rightarrow> string \<Rightarrow> string" where
  "set_acc sz v bytes = take (sz - 8) bytes @ le_bytes 8 (v mod 2 ^ 64) @ drop sz bytes"

section \<open>Operations\<close>

definition shm_name :: "string \<Rightarrow> string" where
  "shm_name name = ''__IPC_SHM__'' @ c_str name"

definition acquire :: "string \<Rightarrow> nat \<Rightarrow> shm_mode \<Rightarrow> shm_store \<Rightarrow> ShmId option \<times> shm_store" where
  "acquire name sz mode store =
     (let op_name = shm_name name;
          found = store op_name \<noteq> None;
          new_id = (\<lambda>n. Some \<lparr>si_name = op_name, si_size = n, si_mapped = False\<rparr>)
      in if c_str name = [] then (None, store)
         else case mode of
           Shm_Open \<Rightarrow> if found then (new_id 0, store) else (None, store)
         | Shm_Create \<Rightarrow> if found then (None, store) else (new_id sz, store(op_name \<mapsto> []))
         | Shm_Create_Open \<Rightarrow> (new_id sz, map_touch [] store op_name))"

definition get_mem :: "ShmId option \<Rightarrow> shm_store \<Rightarrow> ShmId option \<times> shm_store" where
  "get_mem i store =
     (case i of
        None \<Rightarrow> (None, store)
      | Some ii \<Rightarrow>
          if si_mapped ii then (Some ii, store)
          else case store (si_name ii) of
            None \<Rightarrow> (None, store)
          | Some bytes \<Rightarrow>
              if si_size ii = 0 \<and> (length bytes \<le> 8 \<or> length bytes mod 8 \<noteq> 0) then (None, store)
              else (let sz = (if si_size ii = 0 then length bytes else calc_size (si_size ii));
                        mem = (if si_size ii = 0 then bytes else ftruncate sz bytes)
                    in (Some (ii\<lparr>si_size := sz, si_mapped := True\<rparr>),
                        store(si_name ii \<mapsto> set_acc sz (acc_of sz mem + 1) mem))))"

definition release :: "ShmId option \<Rightarrow> shm_store \<Rightarrow> shm_store" where
  "release i store =
     (case i of
        None \<Rightarrow> store
      | Some ii \<Rightarrow>
          if \<not> si_mapped ii \<or> si_size ii = 0 then store
          else case store (si_name ii) of
            None \<Rightarrow> store
          | Some bytes \<Rightarrow>
              (let acc = acc_of (si_size ii) bytes
               in if acc = 1 then map_erase store (si_name ii)
                  else store(si_name ii \<mapsto> set_acc (si_size ii) (acc + 2 ^ 64 - 1) bytes)))"

definition shm_remove_id :: "ShmId option \<Rightarrow> shm_store \<Rightarrow> shm_store" where
  "shm_remove_id i store =
     (case i of None \<Rightarrow> store | Some ii \<Rightarrow> map_erase (release i store) (si_name ii))"

definition shm_remove :: "string \<Rightarrow> shm_store \<Rightarrow> shm_store" where
  "shm_remove name store = (if c_str name = [] then store else map_erase store (shm_name name))"

text \<open>\<^verbatim>\<open>memcpy\<close> to and from the memory of a mapping.\<close>

definition shm_write :: "ShmId option \<Rightarrow> string \<Rightarrow> shm_store \<Rightarrow> shm_store res" where
  "shm_write i data store =
     (if data = [] then Ok store
      else case i of
        None \<Rightarrow> Fault Null_Pointer
      | Some ii \<Rightarrow>
          (case store (si_name ii) of
             None \<Rightarrow> Fault Null_Pointer
           | Some bytes \<Rightarrow>
               if length data \<le> length bytes
               then Ok (store(si_name ii \<mapsto> data @ drop (length data) bytes))
               else Fault Out_Of_Range))"

definition shm_read :: "ShmId option \<Rightarrow> nat \<Rightarrow> shm_store \<Rightarrow> string res" where
  "shm_read i n store =
     (if n = 0 then Ok []
      else case i of
        None \<Rightarrow> Fault Null_Pointer
      | Some ii \<Rightarrow>
          (case store (si_name ii) of
             None \<Rightarrow> Fault Null_Pointer
           | Some bytes \<Rightarrow> if n \<le> length bytes then Ok (take n bytes) else Fault Out_Of_Range))"

section \<open>Objects\<close>

definition copy_to_shm_obj :: "string \<Rightarrow> string \<Rightarrow> shm_store \<Rightarrow> shm_store res" where
  "copy_to_shm_obj key_name data store =
     (case acquire key_name (length data) Shm_Create_Open store of
        (shm_id, store1) \<Rightarrow>
          (case get_mem shm_id store1 of (shm_ptr, store2) \<Rightarrow> shm_write shm_ptr data store2))"

definition open_shm_obj :: "string \<Rightarrow> nat \<Rightarrow> shm_store \<Rightarrow> ShmId option \<times> shm_store" where
  "open_shm_obj key_name sz store =
     (case acquire key_name sz Shm_Open store of (shm_id, store1) \<Rightarrow> get_mem shm_id store1)"

text \<open>The object, if the map of lengths has it, and its length.\<close>

definition get_shm_obj ::
  "(string \<rightharpoonup> uint32) \<Rightarrow> string \<Rightarrow> shm_store \<Rightarrow> (ShmId option \<times> uint32) \<times> shm_store" where
  "get_shm_obj key_len_map key_name store =
     (case key_len_map key_name of
        None \<Rightarrow> ((None, 0), store)
      | Some size_of_obj \<Rightarrow>
          (case open_shm_obj key_name (unat size_of_obj) store of (shm_ptr, store') \<Rightarrow>
             ((shm_ptr, size_of_obj), store')))"

text \<open>\<^verbatim>\<open>string(shm_ptr, size)\<close> after opening an object.\<close>

definition read_shm_obj :: "string \<Rightarrow> nat \<Rightarrow> shm_store \<Rightarrow> (string \<times> shm_store) res" where
  "read_shm_obj key_name sz store =
     (case open_shm_obj key_name sz store of
        (shm_ptr, store') \<Rightarrow> res_bind (shm_read shm_ptr sz store') (\<lambda>data. Ok (data, store')))"

section \<open>The contract of an object store\<close>

text \<open>
  What the schedulers and executors of a node rely on: an object that has been copied into the store
  is read back, as often as needed, until it is overwritten.
\<close>

locale object_store =
  fixes put :: "'k \<Rightarrow> 'v list \<Rightarrow> 's \<Rightarrow> 's res"
    and get :: "'k \<Rightarrow> nat \<Rightarrow> 's \<Rightarrow> ('v list \<times> 's) res"
    and valid :: "'k \<Rightarrow> bool"
    and same :: "'k \<Rightarrow> 'k \<Rightarrow> bool"
    and holds :: "'s \<Rightarrow> 'k \<Rightarrow> 'v list \<Rightarrow> bool"
  assumes put_holds: "valid k \<Longrightarrow> v \<noteq> [] \<Longrightarrow> \<exists>s'. put k v s = Ok s' \<and> holds s' k v"
    and get_holds: "holds s k v \<Longrightarrow> \<exists>s'. get k (length v) s = Ok (v, s')"
    and get_keeps: "holds s k v \<Longrightarrow> get k' n s = Ok (x, s') \<Longrightarrow> holds s' k v"
    and put_keeps: "holds s k v \<Longrightarrow> put k' w s = Ok s' \<Longrightarrow> \<not> same k k' \<Longrightarrow> holds s' k v"
begin

lemma read_back:
  assumes "valid k" and "v \<noteq> []"
  shows "\<exists>s1 s2. put k v s = Ok s1 \<and> get k (length v) s1 = Ok (v, s2) \<and> holds s2 k v"
  using put_holds [OF assms, of s] get_holds get_keeps by metis

lemma puts_hold:
  assumes "list_all (\<lambda>(k, v). valid k \<and> v \<noteq> []) kvs" and "\<forall>(k', v') \<in> set kvs. \<not> same k k'"
    and "holds s k v"
  shows "\<exists>s'. res_fold (\<lambda>(k, v). put k v) kvs s = Ok s' \<and> holds s' k v"
  using assms
proof (induction kvs arbitrary: s)
  case (Cons kv kvs)
  obtain k' v' where kv: "kv = (k', v')" by fastforce
  have "valid k'" "v' \<noteq> []" using Cons.prems(1) kv by simp_all
  then obtain s1 where s1: "put k' v' s = Ok s1" using put_holds [of k' v' s] by blast
  have "\<not> same k k'" using Cons.prems(2) kv by simp
  then have "holds s1 k v" by (rule put_keeps [OF Cons.prems(3) s1])
  from Cons.IH [OF _ _ this] Cons.prems(1,2) show ?case by (simp add: kv s1)
qed simp

end

section \<open>Shared memory is an object store\<close>

lemma length_le_bytes [simp]: "length (le_bytes n v) = n"
  by (induction n arbitrary: v) auto

lemma length_ftruncate [simp]: "length (ftruncate n bytes) = n"
  by (simp add: ftruncate_def)

lemma calc_size_bounds: "0 < n \<Longrightarrow> n + 8 \<le> calc_size n" "8 < calc_size n" "calc_size n mod 8 = 0"
  unfolding calc_size_def by (presburger, simp, simp)

lemma length_set_acc [simp]: "8 \<le> sz \<Longrightarrow> sz \<le> length bytes \<Longrightarrow> length (set_acc sz v bytes) = length bytes"
  by (simp add: set_acc_def)

lemma take_set_acc: "n + 8 \<le> sz \<Longrightarrow> sz \<le> length bytes \<Longrightarrow> take n (set_acc sz v bytes) = take n bytes"
  by (simp add: set_acc_def min_absorb1)

definition shm_valid :: "string \<Rightarrow> bool" where
  "shm_valid k \<longleftrightarrow> c_str k \<noteq> []"

definition shm_same :: "string \<Rightarrow> string \<Rightarrow> bool" where
  "shm_same k k' \<longleftrightarrow> c_str k = c_str k'"

definition object_bytes :: "string \<Rightarrow> string \<Rightarrow> bool" where
  "object_bytes v bytes \<longleftrightarrow> length v + 8 \<le> length bytes \<and> length bytes mod 8 = 0 \<and> take (length v) bytes = v"

definition shm_holds :: "shm_store \<Rightarrow> string \<Rightarrow> string \<Rightarrow> bool" where
  "shm_holds s k v \<longleftrightarrow> shm_valid k \<and> v \<noteq> [] \<and> (\<exists>bytes. s (shm_name k) = Some bytes \<and> object_bytes v bytes)"

lemma shm_name_inject: "shm_name k = shm_name k' \<longleftrightarrow> shm_same k k'"
  by (simp add: shm_name_def shm_same_def)

lemma open_shm_obj_cases:
  "open_shm_obj k n s = (None, s) \<or>
   (\<exists>bytes. s (shm_name k) = Some bytes \<and> 8 < length bytes \<and> open_shm_obj k n s =
      (Some \<lparr>si_name = shm_name k, si_size = length bytes, si_mapped = True\<rparr>,
       s(shm_name k \<mapsto> set_acc (length bytes) (acc_of (length bytes) bytes + 1) bytes)))"
  by (cases "s (shm_name k)") (auto simp: open_shm_obj_def acquire_def get_mem_def Let_def)

lemma open_shm_obj_found:
  assumes "shm_valid k" and "s (shm_name k) = Some bytes" and "8 < length bytes" and "length bytes mod 8 = 0"
  shows "open_shm_obj k n s =
      (Some \<lparr>si_name = shm_name k, si_size = length bytes, si_mapped = True\<rparr>,
       s(shm_name k \<mapsto> set_acc (length bytes) (acc_of (length bytes) bytes + 1) bytes))"
  using assms by (simp add: open_shm_obj_def acquire_def get_mem_def shm_valid_def Let_def)

lemma object_bytes_set_acc: "object_bytes v bytes \<Longrightarrow> object_bytes v (set_acc (length bytes) a bytes)"
  by (simp add: object_bytes_def take_set_acc)

lemma open_keeps:
  assumes "shm_holds s k v" and "open_shm_obj k' n s = (p, s')"
  shows "shm_holds s' k v"
  using assms open_shm_obj_cases [of k' n s]
  by (cases "shm_name k' = shm_name k") (auto simp: shm_holds_def object_bytes_set_acc)

lemma copy_to_shm_obj_eq:
  assumes "shm_valid k" and "v \<noteq> []"
  shows "\<exists>bytes. copy_to_shm_obj k v s = Ok (s(shm_name k \<mapsto> bytes)) \<and> object_bytes v bytes"
proof -
  let ?old = "map_at [] s (shm_name k)" and ?n = "calc_size (length v)"
  let ?mem = "set_acc ?n (acc_of ?n (ftruncate ?n ?old) + 1) (ftruncate ?n ?old)"
  have n: "length v + 8 \<le> ?n" "8 < ?n" "?n mod 8 = 0" using calc_size_bounds [of "length v"] assms(2) by auto
  have len: "length ?mem = ?n" using n by simp
  have "copy_to_shm_obj k v s = Ok (s(shm_name k \<mapsto> v @ drop (length v) ?mem))"
    using assms n len
    by (simp add: copy_to_shm_obj_def acquire_def get_mem_def shm_write_def shm_valid_def Let_def
        map_touch_apply map_upd_triv fun_upd_def [of "map_touch _ _ _"] cong: if_cong)
      (auto simp: map_touch_def fun_eq_iff split: option.splits)
  moreover have "object_bytes v (v @ drop (length v) ?mem)"
    using n len by (simp add: object_bytes_def)
  ultimately show ?thesis by blast
qed

interpretation shm: object_store copy_to_shm_obj read_shm_obj shm_valid shm_same shm_holds
proof
  fix k v :: string and s
  assume kv: "shm_valid k" "v \<noteq> []"
  from copy_to_shm_obj_eq [OF kv, of s] kv
  show "\<exists>s'. copy_to_shm_obj k v s = Ok s' \<and> shm_holds s' k v" by (auto simp: shm_holds_def)
next
  fix s :: shm_store and k v :: string
  assume h: "shm_holds s k v"
  then obtain bytes where b: "shm_valid k" "s (shm_name k) = Some bytes" "object_bytes v bytes" "v \<noteq> []"
    by (auto simp: shm_holds_def)
  then have len: "length v + 8 \<le> length bytes" "length bytes mod 8 = 0" "8 < length bytes"
    by (auto simp: object_bytes_def intro: less_le_trans [of 8 "length v + 8"])
  from open_shm_obj_found [of k s bytes "length v"] b len
  show "\<exists>s'. read_shm_obj k (length v) s = Ok (v, s')"
    by (simp add: read_shm_obj_def shm_read_def take_set_acc object_bytes_def)
next
  fix s k v k' n x s'
  assume "shm_holds s k v" "read_shm_obj k' n s = Ok (x, s')"
  then show "shm_holds s' k v"
    using open_keeps by (auto simp: read_shm_obj_def split: prod.splits)
next
  fix s k v k' w s'
  assume h: "shm_holds s k v" and p: "copy_to_shm_obj k' w s = Ok s'" and ne: "\<not> shm_same k k'"
  show "shm_holds s' k v"
  proof -
    have "s' (shm_name k) = s (shm_name k)"
      using p ne
      by (auto simp: copy_to_shm_obj_def acquire_def get_mem_def shm_write_def Let_def map_touch_apply shm_same_def
          shm_name_def split: if_splits option.splits)
    with h show ?thesis by (simp add: shm_holds_def)
  qed
qed

end
