(* ===== verification/Ph_Comm_Helper.thy ===== *)
theory Ph_Comm_Helper
  imports Ph_Protocol Ph_Kvs_Client Ph_Lattice_Codec Ph_Shm
begin

text \<open>
  The communication helper of a scheduler, \<^verbatim>\<open>include/scheduler/comm_helper.hpp\<close>: what it sends to
  coordinators, to other schedulers and to the key-value store, and what it does with their messages.
  The socket cache and the logger have no part in the state. The clock is read once per operation.
  The object with its members is the record \<open>CommHelper\<close>, together with the global vectors of
  key-value clients and queues. The threads of the helper run one after the other: a step of an
  input/output thread is one turn of its loop.
\<close>

section \<open>Data\<close>

datatype RecvMsgType = Null | Call | DataResp | KvsGetResp | KvsPutResp

record RecvMsg =
  rm_msg_type :: RecvMsgType
  rm_app_name :: string
  rm_resp_address :: string
  rm_func_name :: "string list"
  rm_func_args :: "string list list"
  rm_is_func_arg_keys :: "int list"
  rm_session_id :: string
  rm_sync_data_status :: bool
  rm_data_key :: string
  rm_data_size :: uint32

text \<open>A message before its handler has filled in the members that its type needs.\<close>

definition empty_recv :: RecvMsg where
  "empty_recv = \<lparr>rm_msg_type = Null, rm_app_name = [], rm_resp_address = [], rm_func_name = [], rm_func_args = [],
                 rm_is_func_arg_keys = [], rm_session_id = [], rm_sync_data_status = False, rm_data_key = [],
                 rm_data_size = 0\<rparr>"

record AppInfo =
  ai_functions :: "string list"
  ai_direct_deps :: "string \<rightharpoonup> string list"
  ai_buckets :: "Bucket list"

definition new_AppInfo :: AppInfo where
  "new_AppInfo = \<lparr>ai_functions = [], ai_direct_deps = Map.empty, ai_buckets = []\<rparr>"

record RerunTriggerTimeout =
  rt_trigger_ptr :: nat
  rt_timeout :: uint32

text \<open>What a \<^verbatim>\<open>char*\<close> points to: a buffer on the heap, or a mapped shared-memory object.\<close>

datatype data_ptr = Heap string | Shm "ShmId option"

datatype SecondaryThreadMsg =
    SendReq string
  | GetKvs string
  | PutKvs string data_ptr uint32

text \<open>
  The maps of the scheduler that the helper fills. Triggers are shared between the maps, so they are
  cells of a store and the maps hold their indices.
\<close>

record SchedRegistry =
  rg_triggers :: "Trigger list"
  rg_bucket_triggers :: "Bucket \<rightharpoonup> nat list"
  rg_app_info :: "string \<rightharpoonup> AppInfo"
  rg_func_app :: "string \<rightharpoonup> string"
  rg_bucket_app :: "string \<rightharpoonup> string"
  rg_func_trigger_timeout :: "string \<rightharpoonup> RerunTriggerTimeout list"

record CommHelper =
  ch_routing_threads :: "NodeThread list"
  ch_ip :: string
  ch_ut :: NodeThread
  ch_io_thread_count :: uint32
  ch_io_thread_id :: uint32
  ch_rid :: uint32
  ch_key_address_cache :: "string \<rightharpoonup> Address"
  ch_app_coord_map :: "string \<rightharpoonup> NodeThread"
  ch_bucket_coord_map :: "Bucket \<rightharpoonup> NodeThread"
  ch_kvs_clients :: "KvsClient list"
  ch_secondary_queues :: "SecondaryThreadMsg list list"
  ch_resp_queues :: "RecvMsg list list"

definition new_CommHelper :: "NodeThread list \<Rightarrow> string \<Rightarrow> uint32 \<Rightarrow> KvsClient list \<Rightarrow> CommHelper" where
  "new_CommHelper routing_threads ip io_thread_count kvs_clients =
     \<lparr>ch_routing_threads = routing_threads, ch_ip = ip, ch_ut = new_thread ip 0,
      ch_io_thread_count = io_thread_count, ch_io_thread_id = 0, ch_rid = 0,
      ch_key_address_cache = Map.empty, ch_app_coord_map = Map.empty, ch_bucket_coord_map = Map.empty,
      ch_kvs_clients = kvs_clients, ch_secondary_queues = replicate (unat io_thread_count - 1) [],
      ch_resp_queues = replicate (unat io_thread_count - 1) []\<rparr>"

text \<open>What leaves the node: a message, raw data, or a message of one of the key-value clients.\<close>

datatype net_send =
    Net send
  | Data_Net Address string
  | Kvs_Net kvs_send

text \<open>What an operation takes from its surroundings.\<close>

record helper_env =
  he_rand :: rand_fun
  he_codec :: prim_codec
  he_values :: "nat value_codec"
  he_now :: time
  he_cur_stamp :: time

section \<open>Addresses\<close>

definition get_io_thread_id :: "bool \<Rightarrow> CommHelper \<Rightarrow> (uint32 \<times> CommHelper) res" where
  "get_io_thread_id exclude_main_thread ch =
     (if ch_io_thread_count ch = 0 then Fault Division_By_Zero
      else (let i = ch_io_thread_id ch + 1;
                i' = (if i mod ch_io_thread_count ch = 0 then if exclude_main_thread then 1 else 0 else i)
            in Ok (i', ch\<lparr>ch_io_thread_id := i'\<rparr>)))"

definition get_data_server_addr :: "bool \<Rightarrow> CommHelper \<Rightarrow> (Address \<times> CommHelper) res" where
  "get_data_server_addr exclude_main_thread ch =
     res_bind (get_io_thread_id exclude_main_thread ch) (\<lambda>(thread_id, ch').
     Ok (''tcp://'' @ ch_ip ch @ '':'' @ to_string (unat (thread_id + kvs_port dataAccessServerPort)), ch'))"

definition get_key_address :: "string \<Rightarrow> CommHelper \<Rightarrow> Address" where
  "get_key_address key ch = map_at [] (ch_key_address_cache ch) key"

definition get_querying_thread :: "Bucket \<Rightarrow> CommHelper \<Rightarrow> Address" where
  "get_querying_thread bucket ch =
     (case ch_bucket_coord_map ch bucket of None \<Rightarrow> [] | Some th \<Rightarrow> key_query_handler_connect_address th)"

definition get_notifying_thread :: "Bucket \<Rightarrow> CommHelper \<Rightarrow> Address" where
  "get_notifying_thread bucket ch =
     (case ch_bucket_coord_map ch bucket of None \<Rightarrow> [] | Some th \<Rightarrow> notify_handler_connect_address th)"

definition helper_request_id :: "CommHelper \<Rightarrow> string \<times> CommHelper" where
  "helper_request_id ch =
     (case next_request_id (ch_ut ch) (ch_rid ch) of (i, rid) \<Rightarrow> (i, ch\<lparr>ch_rid := rid\<rparr>))"

definition clear_address_cache :: "CommHelper \<Rightarrow> CommHelper" where
  "clear_address_cache ch = ch\<lparr>ch_key_address_cache := Map.empty\<rparr>"

section \<open>Messages to clients and coordinators\<close>

definition client_response :: "string \<Rightarrow> string \<Rightarrow> string \<Rightarrow> net_send" where
  "client_response resp_address app_name output_data =
     Net (Send resp_address (Call_Response_Msg
       (empty_call_response\<lparr>fcr_app_name := app_name, fcr_error_no := 0, fcr_output := output_data\<rparr>)))"

definition helper_update_status :: "int \<Rightarrow> string list \<Rightarrow> CommHelper \<Rightarrow> net_send list" where
  "helper_update_status avail_executors function_cache ch =
     (let msg = \<lparr>us_ip = ch_ip ch, us_avail_executors = word_of_int avail_executors,
                 us_functions = function_cache\<rparr>
      in map (\<lambda>ht. Net (Send (update_handler_connect_address ht) (Status_Msg msg))) (ch_routing_threads ch))"

definition notify_put ::
  "BucketKey \<Rightarrow> string list \<Rightarrow> string \<Rightarrow> string \<Rightarrow> CommHelper \<Rightarrow> (net_send list \<times> CommHelper) res" where
  "notify_put bucket_key active_triggers resp_address payload ch =
     (let notif_thread = get_notifying_thread (bk_bucket bucket_key) ch
      in if notif_thread = [] then Ok ([], ch)
         else (case helper_request_id ch of
                 (req_id, ch1) \<Rightarrow>
                   res_bind (get_data_server_addr True ch1) (\<lambda>(ip, ch2).
                   let addr = get_addr_from_bucket_key bucket_key empty_addr
                   in Ok ([Net (Send notif_thread (Notify_Msg
                             \<lparr>kn_response_address = resp_address,
                              kn_addresses = [addr\<lparr>bka_ips := bka_ips addr @ [ip], bka_payload := payload\<rparr>],
                              kn_active_trigger_names = active_triggers,
                              kn_request_id = req_id\<rparr>))], ch2))))"

definition key_query_async :: "BucketKey \<Rightarrow> CommHelper \<Rightarrow> net_send list \<times> CommHelper" where
  "key_query_async bucket_key ch =
     (case helper_request_id ch of
        (req_id, ch') \<Rightarrow>
          ([Net (Send (get_querying_thread (bk_bucket bucket_key) ch)
              (Query_Msg \<lparr>kq_response_address = key_query_connect_address (ch_ut ch),
                          kq_addresses = [get_addr_from_bucket_key bucket_key empty_addr],
                          kq_request_id = req_id\<rparr>))], ch'))"

text \<open>The arguments of a forwarded call: names of objects and where they are, or plain values.\<close>

fun key_arguments :: "int \<Rightarrow> string list \<Rightarrow> CommHelper \<Rightarrow> (Argument list \<times> CommHelper) res" where
  "key_arguments arg_flag [] ch = Ok ([], ch)"
| "key_arguments arg_flag [bucket] ch = Fault Out_Of_Range"
| "key_arguments arg_flag (bucket # key # rest) ch =
     (let key_name = bucket @ kDelimiter @ key
      in res_bind (get_data_server_addr False ch) (\<lambda>(address, ch1).
         res_bind (key_arguments arg_flag (drop 1 rest) ch1) (\<lambda>(args, ch2).
         Ok (\<lparr>ar_body = key_name, ar_arg_flag = word_of_int arg_flag, ar_data_address = address\<rparr> # args, ch2))))"

definition forward_arguments :: "int \<Rightarrow> string list \<Rightarrow> CommHelper \<Rightarrow> (Argument list \<times> CommHelper) res" where
  "forward_arguments arg_flag func_args ch =
     (if 0 < arg_flag then key_arguments arg_flag func_args ch
      else Ok (map (\<lambda>func_arg. empty_argument\<lparr>ar_body := func_arg, ar_arg_flag := word_of_int arg_flag\<rparr>) func_args, ch))"

fun forward_requests ::
  "int \<Rightarrow> string list \<Rightarrow> string list list \<Rightarrow> CommHelper \<Rightarrow> (FunctionRequest list \<times> CommHelper) res" where
  "forward_requests arg_flag [] func_args_vec ch = Ok ([], ch)"
| "forward_requests arg_flag (func_name # names) func_args_vec ch =
     res_bind (nth_res func_args_vec 0) (\<lambda>func_args.
     res_bind (forward_arguments arg_flag func_args ch) (\<lambda>(args, ch1).
     res_bind (forward_requests arg_flag names (drop 1 func_args_vec) ch1) (\<lambda>(reqs, ch2).
     Ok (\<lparr>fr_name = func_name, fr_arguments = args\<rparr> # reqs, ch2))))"

text \<open>An application without a known coordinator has a default \<^verbatim>\<open>HandlerThread\<close>, whose id is not set.\<close>

definition forward_func_call ::
  "string \<Rightarrow> string \<Rightarrow> string list \<Rightarrow> string list list \<Rightarrow> int \<Rightarrow> string \<Rightarrow> CommHelper \<Rightarrow> (net_send list \<times> CommHelper) res" where
  "forward_func_call resp_address app_name func_name_vec func_args_vec arg_flag session_id ch =
     res_bind (forward_requests arg_flag func_name_vec func_args_vec ch) (\<lambda>(reqs, ch').
     case ch_app_coord_map ch' app_name of
       None \<Rightarrow> Fault Uninitialized
     | Some th \<Rightarrow>
         Ok ([Net (Send (forward_func_connect_address th) (Call_Msg
                (empty_call\<lparr>fc_app_name := app_name, fc_resp_address := resp_address, fc_source := ch_ip ch,
                   fc_session_id := session_id, fc_sync_data_status := True, fc_requests := reqs\<rparr>)))], ch'))"

section \<open>Messages from coordinators\<close>

definition add_function :: "string \<Rightarrow> string \<Rightarrow> SchedRegistry \<Rightarrow> SchedRegistry" where
  "add_function app_name func rg =
     (let info = map_at new_AppInfo (rg_app_info rg) app_name
      in rg\<lparr>rg_app_info := (rg_app_info rg)(app_name \<mapsto> info\<lparr>ai_functions := uset_insert func (ai_functions info)\<rparr>),
             rg_func_app := (rg_func_app rg)(func \<mapsto> app_name)\<rparr>)"

definition add_direct_dep :: "string \<Rightarrow> string \<Rightarrow> string \<Rightarrow> SchedRegistry \<Rightarrow> SchedRegistry" where
  "add_direct_dep app_name src_func tgt_func rg =
     (let info = map_at new_AppInfo (rg_app_info rg) app_name;
          deps = ai_direct_deps info
      in rg\<lparr>rg_app_info := (rg_app_info rg)(app_name \<mapsto> info\<lparr>ai_direct_deps :=
             deps(src_func \<mapsto> uset_insert tgt_func (map_at [] deps src_func))\<rparr>)\<rparr>)"

definition add_dependency :: "string \<Rightarrow> DataDependency \<Rightarrow> SchedRegistry \<Rightarrow> SchedRegistry res" where
  "add_dependency app_name dep rg =
     (if dd_type dep \<noteq> DIRECT then Ok rg
      else res_bind (nth_res (dd_src_functions dep) 0) (\<lambda>src_func.
           Ok (fold (add_direct_dep app_name src_func) (dd_tgt_functions dep) rg)))"

definition add_hint :: "nat \<Rightarrow> RerunHint \<Rightarrow> SchedRegistry \<Rightarrow> SchedRegistry" where
  "add_hint ptr hint rg =
     (let m = rg_func_trigger_timeout rg; f = rh_source_function hint
      in rg\<lparr>rg_func_trigger_timeout :=
              m(f \<mapsto> map_at [] m f @ [\<lparr>rt_trigger_ptr = ptr, rt_timeout = rh_timeout hint\<rparr>])\<rparr>)"

definition install_trigger :: "TriggerEntity \<Rightarrow> Trigger \<Rightarrow> SchedRegistry \<Rightarrow> SchedRegistry" where
  "install_trigger entity trigger rg =
     (let ptr = length (rg_triggers rg);
          bucket = te_bucket_name entity;
          metas = map (\<lambda>h. \<lparr>rr_source_func = rh_source_function h, rr_source_key = rh_source_key h,
                            rr_timeout = rh_timeout h\<rparr>) (te_hints entity);
          trigger' = set_rerun_metadata metas
                       (set_trigger_option (sint (te_trigger_option entity)) trigger)
      in fold (add_hint ptr) (te_hints entity)
           (rg\<lparr>rg_triggers := rg_triggers rg @ [trigger'],
               rg_bucket_triggers := (rg_bucket_triggers rg)(bucket \<mapsto>
                 map_at [] (rg_bucket_triggers rg) bucket @ [ptr])\<rparr>))"

definition add_entity ::
  "helper_env \<Rightarrow> string \<Rightarrow> NodeThread \<Rightarrow> TriggerEntity \<Rightarrow> SchedRegistry \<times> CommHelper \<Rightarrow> SchedRegistry \<times> CommHelper" where
  "add_entity env app_name coord_thread entity acc =
     (case acc of
        (rg, ch) \<Rightarrow>
          (let bucket = te_bucket_name entity;
               info = map_at new_AppInfo (rg_app_info rg) app_name;
               ch' = ch\<lparr>ch_bucket_coord_map := (ch_bucket_coord_map ch)(bucket \<mapsto> coord_thread)\<rparr>;
               rg' = rg\<lparr>rg_app_info := (rg_app_info rg)(app_name \<mapsto> info\<lparr>ai_buckets := ai_buckets info @ [bucket]\<rparr>),
                        rg_bucket_app := (rg_bucket_app rg)(bucket \<mapsto> app_name)\<rparr>
           in if te_trigger_name entity = [] then (rg', ch')
              else (case gen_trigger_pointer (he_codec env) (he_now env) (te_primitive_type entity)
                           (te_trigger_name entity) (te_primitive entity) of
                      None \<Rightarrow> (rg', ch')
                    | Some trigger \<Rightarrow> (install_trigger entity trigger rg', ch'))))"

definition update_triggers :: "(nat \<Rightarrow> Trigger \<Rightarrow> Trigger) \<Rightarrow> nat list \<Rightarrow> SchedRegistry \<Rightarrow> SchedRegistry" where
  "update_triggers f ptrs rg =
     rg\<lparr>rg_triggers := fold (\<lambda>p trs. trs[p := f p (trs ! p)]) ptrs (rg_triggers rg)\<rparr>"

text \<open>A trigger has fired elsewhere: every trigger of that name in the bucket is cleared.\<close>

definition clear_entity :: "TriggerEntity \<Rightarrow> SchedRegistry \<Rightarrow> SchedRegistry" where
  "clear_entity entity rg =
     (let bucket = te_bucket_name entity
      in update_triggers (\<lambda>p tr. if trigger_name tr = te_trigger_name entity then clear_trigger (te_session entity) tr else tr)
           (map_at [] (rg_bucket_triggers rg) bucket)
           (rg\<lparr>rg_bucket_triggers := map_touch [] (rg_bucket_triggers rg) bucket\<rparr>))"

text \<open>The loop that looks for the trigger does not test for the end of the vector.\<close>

fun erase_named :: "Trigger list \<Rightarrow> string \<Rightarrow> nat list \<Rightarrow> nat list res" where
  "erase_named triggers name [] = Fault Out_Of_Range"
| "erase_named triggers name (p # ps) =
     (if trigger_name (triggers ! p) = name then Ok ps
      else res_bind (erase_named triggers name ps) (\<lambda>qs. Ok (p # qs)))"

definition delete_entity :: "TriggerEntity \<Rightarrow> SchedRegistry \<Rightarrow> SchedRegistry res" where
  "delete_entity entity rg =
     (let bucket = te_bucket_name entity
      in res_bind (erase_named (rg_triggers rg) (te_trigger_name entity) (map_at [] (rg_bucket_triggers rg) bucket))
           (\<lambda>ptrs. Ok (rg\<lparr>rg_bucket_triggers := (rg_bucket_triggers rg)(bucket \<mapsto> ptrs)\<rparr>)))"

definition handle_coord_msg ::
  "helper_env \<Rightarrow> UpdateCoordMsg \<Rightarrow> SchedRegistry \<Rightarrow> CommHelper \<Rightarrow> (SchedRegistry \<times> CommHelper) res" where
  "handle_coord_msg env coord_msg rg ch =
     (if uc_msg_type coord_msg = 0
      then (let coord_thread = new_thread (uc_ip coord_msg) (uc_thread_id coord_msg);
                app_name = uc_app_name coord_msg;
                ch1 = ch\<lparr>ch_app_coord_map := (ch_app_coord_map ch)(app_name \<mapsto> coord_thread)\<rparr>;
                rg1 = fold (add_function app_name) (uc_functions coord_msg) rg
            in res_bind (res_fold (add_dependency app_name) (uc_dependencies coord_msg) rg1) (\<lambda>rg2.
               Ok (fold (add_entity env app_name coord_thread) (uc_triggers coord_msg) (rg2, ch1))))
      else if uc_msg_type coord_msg = 1
      then Ok (fold clear_entity (uc_triggers coord_msg) rg, ch)
      else if uc_msg_type coord_msg = 2
      then res_bind (res_fold delete_entity (uc_triggers coord_msg) rg) (\<lambda>rg'. Ok (rg', ch))
      else Ok (rg, ch))"

text \<open>\<^verbatim>\<open>emplace\<close> keeps an address that is already there.\<close>

definition note_address :: "Argument \<Rightarrow> CommHelper \<Rightarrow> CommHelper" where
  "note_address arg ch =
     (if 0 < ar_arg_flag arg
      then ch\<lparr>ch_key_address_cache := map_touch (ar_data_address arg) (ch_key_address_cache ch) (ar_body arg)\<rparr>
      else ch)"

definition request_flag :: "FunctionRequest \<Rightarrow> int" where
  "request_flag req =
     fold (\<lambda>arg flag. if 0 < ar_arg_flag arg then sint (ar_arg_flag arg) else flag) (fr_arguments req) 0"

definition handle_function_call :: "FunctionCall \<Rightarrow> CommHelper \<Rightarrow> RecvMsg \<times> CommHelper" where
  "handle_function_call call ch =
     (empty_recv\<lparr>rm_msg_type := Call, rm_app_name := fc_app_name call, rm_resp_address := fc_resp_address call,
        rm_session_id := fc_session_id call, rm_sync_data_status := fc_sync_data_status call,
        rm_func_name := map fr_name (fc_requests call),
        rm_func_args := map (\<lambda>req. map ar_body (fr_arguments req)) (fc_requests call),
        rm_is_func_arg_keys := map request_flag (fc_requests call)\<rparr>,
      fold note_address (concat (map fr_arguments (fc_requests call))) ch)"

section \<open>Data between schedulers\<close>

text \<open>A key with its length in front, as both messages begin.\<close>

definition data_head :: "string \<Rightarrow> string" where
  "data_head key = byte (word_of_nat (length key)) # key"

definition parse_head :: "string \<Rightarrow> (string \<times> string) res" where
  "parse_head msg =
     res_bind (nth_res msg 0) (\<lambda>c.
     let key_len = unat (unbyte c)
     in if key_len + 1 \<le> length msg then Ok (take key_len (drop 1 msg), drop (key_len + 1) msg)
        else Fault Out_Of_Range)"

definition send_data_req_base :: "string \<Rightarrow> uint32 \<Rightarrow> CommHelper \<Rightarrow> net_send list" where
  "send_data_req_base key tid ch =
     (let data_address = get_key_address key ch
      in if data_address = [] then []
         else [Data_Net data_address (data_head key @ ''tcp://'' @ ch_ip ch @ '':'' @
                 to_string (unat (tid + kvs_port dataAccessClientPort)))])"

text \<open>The length of the answer is computed in 32 bits.\<close>

definition handle_data_request ::
  "(string \<rightharpoonup> uint32) \<Rightarrow> string \<Rightarrow> shm_store \<Rightarrow> (net_send list \<times> shm_store) res" where
  "handle_data_request key_len_map message shm =
     res_bind (parse_head message) (\<lambda>(key, resp_address).
     case get_shm_obj key_len_map key shm of
       ((ptr, data_size), shm') \<Rightarrow>
         if data_size = 0 then Ok ([], shm')
         else if 2 ^ 32 \<le> length key + unat data_size + 1 then Fault Out_Of_Range
         else res_bind (shm_read ptr (unat data_size) shm') (\<lambda>data.
              Ok ([Data_Net resp_address (data_head key @ data)], shm')))"

definition handle_data_response :: "string \<Rightarrow> shm_store \<Rightarrow> (RecvMsg \<times> shm_store) res" where
  "handle_data_response message shm =
     res_bind (parse_head message) (\<lambda>(key, data).
     let data_size = word_of_nat (length data)
     in res_bind (copy_to_shm_obj key (take (unat data_size) data) shm) (\<lambda>shm'.
        Ok (empty_recv\<lparr>rm_msg_type := DataResp, rm_data_key := key, rm_data_size := data_size\<rparr>, shm')))"

section \<open>The key-value store\<close>

definition read_ptr :: "data_ptr \<Rightarrow> nat \<Rightarrow> shm_store \<Rightarrow> string res" where
  "read_ptr ptr n shm =
     (case ptr of
        Heap s \<Rightarrow> if n \<le> length s then Ok (take n s) else Fault Out_Of_Range
      | Shm i \<Rightarrow> shm_read i n shm)"

text \<open>An operation of the client of one thread.\<close>

definition on_client ::
  "uint32 \<Rightarrow> (KvsClient \<Rightarrow> ('a \<times> kvs_send list \<times> KvsClient) res) \<Rightarrow> CommHelper \<Rightarrow>
   ('a \<times> net_send list \<times> CommHelper) res" where
  "on_client tid f ch =
     res_bind (nth_res (ch_kvs_clients ch) (unat tid)) (\<lambda>kc.
     res_bind (f kc) (\<lambda>(x, sends, kc').
     Ok (x, map Kvs_Net sends, ch\<lparr>ch_kvs_clients := (ch_kvs_clients ch)[unat tid := kc']\<rparr>)))"

definition get_kvs_async_base ::
  "helper_env \<Rightarrow> string \<Rightarrow> uint32 \<Rightarrow> CommHelper \<Rightarrow> (net_send list \<times> CommHelper) res" where
  "get_kvs_async_base env key tid ch =
     res_bind (on_client tid (\<lambda>kc. res_bind (get_async (he_rand env) (he_now env) key kc)
                                     (\<lambda>(sends, kc'). Ok ((), sends, kc'))) ch)
       (\<lambda>(_, out, ch'). Ok (out, ch'))"

definition put_kvs_async_base ::
  "helper_env \<Rightarrow> string \<Rightarrow> data_ptr \<Rightarrow> uint32 \<Rightarrow> uint32 \<Rightarrow> shm_store \<Rightarrow> CommHelper \<Rightarrow>
   (net_send list \<times> CommHelper) res" where
  "put_kvs_async_base env key val_ptr val_size tid shm ch =
     (case generate_timestamp (he_now env) tid of
        None \<Rightarrow> Fault Diverges
      | Some timestamp \<Rightarrow>
          res_bind (read_ptr val_ptr (unat val_size) shm) (\<lambda>val.
          res_bind (on_client tid (put_async (he_rand env) (he_now env) key
                                     (serialize_timestamp (he_values env) timestamp val) LWW) ch)
            (\<lambda>(rid, out, ch'). Ok (out, ch'))))"

text \<open>Work for a thread that is chosen round-robin: it is done at once, or put into the thread's queue.\<close>

definition offload ::
  "SecondaryThreadMsg \<Rightarrow> (CommHelper \<Rightarrow> (net_send list \<times> CommHelper) res) \<Rightarrow> CommHelper \<Rightarrow>
   (net_send list \<times> CommHelper) res" where
  "offload msg base ch =
     (if 1 < ch_io_thread_count ch
      then res_bind (get_io_thread_id True ch) (\<lambda>(thread_id, ch1).
           if thread_id = 0 then base ch1
           else (let i = unat (thread_id - 1)
                 in res_bind (nth_res (ch_secondary_queues ch1) i) (\<lambda>q.
                    Ok ([], ch1\<lparr>ch_secondary_queues := (ch_secondary_queues ch1)[i := q @ [msg]]\<rparr>))))
      else base ch)"

definition get_kvs_async :: "helper_env \<Rightarrow> string \<Rightarrow> CommHelper \<Rightarrow> (net_send list \<times> CommHelper) res" where
  "get_kvs_async env key = offload (GetKvs key) (get_kvs_async_base env key 0)"

definition put_kvs_async ::
  "helper_env \<Rightarrow> string \<Rightarrow> data_ptr \<Rightarrow> uint32 \<Rightarrow> shm_store \<Rightarrow> CommHelper \<Rightarrow> (net_send list \<times> CommHelper) res" where
  "put_kvs_async env key val_ptr val_size shm =
     offload (PutKvs key val_ptr val_size) (put_kvs_async_base env key val_ptr val_size 0 shm)"

definition send_data_req :: "string \<Rightarrow> CommHelper \<Rightarrow> (net_send list \<times> CommHelper) res" where
  "send_data_req key = offload (SendReq key) (\<lambda>ch. Ok (send_data_req_base key 0 ch, ch))"

section \<open>The loops of the helper\<close>

text \<open>What the sockets of a thread hold when it polls them.\<close>

record helper_input =
  hi_call :: "FunctionCall option"
  hi_data_request :: "string option"
  hi_data_response :: "string option"
  hi_key_address :: "KeyAddressResponse option"
  hi_key_response :: "KeyResponse option"

record helper_io =
  io_ch :: CommHelper
  io_shm :: shm_store
  io_out :: "net_send list"
  io_resps :: "RecvMsg list"

definition kvs_response :: "helper_env \<Rightarrow> uint32 \<Rightarrow> KeyResponse \<Rightarrow> helper_io \<Rightarrow> helper_io res" where
  "kvs_response env tid response io =
     res_bind (nth_res (rs_tuples response) 0) (\<lambda>tuple.
     let key = kt_key tuple
     in if rs_error response = TIMEOUT
        then if rs_type response = GET
             then res_bind (get_kvs_async_base env key tid (io_ch io)) (\<lambda>(out, ch).
                  Ok (io\<lparr>io_out := io_out io @ out, io_ch := ch\<rparr>))
             else Ok io
        else if rs_type response = GET \<and> kt_error tuple \<noteq> KEY_DNE
        then (let value = tv_value (deserialize_lww (he_values env) (kt_payload tuple));
                  data_size = word_of_nat (length value);
                  local_key_name = kvsKeyPrefix @ kDelimiter @ key
              in res_bind (copy_to_shm_obj local_key_name (take (unat data_size) value) (io_shm io)) (\<lambda>shm.
                 Ok (io\<lparr>io_shm := shm, io_resps := io_resps io @
                          [empty_recv\<lparr>rm_msg_type := KvsGetResp, rm_data_key := key, rm_data_size := data_size\<rparr>]\<rparr>)))
        else if rs_type response = PUT
        then Ok (io\<lparr>io_resps := io_resps io @ [empty_recv\<lparr>rm_msg_type := KvsPutResp, rm_data_key := key\<rparr>]\<rparr>)
        else Ok io)"

definition get_kvs_responses :: "helper_env \<Rightarrow> uint32 \<Rightarrow> helper_input \<Rightarrow> helper_io \<Rightarrow> helper_io res" where
  "get_kvs_responses env tid inp io =
     res_bind (on_client tid (receive_async (he_rand env) (he_now env) (hi_key_address inp) (hi_key_response inp))
                 (io_ch io)) (\<lambda>(responses, out, ch).
     res_fold (kvs_response env tid) responses (io\<lparr>io_out := io_out io @ out, io_ch := ch\<rparr>))"

text \<open>The three sockets that every thread of the helper polls.\<close>

definition poll_messages :: "(string \<rightharpoonup> uint32) \<Rightarrow> helper_input \<Rightarrow> helper_io \<Rightarrow> helper_io res" where
  "poll_messages key_len_map inp io =
     (let io1 = (case hi_call inp of
                   None \<Rightarrow> io
                 | Some call \<Rightarrow> (case handle_function_call call (io_ch io) of
                                  (resp, ch) \<Rightarrow> io\<lparr>io_ch := ch, io_resps := io_resps io @ [resp]\<rparr>))
      in res_bind (case hi_data_request inp of
                     None \<Rightarrow> Ok io1
                   | Some message \<Rightarrow>
                       res_bind (handle_data_request key_len_map message (io_shm io1)) (\<lambda>(out, shm).
                       Ok (io1\<lparr>io_out := io_out io1 @ out, io_shm := shm\<rparr>))) (\<lambda>io2.
         case hi_data_response inp of
           None \<Rightarrow> Ok io2
         | Some message \<Rightarrow>
             res_bind (handle_data_response message (io_shm io2)) (\<lambda>(resp, shm).
             Ok (io2\<lparr>io_shm := shm, io_resps := io_resps io2 @ [resp]\<rparr>))))"

definition run_thread_msg :: "helper_env \<Rightarrow> uint32 \<Rightarrow> SecondaryThreadMsg \<Rightarrow> helper_io \<Rightarrow> helper_io res" where
  "run_thread_msg env tid msg io =
     res_bind (case msg of
                 SendReq key \<Rightarrow> Ok (send_data_req_base key tid (io_ch io), io_ch io)
               | GetKvs key \<Rightarrow> get_kvs_async_base env key tid (io_ch io)
               | PutKvs key ptr sz \<Rightarrow> put_kvs_async_base env key ptr sz tid (io_shm io) (io_ch io)) (\<lambda>(out, ch).
     Ok (io\<lparr>io_out := io_out io @ out, io_ch := ch\<rparr>))"

definition msg_process_batch :: nat where
  "msg_process_batch = 10"

text \<open>One turn of an input/output thread; only other threads put messages into its queue.\<close>

definition run_io_thread_loop ::
  "helper_env \<Rightarrow> (string \<rightharpoonup> uint32) \<Rightarrow> uint32 \<Rightarrow> helper_input \<Rightarrow> CommHelper \<Rightarrow> shm_store \<Rightarrow>
   (net_send list \<times> CommHelper \<times> shm_store) res" where
  "run_io_thread_loop env key_len_map tid inp ch shm =
     (let queue_idx = unat (tid - 1)
      in res_bind (nth_res (ch_secondary_queues ch) queue_idx) (\<lambda>msg_queue.
         res_bind (nth_res (ch_resp_queues ch) queue_idx) (\<lambda>resp_queue.
         res_bind (poll_messages key_len_map inp \<lparr>io_ch = ch, io_shm = shm, io_out = [], io_resps = []\<rparr>) (\<lambda>io1.
         res_bind (res_fold (run_thread_msg env tid) (take msg_process_batch msg_queue) io1) (\<lambda>io2.
         res_bind (get_kvs_responses env tid inp io2) (\<lambda>io3.
         let ch' = io_ch io3
         in Ok (io_out io3,
                ch'\<lparr>ch_secondary_queues := (ch_secondary_queues ch')[queue_idx := drop msg_process_batch msg_queue],
                    ch_resp_queues := (ch_resp_queues ch')[queue_idx := resp_queue @ io_resps io3]\<rparr>,
                io_shm io3)))))))"

text \<open>The receiving operation of the main thread.\<close>

definition try_recv_msg ::
  "helper_env \<Rightarrow> (string \<rightharpoonup> uint32) \<Rightarrow> UpdateCoordMsg option \<Rightarrow> helper_input \<Rightarrow>
   SchedRegistry \<Rightarrow> CommHelper \<Rightarrow> shm_store \<Rightarrow>
   (RecvMsg list \<times> net_send list \<times> SchedRegistry \<times> CommHelper \<times> shm_store) res" where
  "try_recv_msg env key_len_map coord_msg inp rg ch shm =
     res_bind (case coord_msg of None \<Rightarrow> Ok (rg, ch) | Some msg \<Rightarrow> handle_coord_msg env msg rg ch) (\<lambda>(rg', ch1).
     res_bind (poll_messages key_len_map inp \<lparr>io_ch = ch1, io_shm = shm, io_out = [], io_resps = []\<rparr>) (\<lambda>io1.
     res_bind (get_kvs_responses env 0 inp io1) (\<lambda>io2.
     let ch2 = io_ch io2
     in Ok (io_resps io2 @ concat (ch_resp_queues ch2), io_out io2, rg',
            ch2\<lparr>ch_resp_queues := map (\<lambda>_. []) (ch_resp_queues ch2)\<rparr>, io_shm io2))))"

end
