(* ===== verification/Ph_Scheduler.thy ===== *)
theory Ph_Scheduler
  imports Ph_Comm_Helper
begin

text \<open>
  The scheduler of a node: \<^verbatim>\<open>src/scheduler/scheduler_server.cpp\<close> and \<^verbatim>\<open>check_object_arrival\<close> of
  \<^verbatim>\<open>src/scheduler/object_handlers.cpp\<close>. The local variables of \<^verbatim>\<open>run\<close> and the global maps are one
  record; an operation appends what it sends to \<open>ss_out\<close>. Maps that are only indexed, never searched
  or iterated, do not record the default entries that \<^verbatim>\<open>operator[]\<close> leaves behind. The clock is
  read once per turn of the loop (\<open>he_now\<close>), and once more behind the delayed calls (\<open>he_cur_stamp\<close>).
  The queue of checks is a list with the earliest check first; of equal times the one entered first,
  which \<^verbatim>\<open>std::priority_queue\<close> leaves open.
  A message on the channel between the processes is a string; the receiver also sees the null
  character behind it.
\<close>

section \<open>State\<close>

record InflightFuncArgs =
  fa_func_name :: string
  fa_session_id :: string
  fa_key_args :: "string list"
  fa_inflight_args :: "string list"
  fa_arg_flag :: int

record InflightIORequest =
  ir_executor_id :: uint8
  ir_req_id :: uint8
  ir_recv_time :: time

record DelayFunctionCall =
  dc_session_id :: string
  dc_app_name :: string
  dc_func_name :: string
  dc_func_args :: "string list"
  dc_arg_flag :: int
  dc_trigger_time :: time

record RerunCheckQueueItem =
  rc_check_time :: time
  rc_session :: string
  rc_trigger_ptr :: nat

datatype sched_send =
    To_Net net_send
  | To_Executor uint8 string

text \<open>The configuration that \<^verbatim>\<open>main\<close> reads.\<close>

record sched_conf =
  sc_delay_time :: uint32
  sc_shared :: bool
  sc_reject :: bool

record SchedState =
  ss_rg :: SchedRegistry
  ss_ch :: CommHelper
  ss_shm :: shm_store
  ss_delay_queue :: "DelayFunctionCall list"
  ss_key_len :: "string \<rightharpoonup> uint32"
  ss_key_val :: "string \<rightharpoonup> string"
  ss_session_client :: "string \<rightharpoonup> string"
  ss_rerun_queue :: "RerunCheckQueueItem list"
  ss_ram_seed :: uint32
  ss_call_id :: uint32
  ss_inflight :: "uint32 \<rightharpoonup> InflightFuncArgs"
  ss_key_call_ids :: "string \<rightharpoonup> uint32 list"
  ss_remote_get :: "string \<rightharpoonup> InflightIORequest list"
  ss_kvs_put :: "string \<rightharpoonup> InflightIORequest list"
  ss_function_executor :: "string \<rightharpoonup> uint8 list"
  ss_executor_status :: "(uint8 \<times> uint8) list"
  ss_executors :: nat
  ss_report_start :: time
  ss_out :: "sched_send list"

definition empty_registry :: SchedRegistry where
  "empty_registry = \<lparr>rg_triggers = [], rg_bucket_triggers = Map.empty, rg_app_info = Map.empty, rg_func_app = Map.empty,
                     rg_bucket_app = Map.empty, rg_func_trigger_timeout = Map.empty\<rparr>"

text \<open>The loop that sets up the executors counts in 8 bits: more than 255 executors are never reached.\<close>

definition init_scheduler :: "time \<Rightarrow> uint32 \<Rightarrow> CommHelper \<Rightarrow> shm_store \<Rightarrow> uint32 \<Rightarrow> SchedState res" where
  "init_scheduler now seed ch shm executor =
     (if 255 < executor then Fault Diverges
      else Ok \<lparr>ss_rg = empty_registry, ss_ch = ch, ss_shm = shm, ss_delay_queue = [],
               ss_key_len = Map.empty, ss_key_val = Map.empty, ss_session_client = Map.empty,
               ss_rerun_queue = [], ss_ram_seed = seed, ss_call_id = 0, ss_inflight = Map.empty,
               ss_key_call_ids = Map.empty, ss_remote_get = Map.empty, ss_kvs_put = Map.empty,
               ss_function_executor = Map.empty,
               ss_executor_status = map (\<lambda>i. (word_of_nat i, 2)) [0..<unat executor],
               ss_executors = unat executor, ss_report_start = now, ss_out = []\<rparr>)"

section \<open>Sending\<close>

definition forwardDataPackingThreshold :: uint32 where
  "forwardDataPackingThreshold = 10240"

definition schedTimerThreshold :: int where
  "schedTimerThreshold = 10"

definition executor_avail :: "uint8 \<Rightarrow> bool" where
  "executor_avail status \<longleftrightarrow> status = 0 \<or> status = 1"

definition get_avail_executor_num :: "(uint8 \<times> uint8) list \<Rightarrow> nat" where
  "get_avail_executor_num executor_status_map = length (filter (\<lambda>(e, status). executor_avail status) executor_status_map)"

text \<open>An executor without a channel is a null pointer.\<close>

definition send_to_executer :: "uint8 \<Rightarrow> string \<Rightarrow> SchedState \<Rightarrow> SchedState res" where
  "send_to_executer e msg s =
     (if unat e < ss_executors s then Ok (s\<lparr>ss_out := ss_out s @ [To_Executor e msg]\<rparr>) else Fault Null_Pointer)"

definition via_helper :: "(CommHelper \<Rightarrow> (net_send list \<times> CommHelper) res) \<Rightarrow> SchedState \<Rightarrow> SchedState res" where
  "via_helper f s =
     res_bind (f (ss_ch s)) (\<lambda>(out, ch). Ok (s\<lparr>ss_ch := ch, ss_out := ss_out s @ map To_Net out\<rparr>))"

definition client_of :: "string \<Rightarrow> SchedState \<Rightarrow> string" where
  "client_of session_id s = map_at [] (ss_session_client s) session_id"

section \<open>Forwarding a call to the coordinator\<close>

text \<open>The sizes of the objects of a call; arguments come as bucket, key and size.\<close>

fun arg_sizes :: "string list \<Rightarrow> int list res" where
  "arg_sizes [] = Ok []"
| "arg_sizes (bucket # key # sz # rest) =
     res_bind (stoi sz) (\<lambda>n. res_bind (arg_sizes rest) (\<lambda>ns. Ok (n # ns)))"
| "arg_sizes _ = Fault Out_Of_Range"

fun real_data_args :: "int \<Rightarrow> string list \<Rightarrow> SchedState \<Rightarrow> (string list \<times> SchedState) res" where
  "real_data_args arg_flag [] s = Ok ([], s)"
| "real_data_args arg_flag (bucket # key # sz # rest) s =
     (let key_name = bucket @ kDelimiter @ key;
          size_len = map_at 0 (ss_key_len s) key_name
      in res_bind (read_shm_obj key_name (unat size_len) (ss_shm s)) (\<lambda>(real_data, shm).
         res_bind (real_data_args arg_flag rest
                     (s\<lparr>ss_key_len := map_touch 0 (ss_key_len s) key_name, ss_shm := shm\<rparr>)) (\<lambda>(args, s').
         Ok ((if arg_flag = 1 then [real_data] else if arg_flag = 2 then [key, real_data] else []) @ args, s'))))"
| "real_data_args arg_flag _ s = Fault Out_Of_Range"

fun data_args_vec :: "int \<Rightarrow> string list list \<Rightarrow> SchedState \<Rightarrow> (string list list \<times> SchedState) res" where
  "data_args_vec arg_flag [] s = Ok ([], s)"
| "data_args_vec arg_flag (func_args # rest) s =
     res_bind (real_data_args arg_flag func_args s) (\<lambda>(args, s1).
     res_bind (data_args_vec arg_flag rest s1) (\<lambda>(argss, s2). Ok (args # argss, s2)))"

text \<open>The sum of the sizes is a signed number that is compared with an unsigned one.\<close>

definition forward_call_via_helper ::
  "string \<Rightarrow> string \<Rightarrow> string list \<Rightarrow> string list list \<Rightarrow> int \<Rightarrow> SchedState \<Rightarrow> SchedState res" where
  "forward_call_via_helper session_id app_name func_name_vec func_args_vec arg_flag s =
     (let forward = (\<lambda>argss flag s. via_helper (forward_func_call (client_of session_id s) app_name func_name_vec
                        argss flag session_id) s)
      in if 0 < arg_flag
         then res_bind (res_map arg_sizes func_args_vec) (\<lambda>sizes.
              if word_of_int (sum_list (concat sizes)) < forwardDataPackingThreshold
              then res_bind (data_args_vec arg_flag func_args_vec s) (\<lambda>(argss, s'). forward argss 0 s')
              else forward func_args_vec arg_flag s)
         else forward func_args_vec arg_flag s)"

section \<open>Scheduling a call\<close>

text \<open>
  The loop over the executors ends at the first warm one; before it, executors that can take a new
  function are collected.
\<close>

fun scan_executors :: "bool \<Rightarrow> uint8 list \<Rightarrow> (uint8 \<times> uint8) list \<Rightarrow> uint8 option \<times> uint8 list" where
  "scan_executors shared warm [] = (None, [])"
| "scan_executors shared warm ((e, status) # rest) =
     (if status = 1 \<and> e \<in> set warm then (Some e, [])
      else case scan_executors shared warm rest of
        (found, cold) \<Rightarrow> (found, if status = 0 \<or> shared \<and> status = 1 then e # cold else cold))"

text \<open>The executor that takes the call, whether it is a cold one, and the next seed.\<close>

definition choose_executor ::
  "rand_fun \<Rightarrow> bool \<Rightarrow> uint8 list \<Rightarrow> (uint8 \<times> uint8) list \<Rightarrow> uint32 \<Rightarrow> (uint8 \<times> bool) option \<times> uint32" where
  "choose_executor rnd shared warm status_map seed =
     (case scan_executors shared warm status_map of
        (Some e, _) \<Rightarrow> (Some (e, False), snd (rnd seed))
      | (None, cold) \<Rightarrow>
          if cold = [] then (None, seed)
          else (case rnd seed of (r, seed') \<Rightarrow> (Some (cold ! (r mod length cold), True), seed')))"

definition call_message :: "int \<Rightarrow> bool \<Rightarrow> string \<Rightarrow> string \<Rightarrow> string list \<Rightarrow> string" where
  "call_message arg_flag persist session_id func_name func_args =
     byte 1 # byte (word_of_int (arg_flag + 1)) # byte (if persist then 1 else 2) #
     session_id @ ''|'' @ func_name @ concat (map (\<lambda>arg. ''|'' @ arg) func_args)"

fun rerun_push :: "RerunCheckQueueItem \<Rightarrow> RerunCheckQueueItem list \<Rightarrow> RerunCheckQueueItem list" where
  "rerun_push item [] = [item]"
| "rerun_push item (x # xs) =
     (if rc_check_time item < rc_check_time x then item # x # xs else x # rerun_push item xs)"

definition note_rerun ::
  "time \<Rightarrow> string \<Rightarrow> string \<Rightarrow> string list \<Rightarrow> int \<Rightarrow> RerunTriggerTimeout \<Rightarrow> SchedState \<Rightarrow> SchedState" where
  "note_rerun now session_id func_name func_args arg_flag meta s =
     (let rg = ss_rg s; p = rt_trigger_ptr meta
      in s\<lparr>ss_rg := update_triggers (\<lambda>_. notify_source_func func_name session_id func_args arg_flag) [p] rg,
           ss_rerun_queue := rerun_push
             \<lparr>rc_check_time = now + 1000000 * uint (rt_timeout meta), rc_session = session_id, rc_trigger_ptr = p\<rparr>
             (ss_rerun_queue s)\<rparr>)"

definition start_call ::
  "time \<Rightarrow> uint8 \<Rightarrow> string \<Rightarrow> string \<Rightarrow> string list \<Rightarrow> int \<Rightarrow> SchedState \<Rightarrow> SchedState res" where
  "start_call now executor_id session_id func_name func_args arg_flag s =
     res_bind (send_to_executer executor_id
                 (call_message arg_flag (client_of session_id s = []) session_id func_name func_args) s) (\<lambda>s1.
     Ok (fold (note_rerun now session_id func_name func_args arg_flag)
           (map_at [] (rg_func_trigger_timeout (ss_rg s)) func_name)
           (s1\<lparr>ss_executor_status := AList.update executor_id 2 (ss_executor_status s1)\<rparr>)))"

definition flatten_args :: "string list \<Rightarrow> string list" where
  "flatten_args func_args = concat (map (\<lambda>arg. if CHR ''|'' \<in> set arg then split arg CHR ''|'' else [arg]) func_args)"

definition schedule_func_call ::
  "sched_conf \<Rightarrow> helper_env \<Rightarrow> string \<Rightarrow> string \<Rightarrow> string \<Rightarrow> string list \<Rightarrow> int \<Rightarrow> SchedState \<Rightarrow> SchedState res" where
  "schedule_func_call conf env session_id app_name func_name func_args arg_flag s =
     (let warm = map_at [] (ss_function_executor s) func_name
      in case choose_executor (he_rand env) (sc_shared conf) warm (ss_executor_status s) (ss_ram_seed s) of
           (Some (e, cold), seed) \<Rightarrow>
             start_call (he_now env) e session_id func_name func_args arg_flag
               (s\<lparr>ss_ram_seed := seed,
                  ss_function_executor := (if cold then (ss_function_executor s)(func_name \<mapsto> uset_insert e warm)
                                           else ss_function_executor s)\<rparr>)
         | (None, _) \<Rightarrow>
             if 0 < sc_delay_time conf
             then Ok (s\<lparr>ss_delay_queue := ss_delay_queue s @
                    [\<lparr>dc_session_id = session_id, dc_app_name = app_name, dc_func_name = func_name,
                      dc_func_args = func_args, dc_arg_flag = arg_flag, dc_trigger_time = he_now env\<rparr>]\<rparr>)
             else if sc_reject conf then Ok s
             else res_bind (if 0 < arg_flag then nth_res func_args 0 else Ok []) (\<lambda>first.
                  forward_call_via_helper session_id app_name [func_name]
                    [if 0 < arg_flag \<and> CHR ''|'' \<in> set first then flatten_args func_args else func_args] arg_flag s))"

section \<open>New objects\<close>

text \<open>
  The arguments of one action. The flag of the loop is set to 0 by an action with cached data and
  keeps that value for the actions behind it.
\<close>

definition arrival_action ::
  "(string \<rightharpoonup> string) \<Rightarrow> Bucket \<Rightarrow> TriggerAction \<Rightarrow>
   int \<times> TriggerFunctionMetadata list \<times> (string \<rightharpoonup> uint32) \<Rightarrow>
   int \<times> TriggerFunctionMetadata list \<times> (string \<rightharpoonup> uint32)" where
  "arrival_action key_val bucket action acc =
     (case acc of
        (arg_flag, metas, key_len) \<Rightarrow>
          (let names = map (\<lambda>session_key. get_local_object_name bucket (snd session_key) (fst session_key))
                         (act_session_keys action)
           in if list_all (\<lambda>name. key_val name \<noteq> None) names
              then (0, metas @ [mk_tfm (act_function action) (map (map_at [] key_val) names) 0], key_len)
              else (arg_flag,
                    metas @ [mk_tfm (act_function action)
                      (concat (map (\<lambda>name. [name, to_string (unat (map_at 0 key_len name))]) names)) arg_flag],
                    fold (\<lambda>name m. map_touch 0 m name) names key_len)))"

definition arrival_trigger ::
  "time \<Rightarrow> BucketKey \<Rightarrow> nat \<Rightarrow> string list \<times> TriggerFunctionMetadata list \<times> SchedState \<Rightarrow>
   string list \<times> TriggerFunctionMetadata list \<times> SchedState" where
  "arrival_trigger now bucket_key p acc =
     (case acc of
        (active, metas, s) \<Rightarrow>
          (let trigger = rg_triggers (ss_rg s) ! p
           in case action_for_new_object now bucket_key trigger of
                (actions, trigger') \<Rightarrow>
                  (let s1 = s\<lparr>ss_rg := update_triggers (\<lambda>_ _. trigger') [p] (ss_rg s)\<rparr>
                   in if actions = [] then (active, metas, s1)
                      else (case fold (arrival_action (ss_key_val s) (bk_bucket bucket_key)) actions
                                   (trigger_option trigger + 1, metas, ss_key_len s1) of
                              (_, metas', key_len) \<Rightarrow>
                                (active @ [trigger_name trigger], metas', s1\<lparr>ss_key_len := key_len\<rparr>)))))"

definition check_object_arrival ::
  "time \<Rightarrow> BucketKey \<Rightarrow> SchedState \<Rightarrow> string list \<times> TriggerFunctionMetadata list \<times> SchedState" where
  "check_object_arrival now bucket_key s =
     fold (arrival_trigger now bucket_key) (map_at [] (rg_bucket_triggers (ss_rg s)) (bk_bucket bucket_key)) ([], [], s)"

definition check_trigger ::
  "sched_conf \<Rightarrow> helper_env \<Rightarrow> BucketKey \<Rightarrow> string \<Rightarrow> SchedState \<Rightarrow> (string list \<times> SchedState) res" where
  "check_trigger conf env bucket_key session_id s =
     (case check_object_arrival (he_now env) bucket_key s of
        (active_triggers, active_func_metadata, s1) \<Rightarrow>
          res_bind (res_fold (\<lambda>meta s. schedule_func_call conf env session_id
                       (map_at [] (rg_bucket_app (ss_rg s)) (bk_bucket bucket_key))
                       (tfm_func_name meta) (tfm_func_args meta) (tfm_arg_flag meta) s) active_func_metadata s1)
            (\<lambda>s2. Ok (active_triggers, s2)))"

section \<open>Messages of executors\<close>

text \<open>A byte of a message, and \<open>n\<close> bytes of it; the null character at the end can be read.\<close>

definition chan_at :: "string \<Rightarrow> nat \<Rightarrow> uint8 res" where
  "chan_at msg i = res_bind (nth_res (msg @ [CHR 0x00]) i) (\<lambda>c. Ok (unbyte c))"

definition chan_sub :: "string \<Rightarrow> nat \<Rightarrow> nat \<Rightarrow> string res" where
  "chan_sub msg i n = (if i + n \<le> length msg + 1 then Ok (take n (drop i (msg @ [CHR 0x00]))) else Fault Out_Of_Range)"

text \<open>\<^verbatim>\<open>string(str + i)\<close>: up to the next null character.\<close>

definition chan_str :: "string \<Rightarrow> nat \<Rightarrow> string res" where
  "chan_str msg i = (if i \<le> length msg then Ok (c_str (drop i msg)) else Fault Out_Of_Range)"

definition response_head :: "uint8 \<Rightarrow> string" where
  "response_head req_id = [byte 3, byte req_id, byte 1]"

definition wait_remote :: "string \<Rightarrow> InflightIORequest \<Rightarrow> SchedState \<Rightarrow> SchedState" where
  "wait_remote key_name req s =
     s\<lparr>ss_remote_get := (ss_remote_get s)(key_name \<mapsto> map_at [] (ss_remote_get s) key_name @ [req])\<rparr>"

definition handle_get_request :: "helper_env \<Rightarrow> uint8 \<Rightarrow> string \<Rightarrow> SchedState \<Rightarrow> SchedState res" where
  "handle_get_request env executor_id msg s =
     res_bind (chan_at msg 2) (\<lambda>store.
     res_bind (chan_at msg 3) (\<lambda>req_id.
     res_bind (chan_at msg 4) (\<lambda>meta_data_len.
     res_bind (chan_sub msg 5 (unat meta_data_len)) (\<lambda>key_name.
     let get_req = \<lparr>ir_executor_id = executor_id, ir_req_id = req_id, ir_recv_time = he_now env\<rparr>
     in if store = 1
        then (case ss_key_len s key_name of
                Some size_len \<Rightarrow>
                  send_to_executer executor_id (response_head req_id @ to_string (unat size_len)) s
              | None \<Rightarrow>
                  res_bind (via_helper (send_data_req key_name) s) (\<lambda>s1. Ok (wait_remote key_name get_req s1)))
        else res_bind (nth_res (split key_name CHR ''|'') 1) (\<lambda>key.
             res_bind (via_helper (get_kvs_async env key) s) (\<lambda>s1. Ok (wait_remote key_name get_req s1)))))))"

text \<open>The calls that a function has asked for by a dependency declared in its application.\<close>

definition direct_invocation ::
  "sched_conf \<Rightarrow> helper_env \<Rightarrow> string \<Rightarrow> string \<Rightarrow> string list \<Rightarrow> string \<Rightarrow> string list \<Rightarrow> int \<Rightarrow> SchedState \<Rightarrow> SchedState res" where
  "direct_invocation conf env session_id app_name deps tgt_function func_args arg_flag s =
     (let call = (\<lambda>func. schedule_func_call conf env session_id app_name func func_args arg_flag)
      in if tgt_function = []
         then (let avail = get_avail_executor_num (ss_executor_status s)
               in if avail < length deps
                  then res_bind (res_fold call (take avail deps) s) (\<lambda>s1.
                       if sc_reject conf then Ok s1
                       else (let remote_funcs = drop avail deps
                             in forward_call_via_helper session_id app_name remote_funcs
                                  (replicate (length remote_funcs) func_args) arg_flag s1))
                  else res_fold call deps s)
         else if tgt_function \<in> set deps then call tgt_function s
         else Ok s)"

definition store_object :: "string \<Rightarrow> uint8 \<Rightarrow> string \<Rightarrow> SchedState \<Rightarrow> SchedState res" where
  "store_object obj_name is_data_packing info s =
     (if is_data_packing = 1
      then Ok (s\<lparr>ss_key_val := (ss_key_val s)(obj_name \<mapsto> info),
                 ss_key_len := (ss_key_len s)(obj_name \<mapsto> word_of_nat (length info))\<rparr>)
      else if is_data_packing = 2
      then res_bind (stoi info) (\<lambda>size_int.
           Ok (s\<lparr>ss_key_len := (ss_key_len s)(obj_name \<mapsto> word_of_int size_int)\<rparr>))
      else Ok s)"

definition notify_object ::
  "sched_conf \<Rightarrow> helper_env \<Rightarrow> string \<Rightarrow> BucketKey \<Rightarrow> uint8 \<Rightarrow> string \<Rightarrow> SchedState \<Rightarrow> SchedState res" where
  "notify_object conf env session_id bucket_key is_data_packing obj_name s =
     res_bind (check_trigger conf env bucket_key session_id s) (\<lambda>(active_triggers, s1).
     res_bind (if is_data_packing = 1
               then via_helper (notify_put bucket_key active_triggers (client_of session_id s1)
                      (map_at [] (ss_key_val s1) obj_name)) s1
               else if is_data_packing = 2
               then via_helper (notify_put bucket_key active_triggers (client_of session_id s1) []) s1
               else Ok s1) (\<lambda>s2.
     Ok (s2\<lparr>ss_call_id := ss_call_id s2 + word_of_nat (length active_triggers)\<rparr>)))"

definition ephemeral_object ::
  "sched_conf \<Rightarrow> helper_env \<Rightarrow> uint8 \<Rightarrow> string \<Rightarrow> string \<Rightarrow> string \<Rightarrow> string \<Rightarrow> string \<Rightarrow> string \<Rightarrow> SchedState \<Rightarrow> SchedState res" where
  "ephemeral_object conf env is_data_packing session_id src_function tgt_function bucket session_key info s =
     (let obj_name = bucket @ kDelimiter @ session_key
      in res_bind (store_object obj_name is_data_packing info s) (\<lambda>s1.
         let app_name = map_at [] (rg_func_app (ss_rg s1)) src_function;
             app = map_at new_AppInfo (rg_app_info (ss_rg s1)) app_name
         in case ai_direct_deps app src_function of
              Some deps \<Rightarrow>
                direct_invocation conf env session_id app_name deps tgt_function
                  (if is_data_packing = 1 then [map_at [] (ss_key_val s1) obj_name]
                   else if is_data_packing = 2 then [obj_name, info] else [])
                  (if is_data_packing = 1 then 0 else 1) s1
            | None \<Rightarrow>
                if bucket \<noteq> bucketNameDirectInvoc
                then notify_object conf env session_id (BucketKey_of bucket session_key) is_data_packing obj_name s1
                else Ok s1))"

text \<open>
  The buffer for a packed value has no room for the null character that \<^verbatim>\<open>strcpy\<close> writes behind
  it; the model has the value only.
\<close>

definition persist_object ::
  "helper_env \<Rightarrow> uint8 \<Rightarrow> uint8 \<Rightarrow> uint8 \<Rightarrow> string \<Rightarrow> string \<Rightarrow> string \<Rightarrow> SchedState \<Rightarrow> SchedState res" where
  "persist_object env executor_id req_id is_data_packing bucket session_key info s =
     (let obj_name = bucket @ kDelimiter @ session_key
      in res_bind (if is_data_packing = 1
                   then via_helper (put_kvs_async env session_key (Heap info) (word_of_nat (length info)) (ss_shm s)) s
                   else if is_data_packing = 2
                   then res_bind (stoi info) (\<lambda>size_int.
                        case open_shm_obj obj_name (unat (word_of_int size_int :: uint64)) (ss_shm s) of
                          (shm_ptr, shm) \<Rightarrow>
                            via_helper (put_kvs_async env session_key (Shm shm_ptr) (word_of_int size_int) shm)
                              (s\<lparr>ss_shm := shm\<rparr>))
                   else Ok s) (\<lambda>s1.
         let put_req = \<lparr>ir_executor_id = executor_id, ir_req_id = req_id, ir_recv_time = he_now env\<rparr>
         in Ok (s1\<lparr>ss_kvs_put := (ss_kvs_put s1)(session_key \<mapsto>
                      map_at [] (ss_kvs_put s1) session_key @ [put_req])\<rparr>)))"

definition respond_object ::
  "uint8 \<Rightarrow> string \<Rightarrow> string \<Rightarrow> string \<Rightarrow> string \<Rightarrow> string \<Rightarrow> SchedState \<Rightarrow> SchedState res" where
  "respond_object is_data_packing session_id src_function bucket session_key info s =
     res_bind (if is_data_packing = 1 then Ok (info, ss_shm s)
               else if is_data_packing = 2
               then res_bind (stoi info) (\<lambda>size_int.
                    if size_int < 0 then Fault Out_Of_Range
                    else read_shm_obj (bucket @ kDelimiter @ session_key) (nat size_int) (ss_shm s))
               else Ok ([], ss_shm s)) (\<lambda>(output_data, shm).
     Ok (s\<lparr>ss_shm := shm, ss_out := ss_out s @
            [To_Net (client_response (client_of session_id s) (map_at [] (rg_func_app (ss_rg s)) src_function) output_data)]\<rparr>))"

definition handle_send_object :: "sched_conf \<Rightarrow> helper_env \<Rightarrow> uint8 \<Rightarrow> uint8 \<Rightarrow> string \<Rightarrow> SchedState \<Rightarrow> SchedState res" where
  "handle_send_object conf env executor_id type msg s =
     res_bind (chan_at msg 2) (\<lambda>req_id.
     res_bind (chan_at msg 3) (\<lambda>is_data_packing.
     res_bind (chan_str msg 4) (\<lambda>params.
     case split params CHR ''|'' of
       session_id # src_function # tgt_function # bucket # session_key # info # _ \<Rightarrow>
         if type = 2
         then ephemeral_object conf env is_data_packing session_id src_function tgt_function bucket session_key info s
         else if type = 3 then persist_object env executor_id req_id is_data_packing bucket session_key info s
         else respond_object is_data_packing session_id src_function bucket session_key info s
     | _ \<Rightarrow> Ok s)))"

definition set_status :: "uint8 \<Rightarrow> uint8 \<Rightarrow> SchedState \<Rightarrow> SchedState" where
  "set_status e status s = s\<lparr>ss_executor_status := AList.update e status (ss_executor_status s)\<rparr>"

text \<open>0: empty, 1: available, 2: await, 3: busy, 4: error.\<close>

definition available_status :: "uint8 \<Rightarrow> uint8" where
  "available_status status = (if status = 0 \<or> status = 2 then 0 else 1)"

definition handle_executor_msg :: "sched_conf \<Rightarrow> helper_env \<Rightarrow> string \<Rightarrow> SchedState \<Rightarrow> SchedState res" where
  "handle_executor_msg conf env msg s =
     res_bind (chan_at msg 0) (\<lambda>executor_address.
     res_bind (chan_at msg 1) (\<lambda>type.
     let executor_id = executor_address - 1
     in if type = 1 then handle_get_request env executor_id msg s
        else if 2 \<le> type \<and> type \<le> 4 then handle_send_object conf env executor_id type msg s
        else if type = 6 then Ok (set_status executor_id 3 s)
        else if type = 7
        then Ok (set_status executor_id (available_status (umap_at 0 (ss_executor_status s) executor_id)) s)
        else Ok s))"

section \<open>Messages of the helper\<close>

definition full_args :: "string list \<Rightarrow> SchedState \<Rightarrow> string list \<times> SchedState" where
  "full_args keys s =
     (concat (map (\<lambda>key. [key, to_string (unat (map_at 0 (ss_key_len s) key))]) keys),
      s\<lparr>ss_key_len := fold (\<lambda>key m. map_touch 0 m key) keys (ss_key_len s)\<rparr>)"

text \<open>One argument of a call that comes by name: it is here, or it is asked for, once.\<close>

definition fetch_arg :: "string \<Rightarrow> string list \<times> SchedState \<Rightarrow> (string list \<times> SchedState) res" where
  "fetch_arg arg acc =
     (case acc of
        (inflight, s) \<Rightarrow>
          if ss_key_len s arg \<noteq> None then Ok (inflight, s)
          else res_bind (if ss_key_call_ids s arg = None then via_helper (send_data_req arg) s else Ok s) (\<lambda>s1.
               Ok (uset_insert arg inflight,
                   s1\<lparr>ss_key_call_ids := (ss_key_call_ids s1)(arg \<mapsto>
                       uset_insert (ss_call_id s1) (map_at [] (ss_key_call_ids s1) arg))\<rparr>)))"

definition call_by_name ::
  "sched_conf \<Rightarrow> helper_env \<Rightarrow> string \<Rightarrow> string \<Rightarrow> string \<Rightarrow> string list \<Rightarrow> int \<Rightarrow> SchedState \<Rightarrow> SchedState res" where
  "call_by_name conf env session_id app_name func_name func_args arg_flag s =
     res_bind (res_fold fetch_arg func_args ([], s)) (\<lambda>(inflight, s1).
     if inflight = []
     then (case full_args func_args s1 of
             (args, s2) \<Rightarrow> schedule_func_call conf env session_id app_name func_name args arg_flag s2)
     else Ok (s1\<lparr>ss_inflight := (ss_inflight s1)(ss_call_id s1 \<mapsto>
                \<lparr>fa_func_name = func_name, fa_session_id = session_id, fa_key_args = func_args,
                 fa_inflight_args = inflight, fa_arg_flag = arg_flag\<rparr>)\<rparr>))"

text \<open>The \<open>i\<close>-th call of a message.\<close>

definition handle_call :: "sched_conf \<Rightarrow> helper_env \<Rightarrow> RecvMsg \<Rightarrow> nat \<Rightarrow> SchedState \<Rightarrow> SchedState res" where
  "handle_call conf env msg i s =
     res_bind (nth_res (rm_func_name msg) i) (\<lambda>func_name.
     res_bind (nth_res (rm_func_args msg) i) (\<lambda>func_args.
     res_bind (nth_res (rm_is_func_arg_keys msg) i) (\<lambda>arg_flag.
     res_bind (if 0 < arg_flag
               then call_by_name conf env (rm_session_id msg) (rm_app_name msg) func_name func_args arg_flag s
               else schedule_func_call conf env (rm_session_id msg) (rm_app_name msg) func_name func_args 0 s) (\<lambda>s1.
     Ok (s1\<lparr>ss_call_id := ss_call_id s1 + 1\<rparr>)))))"

definition handle_calls :: "sched_conf \<Rightarrow> helper_env \<Rightarrow> RecvMsg \<Rightarrow> SchedState \<Rightarrow> SchedState res" where
  "handle_calls conf env msg s =
     res_fold (handle_call conf env msg) [0..<length (rm_func_name msg)]
       (s\<lparr>ss_session_client := (ss_session_client s)(rm_session_id msg \<mapsto> rm_resp_address msg)\<rparr>)"

text \<open>All requests that wait for a key are answered.\<close>

definition answer_requests :: "(uint8 \<Rightarrow> string) \<Rightarrow> InflightIORequest list \<Rightarrow> SchedState \<Rightarrow> SchedState res" where
  "answer_requests resp =
     res_fold (\<lambda>req. send_to_executer (ir_executor_id req) (resp (ir_req_id req)))"

text \<open>A number appended to a string is appended as one character.\<close>

definition answer_remote_gets :: "string \<Rightarrow> uint32 \<Rightarrow> SchedState \<Rightarrow> SchedState res" where
  "answer_remote_gets key data_size s =
     (case ss_remote_get s key of
        None \<Rightarrow> Ok s
      | Some reqs \<Rightarrow>
          res_bind (answer_requests (\<lambda>req_id. response_head req_id @ [byte (ucast data_size)]) reqs s) (\<lambda>s1.
          Ok (s1\<lparr>ss_remote_get := map_erase (ss_remote_get s1) key\<rparr>)))"

text \<open>A call without an entry has a default one, whose flag is not set.\<close>

definition resume_call :: "sched_conf \<Rightarrow> helper_env \<Rightarrow> string \<Rightarrow> uint32 \<Rightarrow> SchedState \<Rightarrow> SchedState res" where
  "resume_call conf env key cid s =
     (case ss_inflight s cid of
        None \<Rightarrow> Fault Uninitialized
      | Some call \<Rightarrow>
          (let call' = call\<lparr>fa_inflight_args := uset_erase key (fa_inflight_args call)\<rparr>
           in if fa_inflight_args call' \<noteq> [] then Ok (s\<lparr>ss_inflight := (ss_inflight s)(cid \<mapsto> call')\<rparr>)
              else (case full_args (fa_key_args call) s of
                      (args, s1) \<Rightarrow>
                        res_bind (schedule_func_call conf env (fa_session_id call)
                                    (map_at [] (rg_func_app (ss_rg s1)) (fa_func_name call)) (fa_func_name call)
                                    args (fa_arg_flag call) s1) (\<lambda>s2.
                        Ok (s2\<lparr>ss_inflight := map_erase (ss_inflight s2) cid\<rparr>)))))"

definition handle_data_resp :: "sched_conf \<Rightarrow> helper_env \<Rightarrow> RecvMsg \<Rightarrow> SchedState \<Rightarrow> SchedState res" where
  "handle_data_resp conf env msg s =
     (let key = rm_data_key msg
      in res_bind (answer_remote_gets key (rm_data_size msg)
                     (s\<lparr>ss_key_len := (ss_key_len s)(key \<mapsto> rm_data_size msg)\<rparr>)) (\<lambda>s1.
         case ss_key_call_ids s1 key of
           None \<Rightarrow> Ok s1
         | Some cids \<Rightarrow>
             res_bind (res_fold (resume_call conf env key) cids s1) (\<lambda>s2.
             Ok (s2\<lparr>ss_key_call_ids := map_erase (ss_key_call_ids s2) key\<rparr>))))"

definition handle_kvs_get_resp :: "RecvMsg \<Rightarrow> SchedState \<Rightarrow> SchedState res" where
  "handle_kvs_get_resp msg s =
     (let local_obj_name = kvsKeyPrefix @ ''|'' @ rm_data_key msg;
          s1 = s\<lparr>ss_key_len := (ss_key_len s)(local_obj_name \<mapsto> rm_data_size msg)\<rparr>
      in case ss_remote_get s1 local_obj_name of
           None \<Rightarrow> Ok s1
         | Some reqs \<Rightarrow>
             res_bind (answer_requests (\<lambda>req_id. response_head req_id @ to_string (unat (rm_data_size msg))) reqs s1)
               (\<lambda>s2. Ok (s2\<lparr>ss_remote_get := map_erase (ss_remote_get s2) local_obj_name\<rparr>)))"

definition handle_kvs_put_resp :: "RecvMsg \<Rightarrow> SchedState \<Rightarrow> SchedState res" where
  "handle_kvs_put_resp msg s =
     (case ss_kvs_put s (rm_data_key msg) of
        None \<Rightarrow> Ok s
      | Some reqs \<Rightarrow>
          res_bind (answer_requests response_head reqs s) (\<lambda>s1.
          Ok (s1\<lparr>ss_kvs_put := map_erase (ss_kvs_put s1) (rm_data_key msg)\<rparr>)))"

definition handle_comm_resp :: "sched_conf \<Rightarrow> helper_env \<Rightarrow> RecvMsg \<Rightarrow> SchedState \<Rightarrow> SchedState res" where
  "handle_comm_resp conf env msg s =
     (case rm_msg_type msg of
        Call \<Rightarrow> handle_calls conf env msg s
      | DataResp \<Rightarrow> handle_data_resp conf env msg s
      | KvsGetResp \<Rightarrow> handle_kvs_get_resp msg s
      | KvsPutResp \<Rightarrow> handle_kvs_put_resp msg s
      | Null \<Rightarrow> Ok s)"

section \<open>Delayed calls and re-execution\<close>

text \<open>The calls at the front of the queue get as many turns as there were executors.\<close>

fun run_delayed :: "sched_conf \<Rightarrow> helper_env \<Rightarrow> nat \<Rightarrow> SchedState \<Rightarrow> SchedState res" where
  "run_delayed conf env 0 s = Ok s"
| "run_delayed conf env (Suc n) s =
     (case ss_delay_queue s of
        [] \<Rightarrow> Ok s
      | call # _ \<Rightarrow>
          res_bind (schedule_func_call conf env (dc_session_id call) (dc_app_name call) (dc_func_name call)
                      (dc_func_args call) (dc_arg_flag call) s) (\<lambda>s1.
          run_delayed conf env n (s1\<lparr>ss_delay_queue := tl (ss_delay_queue s1)\<rparr>)))"

text \<open>Then the calls that have waited too long are forwarded. Forwarding leaves the queue alone.\<close>

fun expire_delayed :: "sched_conf \<Rightarrow> helper_env \<Rightarrow> DelayFunctionCall list \<Rightarrow> SchedState \<Rightarrow> SchedState res" where
  "expire_delayed conf env [] s = Ok (s\<lparr>ss_delay_queue := []\<rparr>)"
| "expire_delayed conf env (call # calls) s =
     (if uint (sc_delay_time conf) < cast_us (he_cur_stamp env - dc_trigger_time call)
      then res_bind (if sc_reject conf then Ok s
                     else forward_call_via_helper (dc_session_id call) (dc_app_name call) [dc_func_name call]
                            [dc_func_args call] (dc_arg_flag call) s) (expire_delayed conf env calls)
      else Ok (s\<lparr>ss_delay_queue := call # calls\<rparr>))"

definition delay_forwarding :: "sched_conf \<Rightarrow> helper_env \<Rightarrow> SchedState \<Rightarrow> SchedState res" where
  "delay_forwarding conf env s =
     (if ss_delay_queue s = [] then Ok s
      else res_bind (run_delayed conf env (get_avail_executor_num (ss_executor_status s)) s) (\<lambda>s1.
           expire_delayed conf env (ss_delay_queue s1) s1))"

definition rerun_item :: "sched_conf \<Rightarrow> helper_env \<Rightarrow> RerunCheckQueueItem \<Rightarrow> SchedState \<Rightarrow> SchedState res" where
  "rerun_item conf env item s =
     res_bind (res_fold (\<lambda>meta s. schedule_func_call conf env (rc_session item)
                  (map_at [] (rg_func_app (ss_rg s)) (tfm_func_name meta)) (tfm_func_name meta) (tfm_func_args meta)
                  (tfm_arg_flag meta) s)
                 (action_for_rerun (rc_session item) (rg_triggers (ss_rg s) ! rc_trigger_ptr item)) s) (\<lambda>s1.
     Ok (s1\<lparr>ss_rerun_queue := tl (ss_rerun_queue s1)\<rparr>))"

partial_function (option) rerun_check :: "sched_conf \<Rightarrow> helper_env \<Rightarrow> SchedState \<Rightarrow> SchedState res option" where
  "rerun_check conf env s =
     (case ss_rerun_queue s of
        [] \<Rightarrow> Some (Ok s)
      | item # _ \<Rightarrow>
          if he_now env < rc_check_time item then Some (Ok s)
          else case rerun_item conf env item s of
            Fault f \<Rightarrow> Some (Fault f)
          | Ok s1 \<Rightarrow> rerun_check conf env s1)"

text \<open>The set of cached functions that is reported stays empty: nothing is ever inserted into it.\<close>

definition sched_timer :: "sched_conf \<Rightarrow> helper_env \<Rightarrow> SchedState \<Rightarrow> SchedState res" where
  "sched_timer conf env s =
     (if cast_ms (he_now env - ss_report_start s) < schedTimerThreshold then Ok s
      else case rerun_check conf env s of
        None \<Rightarrow> Fault Diverges
      | Some r \<Rightarrow>
          res_bind r (\<lambda>s1.
          Ok (s1\<lparr>ss_out := ss_out s1 @ map To_Net (helper_update_status
                    (int (get_avail_executor_num (ss_executor_status s1))) [] (ss_ch s1)),
                 ss_report_start := he_now env\<rparr>)))"

section \<open>The loop\<close>

text \<open>One turn: a message of an executor, if there is one, and what the sockets of the helper hold.\<close>

definition recv_via_helper ::
  "helper_env \<Rightarrow> UpdateCoordMsg option \<Rightarrow> helper_input \<Rightarrow> SchedState \<Rightarrow> (RecvMsg list \<times> SchedState) res" where
  "recv_via_helper env coord_msg inp s =
     res_bind (try_recv_msg env (ss_key_len s) coord_msg inp (ss_rg s) (ss_ch s) (ss_shm s))
       (\<lambda>(resps, out, rg, ch, shm).
         Ok (resps, s\<lparr>ss_rg := rg, ss_ch := ch, ss_shm := shm, ss_out := ss_out s @ map To_Net out\<rparr>))"

definition scheduler_step ::
  "sched_conf \<Rightarrow> helper_env \<Rightarrow> string option \<Rightarrow> UpdateCoordMsg option \<Rightarrow> helper_input \<Rightarrow> SchedState \<Rightarrow> SchedState res" where
  "scheduler_step conf env chan_msg coord_msg inp s =
     res_bind (case chan_msg of None \<Rightarrow> Ok s | Some msg \<Rightarrow> handle_executor_msg conf env msg s) (\<lambda>s1.
     res_bind (recv_via_helper env coord_msg inp s1) (\<lambda>(resps, s2).
     res_bind (res_fold (handle_comm_resp conf env) resps s2) (\<lambda>s3.
     res_bind (delay_forwarding conf env s3) (sched_timer conf env))))"

end
