(* ===== verification/Ph_Executor.thy ===== *)
theory Ph_Executor
  imports Ph_Scheduler
begin

text \<open>
  An executor: \<^verbatim>\<open>src/executor/executor_server.cpp\<close> and the library that user functions call,
  \<^verbatim>\<open>include/executor/function_lib.hpp\<close>. A user function and the loader of shared libraries are
  parameters. An operation of the library that asks the scheduler is split at the point where it
  waits: one definition gives the request, another handles the answer, which is \<open>None\<close> after a
  timeout. What the code only prints is not modelled.
\<close>

section \<open>Objects\<close>

record EpheObject =
  eo_obj_name :: string
  eo_size :: nat
  eo_target_func :: string
  eo_value :: "ShmId option"

definition new_EpheObject :: "string \<Rightarrow> nat \<Rightarrow> bool \<Rightarrow> shm_store \<Rightarrow> EpheObject \<times> shm_store" where
  "new_EpheObject obj_name size_of create shm =
     (case acquire obj_name size_of (if create then Shm_Create_Open else Shm_Open) shm of
        (shm_id, shm1) \<Rightarrow>
          (case get_mem shm_id shm1 of
             (value, shm2) \<Rightarrow>
               (\<lparr>eo_obj_name = obj_name, eo_size = size_of, eo_target_func = [], eo_value = value\<rparr>, shm2)))"

definition new_bucket_object ::
  "string \<Rightarrow> string \<Rightarrow> string \<Rightarrow> nat \<Rightarrow> bool \<Rightarrow> shm_store \<Rightarrow> EpheObject \<times> shm_store" where
  "new_bucket_object bucket key session_id size_of create shm =
     new_EpheObject (get_local_object_name bucket key session_id) size_of create shm"

definition new_target_object ::
  "string \<Rightarrow> string \<Rightarrow> string \<Rightarrow> nat \<Rightarrow> shm_store \<Rightarrow> EpheObject \<times> shm_store" where
  "new_target_object src_function tgt_function session_id size_of shm =
     (case new_bucket_object (''b_'' @ tgt_function) (''k_'' @ src_function) session_id size_of True shm of
        (obj, shm') \<Rightarrow> (obj\<lparr>eo_target_func := tgt_function\<rparr>, shm'))"

definition set_value :: "string \<Rightarrow> EpheObject \<Rightarrow> shm_store \<Rightarrow> shm_store res" where
  "set_value value obj shm = shm_write (eo_value obj) value shm"

definition update_size :: "nat \<Rightarrow> EpheObject \<Rightarrow> EpheObject" where
  "update_size size_of obj = obj\<lparr>eo_size := size_of\<rparr>"

definition delete_object :: "EpheObject \<Rightarrow> shm_store \<Rightarrow> shm_store" where
  "delete_object obj shm = release (eo_value obj) shm"

section \<open>The library\<close>

text \<open>The flag \<open>ul_persist_flag\<close> is set before a function runs; the constructor leaves it open.\<close>

record UserLibrary =
  ul_ip_number :: string
  ul_chan_id :: uint8
  ul_rid :: uint8
  ul_object_id :: uint32
  ul_function :: string
  ul_session_id :: string
  ul_persist_flag :: uint8
  ul_size_of_args :: "uint64 list"

definition new_UserLibrary :: "string \<Rightarrow> uint32 \<Rightarrow> UserLibrary" where
  "new_UserLibrary ip thread_id =
     \<lparr>ul_ip_number = filter (\<lambda>c. c \<noteq> CHR ''.'') ip, ul_chan_id = ucast (thread_id + 1), ul_rid = 0,
      ul_object_id = 0, ul_function = [], ul_session_id = [], ul_persist_flag = 0, ul_size_of_args = []\<rparr>"

definition clear_session :: "UserLibrary \<Rightarrow> UserLibrary" where
  "clear_session ul = ul\<lparr>ul_function := [], ul_session_id := [], ul_persist_flag := 0, ul_size_of_args := []\<rparr>"

definition add_arg_size :: "uint64 \<Rightarrow> UserLibrary \<Rightarrow> UserLibrary" where
  "add_arg_size size_of ul = ul\<lparr>ul_size_of_args := ul_size_of_args ul @ [size_of]\<rparr>"

text \<open>The comparison of a length with a signed index is unsigned.\<close>

definition get_size_of_arg :: "int \<Rightarrow> UserLibrary \<Rightarrow> uint64" where
  "get_size_of_arg arg_idx ul =
     (if int (length (ul_size_of_args ul)) \<le> uint (word_of_int arg_idx :: uint64) then - 1
      else ul_size_of_args ul ! nat arg_idx)"

definition lib_request_id :: "UserLibrary \<Rightarrow> uint8 \<times> UserLibrary" where
  "lib_request_id ul =
     (let r = (if (ul_rid ul + 1) mod 100 = 0 then 0 else ul_rid ul + 1) in (r, ul\<lparr>ul_rid := r\<rparr>))"

definition get_object_id :: "UserLibrary \<Rightarrow> uint32 \<times> UserLibrary" where
  "get_object_id ul = (ul_object_id ul, ul\<lparr>ul_object_id := ul_object_id ul + 1\<rparr>)"

definition gen_unique_key :: "UserLibrary \<Rightarrow> string \<times> UserLibrary" where
  "gen_unique_key ul =
     (case get_object_id ul of
        (i, ul') \<Rightarrow> (ul_ip_number ul @ ''_'' @ to_string (unat (ul_chan_id ul)) @ ''_'' @ to_string (unat i), ul'))"

text \<open>The three overloads of \<^verbatim>\<open>create_object\<close>.\<close>

definition create_object_in ::
  "string \<Rightarrow> string \<Rightarrow> nat \<Rightarrow> UserLibrary \<Rightarrow> shm_store \<Rightarrow> EpheObject \<times> shm_store" where
  "create_object_in bucket key size_of ul shm = new_bucket_object bucket key (ul_session_id ul) size_of True shm"

definition create_object ::
  "nat \<Rightarrow> UserLibrary \<Rightarrow> shm_store \<Rightarrow> EpheObject \<times> UserLibrary \<times> shm_store" where
  "create_object size_of ul shm =
     (case get_object_id ul of
        (i, ul') \<Rightarrow>
          (let key = to_string (unat (ul_chan_id ul)) @ ''_'' @ to_string (unat i)
           in case create_object_in bucketNameDirectInvoc key size_of ul' shm of (obj, shm') \<Rightarrow> (obj, ul', shm')))"

definition create_object_for ::
  "string \<Rightarrow> bool \<Rightarrow> nat \<Rightarrow> UserLibrary \<Rightarrow> shm_store \<Rightarrow> EpheObject \<times> UserLibrary \<times> shm_store" where
  "create_object_for tgt_function many_to_one_trigger size_of ul shm =
     (if many_to_one_trigger
      then (case new_target_object (ul_function ul) tgt_function (ul_session_id ul) size_of shm of
              (obj, shm') \<Rightarrow> (obj, ul, shm'))
      else (case gen_unique_key ul of
              (key, ul') \<Rightarrow>
                (case create_object_in (''b_'' @ tgt_function) key size_of ul' shm of
                   (obj, shm') \<Rightarrow> (obj, ul', shm'))))"

text \<open>The type of a message with an object, and whether its sender waits for an answer.\<close>

definition send_type :: "bool \<Rightarrow> uint8 \<Rightarrow> uint8 \<times> bool" where
  "send_type output persist_flag =
     (if output then if persist_flag = 1 then (3, True) else (4, False) else (2, False))"

definition object_message :: "uint8 \<Rightarrow> uint8 \<Rightarrow> uint8 \<Rightarrow> string \<Rightarrow> string \<Rightarrow> EpheObject \<Rightarrow> string \<Rightarrow> string" where
  "object_message chan_id type req_id session_id func data value =
     byte chan_id # byte type # byte req_id # byte (if eo_size data \<le> msgDataPackingThreshold then 1 else 2) #
     session_id @ ''|'' @ func @ ''|'' @ eo_target_func data @ ''|'' @ eo_obj_name data @ ''|'' @
     (if eo_size data \<le> msgDataPackingThreshold then value else to_string (eo_size data))"

definition send_object ::
  "EpheObject \<Rightarrow> bool \<Rightarrow> UserLibrary \<Rightarrow> shm_store \<Rightarrow> (string \<times> uint8 \<times> bool \<times> UserLibrary) res" where
  "send_object data output ul shm =
     (case lib_request_id ul of
        (req_id, ul') \<Rightarrow>
          (case send_type output (ul_persist_flag ul) of
             (type, wait_res) \<Rightarrow>
               res_bind (if eo_size data \<le> msgDataPackingThreshold then shm_read (eo_value data) (eo_size data) shm
                         else Ok []) (\<lambda>value.
               Ok (object_message (ul_chan_id ul) type req_id (ul_session_id ul) (ul_function ul) data value,
                   req_id, wait_res, ul'))))"

text \<open>A timeout is reported, and the missing answer is then read all the same.\<close>

definition send_object_answer :: "bool \<Rightarrow> bool \<Rightarrow> string option \<Rightarrow> unit res" where
  "send_object_answer send_res wait_res recv_str =
     (if send_res \<and> wait_res
      then (case recv_str of
              None \<Rightarrow> Fault Null_Pointer
            | Some msg \<Rightarrow>
                res_bind (chan_at msg 0) (\<lambda>_. res_bind (chan_at msg 1) (\<lambda>_. res_bind (chan_at msg 2) (\<lambda>_. Ok ()))))
      else Ok ())"

definition get_object :: "string \<Rightarrow> string \<Rightarrow> bool \<Rightarrow> UserLibrary \<Rightarrow> string \<times> string \<times> uint8 \<times> UserLibrary" where
  "get_object bucket key from_ephe_store ul =
     (let obj_name = (if from_ephe_store then get_local_object_name bucket key (ul_session_id ul)
                      else kvsKeyPrefix @ kDelimiter @ key)
      in case lib_request_id ul of
           (req_id, ul') \<Rightarrow>
             (byte (ul_chan_id ul) # byte 1 # byte (if from_ephe_store then 1 else 2) # byte req_id #
                byte (word_of_nat (length obj_name)) # obj_name, obj_name, req_id, ul'))"

definition get_object_answer ::
  "string \<Rightarrow> uint8 \<Rightarrow> string option \<Rightarrow> shm_store \<Rightarrow> (EpheObject option \<times> shm_store) res" where
  "get_object_answer obj_name req_id recv_str shm =
     (case recv_str of
        None \<Rightarrow> Ok (None, shm)
      | Some msg \<Rightarrow>
          res_bind (chan_at msg 0) (\<lambda>type.
          if type \<noteq> 3 then Ok (None, shm)
          else res_bind (chan_at msg 1) (\<lambda>i.
          if i \<noteq> req_id then Ok (None, shm)
          else res_bind (chan_at msg 2) (\<lambda>success.
          if success \<noteq> 1 then Ok (None, shm)
          else res_bind (chan_str msg 3) (\<lambda>sz.
          res_bind (stoi sz) (\<lambda>size_len.
          case new_EpheObject obj_name (unat (word_of_int size_len :: uint64)) False shm of
            (obj, shm') \<Rightarrow> Ok (Some obj, shm')))))))"

section \<open>The executor\<close>

datatype arg_value = Chars string | Mapped "ShmId option"

text \<open>Which functions can be loaded, and what a function sends and does to the library and to memory.\<close>

record exec_env =
  ee_loadable :: "string \<Rightarrow> bool"
  ee_function :: "string \<Rightarrow> arg_value list \<Rightarrow> UserLibrary \<Rightarrow> shm_store \<Rightarrow> string list \<times> UserLibrary \<times> shm_store"

record ExecState =
  es_thread_id :: uint32
  es_lib :: UserLibrary
  es_name_func :: "string list"
  es_report_start :: time
  es_shm :: shm_store

definition ExecutorTimerThreshold :: int where
  "ExecutorTimerThreshold = 1000"

definition init_executor :: "time \<Rightarrow> string \<Rightarrow> uint32 \<Rightarrow> shm_store \<Rightarrow> ExecState" where
  "init_executor now ip thread_id shm =
     \<lparr>es_thread_id = thread_id, es_lib = new_UserLibrary ip thread_id, es_name_func = [], es_report_start = now,
      es_shm = shm\<rparr>"

definition status_message :: "uint32 \<Rightarrow> bool \<Rightarrow> string" where
  "status_message thread_id busy_flag = [byte (ucast (thread_id + 1)), byte (if busy_flag then 6 else 7)]"

definition load_function :: "exec_env \<Rightarrow> string \<Rightarrow> ExecState \<Rightarrow> bool \<times> ExecState" where
  "load_function env func_name es =
     (if func_name \<in> set (es_name_func es) then (True, es)
      else if ee_loadable env func_name then (True, es\<lparr>es_name_func := uset_insert func_name (es_name_func es)\<rparr>)
      else (False, es))"

definition plain_args :: "string list \<Rightarrow> UserLibrary \<Rightarrow> arg_value list \<times> UserLibrary" where
  "plain_args args ul = (map (\<lambda>arg. Chars (c_str arg)) args, fold (\<lambda>arg. add_arg_size (word_of_nat (length arg))) args ul)"

fun shm_args ::
  "uint8 \<Rightarrow> string list \<Rightarrow> UserLibrary \<Rightarrow> shm_store \<Rightarrow> (arg_value list \<times> UserLibrary \<times> shm_store) res" where
  "shm_args arg_flag (bucket # key # sz # rest) ul shm =
     res_bind (stoi sz) (\<lambda>shm_obj_size.
     case open_shm_obj (bucket @ kDelimiter @ key) (unat (word_of_int shm_obj_size :: uint64)) shm of
       (shm_ptr, shm1) \<Rightarrow>
         (let ul1 = (if arg_flag = 2 then add_arg_size (word_of_nat (length key)) ul else ul);
              vals = (if arg_flag = 2 then [Chars (c_str key), Mapped shm_ptr] else [Mapped shm_ptr])
          in res_bind (shm_args arg_flag rest (add_arg_size (word_of_int shm_obj_size) ul1) shm1)
               (\<lambda>(args, ul2, shm2). Ok (vals @ args, ul2, shm2))))"
| "shm_args arg_flag _ ul shm = Ok ([], ul, shm)"

text \<open>The arguments of a call, or \<open>None\<close> if they do not come in threes.\<close>

definition call_args ::
  "uint8 \<Rightarrow> string list \<Rightarrow> UserLibrary \<Rightarrow> shm_store \<Rightarrow> (arg_value list \<times> UserLibrary \<times> shm_store) option res" where
  "call_args arg_flag args ul shm =
     (if arg_flag = 0 then (case plain_args args ul of (vals, ul') \<Rightarrow> Ok (Some (vals, ul', shm)))
      else if length args mod 3 \<noteq> 0 then Ok None
      else if arg_flag = 1 \<or> arg_flag = 2
      then res_bind (shm_args arg_flag args ul shm) (\<lambda>r. Ok (Some r))
      else Fault Uninitialized)"

definition parse_call :: "string \<Rightarrow> (uint8 \<times> uint8 \<times> string \<times> string \<times> string list) res" where
  "parse_call msg =
     res_bind (chan_at msg 1) (\<lambda>arg_flag.
     res_bind (chan_at msg 2) (\<lambda>persist_output_flag.
     res_bind (chan_str msg 3) (\<lambda>params.
     case split params CHR ''|'' of
       session_id # func_name # args \<Rightarrow> Ok (arg_flag - 1, persist_output_flag, session_id, func_name, args)
     | _ \<Rightarrow> Fault Out_Of_Range)))"

text \<open>The second result is false if the call could not be run.\<close>

definition run_call :: "exec_env \<Rightarrow> string \<Rightarrow> ExecState \<Rightarrow> (string list \<times> bool \<times> ExecState) res" where
  "run_call env msg es =
     res_bind (parse_call msg) (\<lambda>(arg_flag, persist_output_flag, session_id, func_name, args).
     let busy = status_message (es_thread_id es) True;
         avail = status_message (es_thread_id es) False;
         es1 = es\<lparr>es_lib := (es_lib es)\<lparr>ul_function := func_name, ul_session_id := session_id,
                    ul_persist_flag := persist_output_flag\<rparr>\<rparr>
     in case load_function env func_name es1 of
          (False, es2) \<Rightarrow> Ok ([busy, avail], False, es2)
        | (True, es2) \<Rightarrow>
            res_bind (call_args arg_flag args (es_lib es2) (es_shm es2)) (\<lambda>parsed.
            case parsed of
              None \<Rightarrow> Ok ([busy, avail], False, es2)
            | Some (vals, ul, shm) \<Rightarrow>
                (case ee_function env func_name vals ul shm of
                   (sent, ul', shm') \<Rightarrow>
                     Ok (busy # sent @ [avail], True, es2\<lparr>es_lib := clear_session ul', es_shm := shm'\<rparr>))))"

text \<open>
  One turn of the loop. A message that cannot be run ends the turn before the timer is looked at; a
  message of another type is ignored.
\<close>

definition executor_step ::
  "exec_env \<Rightarrow> time \<Rightarrow> string option \<Rightarrow> ExecState \<Rightarrow> (string list \<times> ExecState) res" where
  "executor_step env now msg es =
     (let timer = (\<lambda>out es. if cast_ms (now - es_report_start es) < ExecutorTimerThreshold then Ok (out, es)
                     else Ok (out @ [status_message (es_thread_id es) False], es\<lparr>es_report_start := now\<rparr>))
      in case msg of
           None \<Rightarrow> timer [] es
         | Some str \<Rightarrow>
             res_bind (chan_at str 0) (\<lambda>type.
             if type = 1 then res_bind (run_call env str es) (\<lambda>(out, run, es'). if run then timer out es' else Ok (out, es'))
             else timer [] es))"

end
