(* ===== verification/Ph_Comm_Laws.thy ===== *)
theory Ph_Comm_Laws
  imports Ph_Comm_Helper
begin

text \<open>
  What the communication helper guarantees: objects arrive unchanged at another node, the threads
  are used in turn, and the registry that coordinators fill stays consistent.
\<close>

section \<open>Moving an object to another node\<close>

lemma parse_head_data_head:
  assumes "length key < 256"
  shows "parse_head (data_head key @ rest) = Ok (key, rest)"
proof -
  have "unat (word_of_nat (length key) :: uint8) = length key"
    using assms by (simp add: unat_of_nat)
  then show ?thesis by (simp add: parse_head_def data_head_def Let_def)
qed

definition client_data_address :: "string \<Rightarrow> uint32 \<Rightarrow> Address" where
  "client_data_address ip tid = ''tcp://'' @ ip @ '':'' @ to_string (unat (tid + kvs_port dataAccessClientPort))"

text \<open>
  Property C17: an object that one node holds in shared memory reaches another node unchanged. The
  request of the second node is answered to the address of the thread that asked; the answer is
  handed to the scheduler with its key and size, the object can then be read in the memory of the
  second node, and the first node still holds it. Names of objects have at most 255 characters.
\<close>

theorem data_transfer:
  assumes key: "length key < 256" "shm_valid key"
    and addr: "ch_key_address_cache ch key = Some addr" "addr \<noteq> []"
    and held: "shm_holds shm key v" "lens key = Some (word_of_nat (length v))" "length v + 256 < 2 ^ 32"
  shows "\<exists>req resp shm1 shm2 shm3.
    send_data_req_base key tid ch = [Data_Net addr req] \<and>
    handle_data_request lens req shm = Ok ([Data_Net (client_data_address (ch_ip ch) tid) resp], shm1) \<and>
    shm_holds shm1 key v \<and>
    handle_data_response resp local = Ok (empty_recv\<lparr>rm_msg_type := DataResp, rm_data_key := key,
      rm_data_size := word_of_nat (length v)\<rparr>, shm2) \<and>
    read_shm_obj key (length v) shm2 = Ok (v, shm3)"
proof -
  let ?req = "data_head key @ client_data_address (ch_ip ch) tid"
  have n: "unat (word_of_nat (length v) :: uint32) = length v" using held(3) by (simp add: unat_of_nat)
  have v: "v \<noteq> []" using held(1) by (simp add: shm_holds_def)
  have w: "(word_of_nat (length v) :: uint32) \<noteq> 0"
  proof
    assume "(word_of_nat (length v) :: uint32) = 0"
    then have "unat (word_of_nat (length v) :: uint32) = 0" by simp
    with n v show False by simp
  qed
  obtain ptr shm1 where op: "open_shm_obj key (length v) shm = (ptr, shm1)" by fastforce
  obtain shm1' where rd: "read_shm_obj key (length v) shm = Ok (v, shm1')" using shm.get_holds [OF held(1)] by blast
  have rd1: "shm_read ptr (length v) shm1 = Ok v" using rd op by (auto simp: read_shm_obj_def)
  have keep: "shm_holds shm1 key v" by (rule open_keeps [OF held(1) op])
  have ans: "handle_data_request lens ?req shm =
      Ok ([Data_Net (client_data_address (ch_ip ch) tid) (data_head key @ v)], shm1)"
    using held(2,3) key(1) w
    by (simp add: handle_data_request_def parse_head_data_head get_shm_obj_def n op rd1)
  obtain shm2 shm3 where cp: "copy_to_shm_obj key v local = Ok shm2" "read_shm_obj key (length v) shm2 = Ok (v, shm3)"
    using shm.read_back [OF key(2) v] by blast
  have "handle_data_response (data_head key @ v) local = Ok (empty_recv\<lparr>rm_msg_type := DataResp,
      rm_data_key := key, rm_data_size := word_of_nat (length v)\<rparr>, shm2)"
    using key(1) cp(1) by (simp add: handle_data_response_def parse_head_data_head n Let_def)
  moreover have "send_data_req_base key tid ch = [Data_Net addr ?req]"
    using addr by (simp add: send_data_req_base_def get_key_address_def client_data_address_def Let_def)
  ultimately show ?thesis using ans keep cp(2) by blast
qed

definition ex_helper :: CommHelper where
  "ex_helper = (new_CommHelper [] ''n2'' 2 [])\<lparr>ch_key_address_cache := [''b|k'' \<mapsto> ''tcp://n1:7'']\<rparr>"

definition ex_objects :: shm_store where
  "ex_objects = [shm_name ''b|k'' \<mapsto> ''hello'' @ replicate 11 (CHR 0x00)]"

theorem data_transfer_witness:
  "\<exists>req resp shm1 shm2 shm3.
    send_data_req_base ''b|k'' 1 ex_helper = [Data_Net ''tcp://n1:7'' req] \<and>
    handle_data_request [''b|k'' \<mapsto> 5] req ex_objects = Ok ([Data_Net (client_data_address ''n2'' 1) resp], shm1) \<and>
    handle_data_response resp Map.empty = Ok (empty_recv\<lparr>rm_msg_type := DataResp, rm_data_key := ''b|k'',
      rm_data_size := 5\<rparr>, shm2) \<and>
    read_shm_obj ''b|k'' 5 shm2 = Ok (''hello'', shm3)"
proof -
  have v: "shm_valid ''b|k''" by (simp add: shm_valid_def c_str_def)
  have h: "shm_holds ex_objects ''b|k'' ''hello''" using v by (simp add: shm_holds_def ex_objects_def object_bytes_def)
  have ch: "ch_key_address_cache ex_helper ''b|k'' = Some ''tcp://n1:7''" "ch_ip ex_helper = ''n2''"
    by (simp_all add: ex_helper_def new_CommHelper_def)
  have len: "length ''hello'' = 5" "length ''b|k'' < 256" "''tcp://n1:7'' \<noteq> []" by simp_all
  from data_transfer [OF len(2) v ch(1) len(3) h, of "[''b|k'' \<mapsto> 5]" 1 Map.empty] show ?thesis
    unfolding ch(2) len(1) by (simp del: list.size) blast
qed

section \<open>Threads in turn\<close>

text \<open>The counter of the helper, as every operation leaves it.\<close>

definition io_ok :: "CommHelper \<Rightarrow> bool" where
  "io_ok ch \<longleftrightarrow> 0 < ch_io_thread_count ch \<and>
     (ch_io_thread_id ch < ch_io_thread_count ch \<or> ch_io_thread_count ch = 1 \<and> ch_io_thread_id ch = 1)"

lemma io_ok_new: "0 < n \<Longrightarrow> io_ok (new_CommHelper routing ip n clients)"
  by (simp add: io_ok_def new_CommHelper_def)

lemma next_thread:
  fixes n i :: uint32
  assumes "i < n"
  shows "unat (i + 1) = unat i + 1" and "(i + 1) mod n = 0 \<longleftrightarrow> i + 1 = n"
proof -
  have less: "unat i < unat n" using assms by (simp add: word_less_nat_alt)
  have "unat n < 2 ^ 32" using unsigned_less [of n, where ?'a = nat] by simp
  with less have *: "unat i + 1 < 2 ^ 32" by simp
  then show u: "unat (i + 1) = unat i + 1" by (simp add: unat_word_ariths unat_of_nat)
  have "(i + 1) mod n = 0 \<longleftrightarrow> unat ((i + 1) mod n) = 0" by (simp add: unat_eq_zero)
  also have "\<dots> \<longleftrightarrow> (unat i + 1) mod unat n = 0" by (simp only: unat_mod u)
  also have "\<dots> \<longleftrightarrow> unat i + 1 = unat n"
    using less by (cases "unat i + 1 = unat n") auto
  also have "\<dots> \<longleftrightarrow> i + 1 = n" by (simp add: word_unat_eq_iff u)
  finally show "(i + 1) mod n = 0 \<longleftrightarrow> i + 1 = n" .
qed

lemma get_io_thread_id_ok:
  assumes "io_ok ch"
  shows "\<exists>i ch'. get_io_thread_id True ch = Ok (i, ch') \<and> ch' = ch\<lparr>ch_io_thread_id := i\<rparr> \<and> io_ok ch' \<and> 1 \<le> i \<and>
    (i < ch_io_thread_count ch \<longleftrightarrow> 1 < ch_io_thread_count ch)"
proof (cases "ch_io_thread_count ch = 1")
  case True
  then show ?thesis by (simp add: get_io_thread_id_def io_ok_def Let_def)
next
  case False
  let ?n = "ch_io_thread_count ch" and ?i = "ch_io_thread_id ch"
  have lt: "?i < ?n" "?n \<noteq> 0" using assms False by (auto simp: io_ok_def word_neq_0_conv)
  have pos: "0 < ?n" using assms by (simp add: io_ok_def)
  have "unat ?n \<noteq> 0" "unat ?n \<noteq> unat (1 :: uint32)"
    using lt(2) False by (simp_all only: unat_eq_zero word_unat_eq_iff [symmetric] not_False_eq_True)
  then have one: "1 < ?n" by (simp add: word_less_nat_alt)
  note nx = next_thread [OF lt(1)]
  show ?thesis
  proof (cases "?i + 1 = ?n")
    case True
    then show ?thesis using nx lt one pos by (simp add: get_io_thread_id_def io_ok_def Let_def)
  next
    case False
    have "?i + 1 < ?n" using False nx(1) lt(1) by (simp add: word_less_nat_alt word_unat_eq_iff)
    moreover have "1 \<le> ?i + 1" by (simp add: word_le_nat_alt nx(1))
    ultimately show ?thesis using nx lt one pos False by (simp add: get_io_thread_id_def io_ok_def Let_def)
  qed
qed

text \<open>
  The address that a node announces for an object is that of an additional
  input/output thread, and the counter stays in range, if there is more than one thread. With a
  single thread the announced port is that of a second thread, which nobody has bound.
\<close>

lemma announced_address:
  assumes "io_ok ch"
  shows "\<exists>i ch'. get_data_server_addr True ch =
      Ok (''tcp://'' @ ch_ip ch @ '':'' @ to_string (unat (i + kvs_port dataAccessServerPort)), ch') \<and>
    io_ok ch' \<and> 1 \<le> i \<and> (i < ch_io_thread_count ch \<longleftrightarrow> 1 < ch_io_thread_count ch)"
  using get_io_thread_id_ok [OF assms] by (auto simp: get_data_server_addr_def)

text \<open>With more than one thread, work is put into the queue of an existing one.\<close>

lemma offload_queues:
  assumes "io_ok ch" and "1 < ch_io_thread_count ch"
    and "length (ch_secondary_queues ch) = unat (ch_io_thread_count ch) - 1"
  shows "\<exists>i ch'. i < length (ch_secondary_queues ch) \<and> offload msg base ch = Ok ([], ch') \<and> io_ok ch' \<and>
    ch_secondary_queues ch' = (ch_secondary_queues ch)[i := ch_secondary_queues ch ! i @ [msg]]"
proof -
  obtain i where i: "get_io_thread_id True ch = Ok (i, ch\<lparr>ch_io_thread_id := i\<rparr>)" "io_ok (ch\<lparr>ch_io_thread_id := i\<rparr>)"
    "1 \<le> i" "i < ch_io_thread_count ch"
    using get_io_thread_id_ok [OF assms(1)] assms(2) by blast
  then have u: "1 \<le> unat i" "unat i < unat (ch_io_thread_count ch)" by (simp_all add: word_le_nat_alt word_less_nat_alt)
  then have ne: "i \<noteq> 0" by auto
  have sub: "unat (i - 1) = unat i - 1" using i(3) by (simp add: unat_sub)
  have "unat (i - 1) < length (ch_secondary_queues ch)" using u assms(3) sub by simp
  with i ne assms(2) show ?thesis
    by (intro exI [of _ "unat (i - 1)"])
      (auto simp: offload_def nth_res_def Let_def io_ok_def)
qed

section \<open>The registry\<close>

text \<open>Every pointer to a trigger points to one; \<open>n\<close> is the number of triggers.\<close>

definition ptrs_ok :: "nat \<Rightarrow> SchedRegistry \<Rightarrow> bool" where
  "ptrs_ok n rg \<longleftrightarrow> (\<forall>b. list_all (\<lambda>p. p < n) (map_at [] (rg_bucket_triggers rg) b)) \<and>
     (\<forall>f. list_all (\<lambda>m. rt_trigger_ptr m < n) (map_at [] (rg_func_trigger_timeout rg) f))"

definition reg_ok :: "SchedRegistry \<Rightarrow> bool" where
  "reg_ok rg \<longleftrightarrow> ptrs_ok (length (rg_triggers rg)) rg"

lemma length_update_triggers [simp]: "length (rg_triggers (update_triggers f ptrs rg)) = length (rg_triggers rg)"
proof -
  have "length (fold (\<lambda>p trs. trs[p := f p (trs ! p)]) ptrs trs) = length trs" for trs
    by (induction ptrs arbitrary: trs) auto
  then show ?thesis by (simp add: update_triggers_def)
qed

lemma update_triggers_simps [simp]:
  "rg_bucket_triggers (update_triggers f ptrs rg) = rg_bucket_triggers rg"
  "rg_func_trigger_timeout (update_triggers f ptrs rg) = rg_func_trigger_timeout rg"
  "rg_func_app (update_triggers f ptrs rg) = rg_func_app rg"
  "rg_app_info (update_triggers f ptrs rg) = rg_app_info rg"
  "rg_bucket_app (update_triggers f ptrs rg) = rg_bucket_app rg"
  by (simp_all add: update_triggers_def)

lemma reg_ok_update_triggers [simp]: "reg_ok (update_triggers f ptrs rg) = reg_ok rg"
  by (simp add: reg_ok_def ptrs_ok_def)

lemma add_hint_simps [simp]:
  "rg_triggers (add_hint p h rg) = rg_triggers rg"
  "rg_bucket_triggers (add_hint p h rg) = rg_bucket_triggers rg"
  by (simp_all add: add_hint_def Let_def)

lemma fold_add_hint_simps [simp]:
  "rg_triggers (fold (add_hint p) hints rg) = rg_triggers rg"
  "rg_bucket_triggers (fold (add_hint p) hints rg) = rg_bucket_triggers rg"
  by (induction hints arbitrary: rg) simp_all

lemma add_hints_ptrs: "ptrs_ok n rg \<Longrightarrow> p < n \<Longrightarrow> ptrs_ok n (fold (add_hint p) hints rg)"
  by (induction hints arbitrary: rg) (auto simp: ptrs_ok_def add_hint_def Let_def)

lemma ptrs_ok_mono: "ptrs_ok n rg \<Longrightarrow> n \<le> m \<Longrightarrow> ptrs_ok m rg"
  unfolding ptrs_ok_def by (meson list.pred_mono_strong order_less_le_trans)

lemma install_trigger_ok:
  assumes "reg_ok rg"
  shows "reg_ok (install_trigger entity tr rg)"
proof -
  let ?n = "length (rg_triggers rg)"
  have n: "length (rg_triggers (install_trigger entity tr rg)) = Suc ?n" by (simp add: install_trigger_def Let_def)
  have "ptrs_ok (Suc ?n) rg" using ptrs_ok_mono assms by (auto simp: reg_ok_def)
  then have "ptrs_ok (Suc ?n) (install_trigger entity tr rg)"
    unfolding install_trigger_def Let_def
    by (intro add_hints_ptrs) (auto simp: ptrs_ok_def list_all_append)
  then show ?thesis by (simp add: reg_ok_def n)
qed

lemma reg_ok_cong:
  "rg_triggers rg' = rg_triggers rg \<Longrightarrow> rg_bucket_triggers rg' = rg_bucket_triggers rg \<Longrightarrow>
   rg_func_trigger_timeout rg' = rg_func_trigger_timeout rg \<Longrightarrow> reg_ok rg' = reg_ok rg"
  by (simp add: reg_ok_def ptrs_ok_def)

lemma add_function_ok: "reg_ok (add_function app f rg) = reg_ok rg"
  by (rule reg_ok_cong) (simp_all add: add_function_def Let_def)

lemma add_direct_dep_ok: "reg_ok (add_direct_dep app f g rg) = reg_ok rg"
  by (rule reg_ok_cong) (simp_all add: add_direct_dep_def Let_def)

lemma fold_keeps: "P s \<Longrightarrow> (\<And>x s. P s \<Longrightarrow> P (f x s)) \<Longrightarrow> P (fold f xs s)"
  by (induction xs arbitrary: s) auto

lemma add_dependency_ok: "add_dependency app dep rg = Ok rg' \<Longrightarrow> reg_ok rg \<Longrightarrow> reg_ok rg'"
  by (auto simp: add_dependency_def add_direct_dep_ok split: if_splits intro!: fold_keeps [of reg_ok])

lemma add_entity_ok: "reg_ok (fst acc) \<Longrightarrow> reg_ok (fst (add_entity env app th entity acc))"
  by (cases acc)
    (auto simp: add_entity_def Let_def reg_ok_def ptrs_ok_def split: option.splits
      intro!: install_trigger_ok [unfolded reg_ok_def ptrs_ok_def])

lemma clear_entity_ok: "reg_ok rg \<Longrightarrow> reg_ok (clear_entity entity rg)"
  by (simp add: clear_entity_def Let_def) (simp add: reg_ok_def ptrs_ok_def)

lemma erase_named_subset: "erase_named trs name ps = Ok qs \<Longrightarrow> set qs \<subseteq> set ps"
  by (induction ps arbitrary: qs) (fastforce split: if_splits)+

lemma delete_entity_ok: "delete_entity entity rg = Ok rg' \<Longrightarrow> reg_ok rg \<Longrightarrow> reg_ok rg'"
proof -
  assume d: "delete_entity entity rg = Ok rg'" and ok: "reg_ok rg"
  let ?old = "map_at [] (rg_bucket_triggers rg) (te_bucket_name entity)"
  obtain ptrs where e: "erase_named (rg_triggers rg) (te_trigger_name entity) ?old = Ok ptrs"
    and rg': "rg' = rg\<lparr>rg_bucket_triggers := (rg_bucket_triggers rg)(te_bucket_name entity \<mapsto> ptrs)\<rparr>"
    using d by (auto simp: delete_entity_def Let_def)
  have "list_all (\<lambda>p. p < length (rg_triggers rg)) ?old" using ok by (simp add: reg_ok_def ptrs_ok_def)
  then have "list_all (\<lambda>p. p < length (rg_triggers rg)) ptrs"
    using erase_named_subset [OF e] by (auto simp: list_all_iff)
  then show "reg_ok rg'" using ok by (simp add: rg' reg_ok_def ptrs_ok_def)
qed

text \<open>What each part of the message keeps of the registry, the whole message keeps.\<close>

lemma handle_coord_msg_rule:
  assumes "handle_coord_msg env msg rg ch = Ok (rg', ch')" and "P rg"
    and "\<And>app f rg. P rg \<Longrightarrow> P (add_function app f rg)"
    and "\<And>app dep rg rg'. add_dependency app dep rg = Ok rg' \<Longrightarrow> P rg \<Longrightarrow> P rg'"
    and "\<And>app th entity acc. P (fst acc) \<Longrightarrow> P (fst (add_entity env app th entity acc))"
    and "\<And>entity rg. P rg \<Longrightarrow> P (clear_entity entity rg)"
    and "\<And>entity rg rg'. delete_entity entity rg = Ok rg' \<Longrightarrow> P rg \<Longrightarrow> P rg'"
  shows "P rg'"
proof -
  have 0: "P (fold (add_function app) fs rg)" for app fs by (rule fold_keeps [of P]) (simp_all add: assms(2,3))
  have 1: "P (fst (fold (add_entity env app th) es (rg2, ch2)))" if "P rg2" for app th es rg2 ch2
    by (rule fold_keeps [of "\<lambda>acc. P (fst acc)"]) (simp_all add: that assms(5))
  have 2: "P (fold clear_entity es rg)" for es by (rule fold_keeps [of P]) (simp_all add: assms(2,6))
  consider (add) "uc_msg_type msg = 0" | (clear) "uc_msg_type msg = 1" | (delete) "uc_msg_type msg = 2"
    | (other) "uc_msg_type msg \<noteq> 0" "uc_msg_type msg \<noteq> 1" "uc_msg_type msg \<noteq> 2" by blast
  then show ?thesis
  proof cases
    case add
    let ?rg1 = "fold (add_function (uc_app_name msg)) (uc_functions msg) rg"
    obtain rg2 where d: "res_fold (add_dependency (uc_app_name msg)) (uc_dependencies msg) ?rg1 = Ok rg2"
      and e: "(rg', ch') = fold (add_entity env (uc_app_name msg) (new_thread (uc_ip msg) (uc_thread_id msg)))
        (uc_triggers msg) (rg2, ch\<lparr>ch_app_coord_map := (ch_app_coord_map ch)(uc_app_name msg \<mapsto>
          new_thread (uc_ip msg) (uc_thread_id msg))\<rparr>)"
      using assms(1) add by (auto simp: handle_coord_msg_def Let_def)
    have "P rg2" by (rule res_fold_invariant [OF d, of P]) (auto simp: 0 intro: assms(4))
    from 1 [OF this] show ?thesis by (metis e fst_conv)
  next
    case clear
    then show ?thesis using assms(1) 2 by (auto simp: handle_coord_msg_def)
  next
    case delete
    then have "res_fold delete_entity (uc_triggers msg) rg = Ok rg'" using assms(1) by (auto simp: handle_coord_msg_def)
    then show ?thesis by (rule res_fold_invariant [of _ _ _ _ P]) (auto simp: assms(2) intro: assms(7))
  next
    case other
    then show ?thesis using assms(1,2) by (auto simp: handle_coord_msg_def)
  qed
qed

lemma handle_coord_msg_ok: "handle_coord_msg env msg rg ch = Ok (rg', ch') \<Longrightarrow> reg_ok rg \<Longrightarrow> reg_ok rg'"
  by (erule handle_coord_msg_rule [of _ _ _ _ _ _ reg_ok])
    (simp_all add: add_function_ok add_entity_ok clear_entity_ok add_dependency_ok delete_entity_ok)

end
