(* ===== verification/Ph_Sched_Laws.thy ===== *)
theory Ph_Sched_Laws
  imports Ph_Scheduler Ph_Comm_Laws Ph_Trigger_Rerun
begin

text \<open>
  Scheduling on one node: where a call goes, that the loop over the queue of checks ends, and what
  becomes of a delayed call.
\<close>

section \<open>What an operation leaves alone\<close>

lemma real_data_args_frame:
  "real_data_args flag args s = Ok (r, s') \<Longrightarrow> \<exists>kl shm. s' = s\<lparr>ss_key_len := kl, ss_shm := shm\<rparr>"
proof (induction flag args s arbitrary: r s' rule: real_data_args.induct)
  case (1 flag s)
  then show ?case by (intro exI [of _ "ss_key_len s"] exI [of _ "ss_shm s"]) simp
next
  case (2 flag bucket key sz rest s)
  let ?key = "bucket @ kDelimiter @ key"
  let ?n = "map_at 0 (ss_key_len s) ?key"
  obtain data shm args where rd: "read_shm_obj ?key (unat ?n) (ss_shm s) = Ok (data, shm)"
    and rest: "real_data_args flag rest (s\<lparr>ss_key_len := map_touch 0 (ss_key_len s) ?key, ss_shm := shm\<rparr>) = Ok (args, s')"
    using "2.prems" by (auto simp: Let_def)
  from "2.IH" [OF refl refl rest] show ?case by (auto intro: exI)
qed auto

lemma data_args_vec_frame:
  "data_args_vec flag argss s = Ok (r, s') \<Longrightarrow> \<exists>kl shm. s' = s\<lparr>ss_key_len := kl, ss_shm := shm\<rparr>"
proof (induction argss arbitrary: s r)
  case Nil
  then show ?case by (intro exI [of _ "ss_key_len s"] exI [of _ "ss_shm s"]) simp
next
  case (Cons args argss)
  then obtain a s1 as where 1: "real_data_args flag args s = Ok (a, s1)" and 2: "data_args_vec flag argss s1 = Ok (as, s')"
    by auto
  obtain kl shm kl' shm' where "s1 = s\<lparr>ss_key_len := kl, ss_shm := shm\<rparr>" "s' = s1\<lparr>ss_key_len := kl', ss_shm := shm'\<rparr>"
    using real_data_args_frame [OF 1] Cons.IH [OF 2] by blast
  then have "s' = s\<lparr>ss_key_len := kl', ss_shm := shm'\<rparr>" by simp
  then show ?case by blast
qed

lemma via_helper_frame: "via_helper f s = Ok s' \<Longrightarrow> \<exists>ch out. s' = s\<lparr>ss_ch := ch, ss_out := out\<rparr>"
  by (auto simp: via_helper_def)

lemma forward_frame:
  assumes "forward_call_via_helper session app names argss flag s = Ok s'"
  shows "\<exists>kl shm ch out. s' = s\<lparr>ss_key_len := kl, ss_shm := shm, ss_ch := ch, ss_out := out\<rparr>"
proof -
  consider f where "via_helper f s = Ok s'"
    | f r s1 where "data_args_vec flag argss s = Ok (r, s1)" "via_helper f s1 = Ok s'"
    using assms by (auto simp: forward_call_via_helper_def Let_def split: if_splits)
  then show ?thesis
  proof cases
    case 1
    then obtain ch out where "s' = s\<lparr>ss_ch := ch, ss_out := out\<rparr>" using via_helper_frame by blast
    then have "s' = s\<lparr>ss_key_len := ss_key_len s, ss_shm := ss_shm s, ss_ch := ch, ss_out := out\<rparr>" by simp
    then show ?thesis by blast
  next
    case 2
    obtain kl shm ch out where "s1 = s\<lparr>ss_key_len := kl, ss_shm := shm\<rparr>" "s' = s1\<lparr>ss_ch := ch, ss_out := out\<rparr>"
      using data_args_vec_frame [OF 2(1)] via_helper_frame [OF 2(2)] by blast
    then have "s' = s\<lparr>ss_key_len := kl, ss_shm := shm, ss_ch := ch, ss_out := out\<rparr>" by simp
    then show ?thesis by blast
  qed
qed

lemma note_rerun_simps [simp]:
  "ss_out (note_rerun now sess f args flag m s) = ss_out s"
  "ss_executor_status (note_rerun now sess f args flag m s) = ss_executor_status s"
  "ss_executors (note_rerun now sess f args flag m s) = ss_executors s"
  "ss_delay_queue (note_rerun now sess f args flag m s) = ss_delay_queue s"
  "ss_inflight (note_rerun now sess f args flag m s) = ss_inflight s"
  "ss_key_call_ids (note_rerun now sess f args flag m s) = ss_key_call_ids s"
  "ss_call_id (note_rerun now sess f args flag m s) = ss_call_id s"
  "ss_function_executor (note_rerun now sess f args flag m s) = ss_function_executor s"
  by (simp_all add: note_rerun_def Let_def)

lemma fold_note_rerun_simps [simp]:
  "ss_out (fold (note_rerun now sess f args flag) ms s) = ss_out s"
  "ss_executor_status (fold (note_rerun now sess f args flag) ms s) = ss_executor_status s"
  "ss_executors (fold (note_rerun now sess f args flag) ms s) = ss_executors s"
  "ss_delay_queue (fold (note_rerun now sess f args flag) ms s) = ss_delay_queue s"
  "ss_inflight (fold (note_rerun now sess f args flag) ms s) = ss_inflight s"
  "ss_key_call_ids (fold (note_rerun now sess f args flag) ms s) = ss_key_call_ids s"
  "ss_call_id (fold (note_rerun now sess f args flag) ms s) = ss_call_id s"
  "ss_function_executor (fold (note_rerun now sess f args flag) ms s) = ss_function_executor s"
  by (induction ms arbitrary: s) simp_all

section \<open>The choice of an executor\<close>

text \<open>
  The executors that can take a call: the empty ones, and the available ones that have run the
  function before, or any function if executors are shared.
\<close>

definition can_take :: "bool \<Rightarrow> uint8 list \<Rightarrow> (uint8 \<times> uint8) list \<Rightarrow> uint8 \<Rightarrow> bool" where
  "can_take shared warm status_map e \<longleftrightarrow>
     (\<exists>status. (e, status) \<in> set status_map \<and> (status = 0 \<or> status = 1 \<and> (shared \<or> e \<in> set warm)))"

lemma can_take_Cons:
  "can_take shared warm ((e', status) # m) e \<longleftrightarrow>
   e = e' \<and> (status = 0 \<or> status = 1 \<and> (shared \<or> e \<in> set warm)) \<or> can_take shared warm m e"
  by (auto simp: can_take_def)

lemma scan_executors_sound:
  assumes "scan_executors shared warm m = (found, cold)"
  shows "(found = Some e \<longrightarrow> can_take shared warm m e) \<and> (e \<in> set cold \<longrightarrow> can_take shared warm m e) \<and>
    (found = None \<longrightarrow> can_take shared warm m e \<longrightarrow> e \<in> set cold)"
  using assms
proof (induction m arbitrary: found cold)
  case Nil
  then show ?case by (auto simp: can_take_def)
next
  case (Cons p m)
  obtain e' status where p: "p = (e', status)" by fastforce
  obtain found' cold' where r: "scan_executors shared warm m = (found', cold')" by fastforce
  show ?case using Cons.prems Cons.IH [OF r] by (auto simp: p r can_take_Cons split: if_splits)
qed

lemma choose_executor_Some:
  assumes "choose_executor rnd shared warm m seed = (Some (e, c), seed')"
  shows "can_take shared warm m e"
proof -
  obtain found cold where r: "scan_executors shared warm m = (found, cold)" by fastforce
  obtain i sd where rnd: "rnd seed = (i, sd)" by fastforce
  show ?thesis
  proof (cases found)
    case None
    then have "cold \<noteq> []" "e = cold ! (i mod length cold)"
      using assms by (auto simp: choose_executor_def r rnd split: if_splits)
    then have "e \<in> set cold" by simp
    then show ?thesis using scan_executors_sound [OF r, of e] by blast
  next
    case (Some e')
    then show ?thesis using assms scan_executors_sound [OF r, of e] by (auto simp: choose_executor_def r)
  qed
qed

lemma choose_executor_None:
  assumes "choose_executor rnd shared warm m seed = (None, seed')"
  shows "\<not> can_take shared warm m e" and "seed' = seed"
proof -
  obtain found cold where r: "scan_executors shared warm m = (found, cold)" by fastforce
  have *: "found = None" "cold = []" "seed' = seed"
    using assms by (auto simp: choose_executor_def r split: option.splits if_splits prod.splits)
  show "\<not> can_take shared warm m e" using scan_executors_sound [OF r, of e] *(1,2) by auto
  show "seed' = seed" by (rule *)
qed

lemma avail_num_update:
  assumes "umap_ok m" and "(e, status) \<in> set m" and "executor_avail status"
  shows "Suc (get_avail_executor_num (AList.update e 2 m)) = get_avail_executor_num m"
  using assms
proof (induction m)
  case (Cons p m)
  show ?case
  proof (cases "fst p = e")
    case True
    have "p = (e, status)"
    proof (rule ccontr)
      assume "p \<noteq> (e, status)"
      then have "(e, status) \<in> set m" using Cons.prems(2) by auto
      then have "e \<in> fst ` set m" by force
      then show False using Cons.prems(1) True by auto
    qed
    then show ?thesis using Cons.prems(3) by (simp add: get_avail_executor_num_def executor_avail_def)
  next
    case False
    then have "(e, status) \<in> set m" using Cons.prems(2) by auto
    then have "Suc (get_avail_executor_num (AList.update e 2 m)) = get_avail_executor_num m"
      using Cons.IH Cons.prems(1,3) by simp
    then show ?thesis using False by (cases p) (auto simp: get_avail_executor_num_def)
  qed
qed simp

lemma can_take_avail: "can_take shared warm m e \<Longrightarrow> \<exists>status. (e, status) \<in> set m \<and> executor_avail status"
  by (auto simp: can_take_def executor_avail_def)

section \<open>Where a call goes\<close>

text \<open>The table of executors has one entry per executor, and every executor of it has a channel.\<close>

definition status_ok :: "SchedState \<Rightarrow> bool" where
  "status_ok s \<longleftrightarrow> umap_ok (ss_executor_status s) \<and>
     list_all (\<lambda>(e, _). unat e < ss_executors s) (ss_executor_status s)"

definition delayed_call :: "time \<Rightarrow> string \<Rightarrow> string \<Rightarrow> string \<Rightarrow> string list \<Rightarrow> int \<Rightarrow> DelayFunctionCall" where
  "delayed_call now session_id app func args flag =
     \<lparr>dc_session_id = session_id, dc_app_name = app, dc_func_name = func, dc_func_args = args, dc_arg_flag = flag,
      dc_trigger_time = now\<rparr>"

lemma update_all:
  "list_all (\<lambda>(k, v). P k) m \<Longrightarrow> (k, v) \<in> set m \<Longrightarrow> list_all (\<lambda>(k, v). P k) (AList.update k w m)"
  by (induction m) (auto simp: list_all_iff split: if_splits)

lemma schedule_taken:
  assumes "status_ok s"
    and "choose_executor (he_rand env) (sc_shared conf) (map_at [] (ss_function_executor s) func)
           (ss_executor_status s) (ss_ram_seed s) = (Some (e, cold), seed)"
  shows "\<exists>s'. schedule_func_call conf env session app func args flag s = Ok s' \<and>
    ss_out s' = ss_out s @ [To_Executor e (call_message flag (client_of session s = []) session func args)] \<and>
    ss_executor_status s' = AList.update e 2 (ss_executor_status s) \<and> ss_executors s' = ss_executors s \<and>
    ss_delay_queue s' = ss_delay_queue s \<and> ss_inflight s' = ss_inflight s \<and>
    ss_key_call_ids s' = ss_key_call_ids s \<and> ss_call_id s' = ss_call_id s"
proof -
  obtain status where "(e, status) \<in> set (ss_executor_status s)"
    using choose_executor_Some [OF assms(2)] by (auto simp: can_take_def)
  then have "unat e < ss_executors s" using assms(1) by (auto simp: status_ok_def list_all_iff)
  then show ?thesis
    by (simp add: schedule_func_call_def Let_def assms(2) start_call_def send_to_executer_def client_of_def)
qed

lemma schedule_not_taken:
  assumes "choose_executor (he_rand env) (sc_shared conf) (map_at [] (ss_function_executor s) func)
           (ss_executor_status s) (ss_ram_seed s) = (None, seed)"
  shows "schedule_func_call conf env session app func args flag s =
    (if 0 < sc_delay_time conf
     then Ok (s\<lparr>ss_delay_queue := ss_delay_queue s @ [delayed_call (he_now env) session app func args flag]\<rparr>)
     else if sc_reject conf then Ok s
     else res_bind (if 0 < flag then nth_res args 0 else Ok []) (\<lambda>first.
          forward_call_via_helper session app [func]
            [if 0 < flag \<and> CHR ''|'' \<in> set first then flatten_args args else args] flag s))"
  using assms by (simp add: schedule_func_call_def Let_def delayed_call_def)

definition takes :: "sched_conf \<Rightarrow> SchedState \<Rightarrow> string \<Rightarrow> uint8 \<Rightarrow> bool" where
  "takes conf s func =
     can_take (sc_shared conf) (map_at [] (ss_function_executor s) func) (ss_executor_status s)"

lemma schedule_choice:
  obtains (taken) e cold seed where
      "choose_executor (he_rand env) (sc_shared conf) (map_at [] (ss_function_executor s) func)
           (ss_executor_status s) (ss_ram_seed s) = (Some (e, cold), seed)" and "takes conf s func e"
  | (not_taken) seed where
      "choose_executor (he_rand env) (sc_shared conf) (map_at [] (ss_function_executor s) func)
           (ss_executor_status s) (ss_ram_seed s) = (None, seed)" and "\<nexists>e. takes conf s func e"
proof -
  let ?c = "choose_executor (he_rand env) (sc_shared conf) (map_at [] (ss_function_executor s) func)
           (ss_executor_status s) (ss_ram_seed s)"
  obtain r seed where c: "?c = (r, seed)" by fastforce
  show thesis
  proof (cases r)
    case None
    with c have c': "?c = (None, seed)" by simp
    from not_taken [OF this] choose_executor_None(1) [OF c'] show thesis by (auto simp: takes_def)
  next
    case (Some p)
    with c have c': "?c = (Some (fst p, snd p), seed)" by simp
    from taken [OF this] choose_executor_Some [OF c'] show thesis by (simp add: takes_def)
  qed
qed

lemma schedule_func_call_spec_core:
  assumes "status_ok s" and "\<exists>e. takes conf s func e"
  shows "\<exists>e s'. takes conf s func e \<and> schedule_func_call conf env session app func args flag s = Ok s' \<and>
      ss_out s' = ss_out s @ [To_Executor e (call_message flag (client_of session s = []) session func args)] \<and>
      map_of (ss_executor_status s') = (map_of (ss_executor_status s))(e \<mapsto> 2) \<and>
      Suc (get_avail_executor_num (ss_executor_status s')) = get_avail_executor_num (ss_executor_status s) \<and>
      ss_delay_queue s' = ss_delay_queue s \<and> status_ok s'"
proof (cases rule: schedule_choice [of env conf s func])
  case (taken e cold seed)
  obtain status where st: "(e, status) \<in> set (ss_executor_status s)" "executor_avail status"
    using can_take_avail taken(2) unfolding takes_def by blast
  have u: "umap_ok (ss_executor_status s)" using assms by (simp add: status_ok_def)
  obtain s' where s': "schedule_func_call conf env session app func args flag s = Ok s'"
    "ss_out s' = ss_out s @ [To_Executor e (call_message flag (client_of session s = []) session func args)]"
    "ss_executor_status s' = AList.update e 2 (ss_executor_status s)" "ss_executors s' = ss_executors s"
    "ss_delay_queue s' = ss_delay_queue s"
    using schedule_taken [OF assms(1) taken(1)] by blast
  have "status_ok s'" using assms st(1) by (auto simp: status_ok_def s'(3,4) intro: update_all)
  then show ?thesis
    using s' taken(2) avail_num_update [OF u st] by (intro exI [of _ e] exI [of _ s']) (simp add: update_conv')
qed (use assms(2) in blast)

text \<open>
  Property C7: a call is sent to exactly one executor that is empty, or available and suited to the
  function, whenever there is one; that executor then counts as taken, and one executor less is
  free. Otherwise the call is put at the end of the delay queue, or dropped if extra requests are
  rejected, or forwarded, in this order of the configuration, and no executor changes.
\<close>

theorem schedule_func_call_spec:
  assumes "status_ok s"
  shows "if \<exists>e. takes conf s func e
    then \<exists>e s'. takes conf s func e \<and> schedule_func_call conf env session app func args flag s = Ok s' \<and>
      ss_out s' = ss_out s @ [To_Executor e (call_message flag (client_of session s = []) session func args)] \<and>
      map_of (ss_executor_status s') = (map_of (ss_executor_status s))(e \<mapsto> 2) \<and>
      Suc (get_avail_executor_num (ss_executor_status s')) = get_avail_executor_num (ss_executor_status s) \<and>
      ss_delay_queue s' = ss_delay_queue s \<and> status_ok s'
    else schedule_func_call conf env session app func args flag s =
      (if 0 < sc_delay_time conf
       then Ok (s\<lparr>ss_delay_queue := ss_delay_queue s @ [delayed_call (he_now env) session app func args flag]\<rparr>)
       else if sc_reject conf then Ok s
       else res_bind (if 0 < flag then nth_res args 0 else Ok []) (\<lambda>first.
            forward_call_via_helper session app [func]
              [if 0 < flag \<and> CHR ''|'' \<in> set first then flatten_args args else args] flag s))"
proof (cases "\<exists>e. takes conf s func e")
  case True
  then show ?thesis using schedule_func_call_spec_core [OF assms True] by simp
next
  case False
  show ?thesis
  proof (cases rule: schedule_choice [of env conf s func])
    case (not_taken seed)
    then show ?thesis using schedule_not_taken [OF not_taken(1)] False by simp
  qed (use False in blast)
qed

definition ex_henv :: "time \<Rightarrow> helper_env" where
  "ex_henv now = \<lparr>he_rand = (\<lambda>seed. (unat seed, seed + 1)), he_codec = ex_codec, he_values = item_value_codec, he_now = now,
                  he_cur_stamp = now + 1000\<rparr>"

definition ex_conf :: "uint32 \<Rightarrow> sched_conf" where
  "ex_conf delay = \<lparr>sc_delay_time = delay, sc_shared = False, sc_reject = False\<rparr>"

text \<open>A scheduler with two executors in the given states.\<close>

definition ex_sched :: "uint8 \<Rightarrow> uint8 \<Rightarrow> SchedState" where
  "ex_sched a b =
     \<lparr>ss_rg = empty_registry, ss_ch = ex_helper, ss_shm = Map.empty, ss_delay_queue = [],
      ss_key_len = Map.empty, ss_key_val = Map.empty, ss_session_client = Map.empty, ss_rerun_queue = [],
      ss_ram_seed = 3, ss_call_id = 0, ss_inflight = Map.empty, ss_key_call_ids = Map.empty,
      ss_remote_get = Map.empty, ss_kvs_put = Map.empty, ss_function_executor = Map.empty,
      ss_executor_status = [(0, a), (1, b)], ss_executors = 2, ss_report_start = 0, ss_out = []\<rparr>"

lemma ex_sched_ok: "status_ok (ex_sched a b)"
  by (simp add: status_ok_def ex_sched_def)

theorem schedule_func_call_spec_witness:
  "takes (ex_conf 0) (ex_sched 3 0) ''f'' 1 \<and>
   (\<exists>e s'. schedule_func_call (ex_conf 0) (ex_henv 0) ''s'' ''app'' ''f'' [''x''] 0 (ex_sched 3 0) = Ok s' \<and>
     ss_out s' = [To_Executor e (call_message 0 True ''s'' ''f'' [''x''])] \<and>
     map_of (ss_executor_status s') = (map_of [(0, 3), (1, 0)])(e \<mapsto> 2))"
proof -
  have t: "takes (ex_conf 0) (ex_sched 3 0) ''f'' 1" by (simp add: takes_def can_take_def ex_sched_def)
  then have ex: "\<exists>e. takes (ex_conf 0) (ex_sched 3 0) ''f'' e" by blast
  have ev: "ss_out (ex_sched 3 0) = []" "client_of ''s'' (ex_sched 3 0) = []"
    "ss_executor_status (ex_sched 3 0) = [(0, 3), (1, 0)]"
    by (simp_all add: ex_sched_def client_of_def)
  from schedule_func_call_spec [OF ex_sched_ok, of "ex_conf 0" 3 0 "''f''" "ex_henv 0" "''s''" "''app''" "[''x'']" 0]
  obtain e s' where "schedule_func_call (ex_conf 0) (ex_henv 0) ''s'' ''app'' ''f'' [''x''] 0 (ex_sched 3 0) = Ok s'"
    "ss_out s' = [To_Executor e (call_message 0 True ''s'' ''f'' [''x''])]"
    "map_of (ss_executor_status s') = (map_of [(0, 3), (1, 0)])(e \<mapsto> 2)"
    unfolding if_P [OF ex] ev by auto
  with t show ?thesis by blast
qed

section \<open>The queue of checks\<close>

abbreviation checks_sorted :: "SchedState \<Rightarrow> bool" where
  "checks_sorted s \<equiv> sorted (map rc_check_time (ss_rerun_queue s))"

lemma set_rerun_push [simp]: "set (rerun_push x xs) = insert x (set xs)"
  by (induction xs) auto

lemma sorted_rerun_push: "sorted (map rc_check_time xs) \<Longrightarrow> sorted (map rc_check_time (rerun_push x xs))"
  by (induction xs) (auto simp: less_imp_le intro: order_trans)

lemma note_rerun_sorted: "checks_sorted s \<Longrightarrow> checks_sorted (note_rerun now sess f args flag m s)"
  by (simp add: note_rerun_def Let_def sorted_rerun_push)

lemma fold_note_rerun_sorted: "checks_sorted s \<Longrightarrow> checks_sorted (fold (note_rerun now sess f args flag) ms s)"
  by (rule fold_keeps [of checks_sorted]) (simp_all add: note_rerun_sorted)

text \<open>
  What a sequence of scheduled calls does to the executors and the queue of checks: an executor is
  taken, or nothing changes.
\<close>

definition settles :: "SchedState \<Rightarrow> SchedState \<Rightarrow> bool" where
  "settles s s' \<longleftrightarrow> status_ok s' \<and> checks_sorted s' \<and>
     (get_avail_executor_num (ss_executor_status s') < get_avail_executor_num (ss_executor_status s) \<or>
      ss_executor_status s' = ss_executor_status s \<and> ss_rerun_queue s' = ss_rerun_queue s)"

lemma settles_trans: "settles s s' \<Longrightarrow> settles s' s'' \<Longrightarrow> settles s s''"
  by (auto simp: settles_def)

lemma schedule_sorted:
  assumes "choose_executor (he_rand env) (sc_shared conf) (map_at [] (ss_function_executor s) func)
           (ss_executor_status s) (ss_ram_seed s) = (Some (e, cold), seed)"
    and "checks_sorted s" and "schedule_func_call conf env session app func args flag s = Ok s'"
  shows "checks_sorted s'"
proof -
  let ?f = "fold (note_rerun (he_now env) session func args flag) (map_at [] (rg_func_trigger_timeout (ss_rg s)) func)"
  obtain s1 where s': "s' = ?f s1" and q: "ss_rerun_queue s1 = ss_rerun_queue s"
  proof (cases "unat e < ss_executors s")
    case True
    from assms(3) show thesis
      unfolding schedule_func_call_def Let_def assms(1) prod.case option.case start_call_def send_to_executer_def
      by (simp add: True) (drule sym, erule that, simp)
  next
    case False
    from assms(3) show thesis
      unfolding schedule_func_call_def Let_def assms(1) prod.case option.case start_call_def send_to_executer_def
      by (simp add: False)
  qed
  show ?thesis unfolding s' by (rule fold_note_rerun_sorted) (simp add: q assms(2))
qed

lemma schedule_settles:
  assumes "status_ok s" and "checks_sorted s" and "schedule_func_call conf env session app func args flag s = Ok s'"
  shows "settles s s'"
proof (cases rule: schedule_choice [of env conf s func])
  case (taken e cold seed)
  then have "\<exists>e. takes conf s func e" by blast
  with schedule_func_call_spec_core [OF assms(1) this, of env session app args flag] assms(3)
  have ok: "status_ok s'" and less: "Suc (get_avail_executor_num (ss_executor_status s')) =
      get_avail_executor_num (ss_executor_status s)"
    by auto
  have "checks_sorted s'" by (rule schedule_sorted [OF taken(1) assms(2,3)])
  with ok less show ?thesis by (simp add: settles_def)
next
  case (not_taken seed)
  have "\<exists>q kl shm ch out. s' = s\<lparr>ss_delay_queue := q, ss_key_len := kl, ss_shm := shm, ss_ch := ch, ss_out := out\<rparr>"
  proof -
    note eq = schedule_not_taken [OF not_taken(1), of session app args flag]
    consider q where "s' = s\<lparr>ss_delay_queue := q\<rparr>" | "s' = s"
      | argss where "forward_call_via_helper session app [func] argss flag s = Ok s'"
    proof (cases "0 < sc_delay_time conf")
      case True
      then have "s' = s\<lparr>ss_delay_queue := ss_delay_queue s @ [delayed_call (he_now env) session app func args flag]\<rparr>"
        using assms(3) eq by simp
      then show thesis by (rule that(1))
    next
      case no: False
      show thesis
      proof (cases "sc_reject conf")
        case True
        then have "s' = s" using no assms(3) eq by simp
        then show thesis by (rule that(2))
      next
        case False
        then have "\<exists>argss. forward_call_via_helper session app [func] argss flag s = Ok s'"
          using no assms(3) eq by (auto elim!: res_bind_OkE)
        then show thesis using that(3) by blast
      qed
    qed
    then show ?thesis
    proof cases
      case 1
      then have "s' = s\<lparr>ss_delay_queue := q, ss_key_len := ss_key_len s, ss_shm := ss_shm s, ss_ch := ss_ch s,
          ss_out := ss_out s\<rparr>" by simp
      then show ?thesis by blast
    next
      case 2
      then have "s' = s\<lparr>ss_delay_queue := ss_delay_queue s, ss_key_len := ss_key_len s, ss_shm := ss_shm s,
          ss_ch := ss_ch s, ss_out := ss_out s\<rparr>" by simp
      then show ?thesis by blast
    next
      case 3
      then obtain kl shm ch out where "s' = s\<lparr>ss_key_len := kl, ss_shm := shm, ss_ch := ch, ss_out := out\<rparr>"
        using forward_frame by blast
      then have "s' = s\<lparr>ss_delay_queue := ss_delay_queue s, ss_key_len := kl, ss_shm := shm, ss_ch := ch, ss_out := out\<rparr>"
        by simp
      then show ?thesis by blast
    qed
  qed
  with assms(1,2) show ?thesis by (auto simp: settles_def status_ok_def)
qed

lemma rerun_item_rank:
  assumes "status_ok s" and "checks_sorted s" and "ss_rerun_queue s \<noteq> []" and "rerun_item conf env item s = Ok s'"
  shows "status_ok s' \<and> checks_sorted s' \<and>
    ((get_avail_executor_num (ss_executor_status s'), length (ss_rerun_queue s')),
     (get_avail_executor_num (ss_executor_status s), length (ss_rerun_queue s))) \<in> less_than <*lex*> less_than"
proof -
  define metas where "metas = action_for_rerun (rc_session item) (rg_triggers (ss_rg s) ! rc_trigger_ptr item)"
  obtain s1 where f: "res_fold (\<lambda>meta s. schedule_func_call conf env (rc_session item)
      (map_at [] (rg_func_app (ss_rg s)) (tfm_func_name meta)) (tfm_func_name meta) (tfm_func_args meta)
      (tfm_arg_flag meta) s) metas s = Ok s1" and s': "s' = s1\<lparr>ss_rerun_queue := tl (ss_rerun_queue s1)\<rparr>"
    using assms(4) unfolding rerun_item_def metas_def [symmetric] by (elim res_bind_OkE) simp
  have "settles s s1"
  proof (rule res_fold_invariant [OF f, of "settles s"])
    show "settles s s" using assms(1,2) by (simp add: settles_def)
  next
    fix meta t t'
    assume st: "settles s t" and sch: "schedule_func_call conf env (rc_session item)
      (map_at [] (rg_func_app (ss_rg t)) (tfm_func_name meta)) (tfm_func_name meta) (tfm_func_args meta)
      (tfm_arg_flag meta) t = Ok t'"
    then have "settles t t'" by (intro schedule_settles [OF _ _ sch]) (simp_all add: settles_def)
    with st show "settles s t'" by (rule settles_trans)
  qed
  then show ?thesis
    using assms(3) by (auto simp: settles_def s' status_ok_def map_tl sorted_tl)
qed



section \<open>Delayed calls\<close>

lemma delayed_call_again:
  "delayed_call now (dc_session_id c) (dc_app_name c) (dc_func_name c) (dc_func_args c) (dc_arg_flag c) =
   c\<lparr>dc_trigger_time := now\<rparr>"
  by (simp add: delayed_call_def)

lemma run_delayed_step:
  assumes "0 < sc_delay_time conf" and "\<nexists>e. takes conf s (dc_func_name c) e" and "ss_delay_queue s = c # calls"
  shows "run_delayed conf env (Suc n) s =
    run_delayed conf env n (s\<lparr>ss_delay_queue := calls @ [c\<lparr>dc_trigger_time := he_now env\<rparr>]\<rparr>)"
proof (cases rule: schedule_choice [of env conf s "dc_func_name c"])
  case (not_taken seed)
  then show ?thesis
    using assms(1,3) by (simp add: schedule_not_taken [OF not_taken(1)] delayed_call_again)
qed (use assms(2) in blast)

text \<open>The delayed calls without their times; a turn only permutes them.\<close>

definition untimed :: "DelayFunctionCall list \<Rightarrow> DelayFunctionCall multiset" where
  "untimed calls = mset (map (\<lambda>c. c\<lparr>dc_trigger_time := 0\<rparr>) calls)"

lemma untimed_simps [simp]:
  "untimed (c # calls) = add_mset (c\<lparr>dc_trigger_time := 0\<rparr>) (untimed calls)"
  "untimed (xs @ ys) = untimed xs + untimed ys" "untimed [] = {#}"
  by (simp_all add: untimed_def)

lemma untimed_funcs: "untimed xs = untimed ys \<Longrightarrow> dc_func_name ` set xs = dc_func_name ` set ys \<and> length xs = length ys"
proof -
  assume eq: "untimed xs = untimed ys"
  have "image_mset dc_func_name (untimed zs) = mset (map dc_func_name zs)" for zs
    by (simp add: untimed_def multiset.map_comp comp_def)
  with eq have "mset (map dc_func_name xs) = mset (map dc_func_name ys)" by metis
  then show ?thesis using mset_eq_setD mset_eq_length by fastforce
qed

lemma run_delayed_requeues:
  assumes "0 < sc_delay_time conf" and "ss_delay_queue s = old @ new" and "length old \<le> n"
    and "\<forall>c \<in> set (old @ new). \<nexists>e. takes conf s (dc_func_name c) e" and "\<forall>c \<in> set new. dc_trigger_time c = he_now env"
  shows "\<exists>q. run_delayed conf env n s = Ok (s\<lparr>ss_delay_queue := q\<rparr>) \<and> (\<forall>c \<in> set q. dc_trigger_time c = he_now env) \<and>
    untimed q = untimed (old @ new)"
  using assms(2-5)
proof (induction n arbitrary: s old new)
  case 0
  then show ?case by (intro exI [of _ new]) simp
next
  case (Suc n)
  show ?case
  proof (cases "ss_delay_queue s")
    case Nil
    then show ?thesis using Suc.prems by (intro exI [of _ "[]"]) simp
  next
    case (Cons c calls)
    let ?c = "c\<lparr>dc_trigger_time := he_now env\<rparr>"
    obtain old' new' where calls: "calls = old' @ new'" "length old' \<le> n" "\<forall>c \<in> set new'. dc_trigger_time c = he_now env"
    proof (cases old)
      case Nil
      with that [of "[]" calls] Suc.prems Cons show ?thesis by auto
    next
      case (Cons d old')
      with that [of old' new] Suc.prems \<open>ss_delay_queue s = c # calls\<close> show ?thesis by auto
    qed
    have all: "set (old @ new) = insert c (set calls)" "untimed (old @ new) = untimed (c # calls)"
      using Cons Suc.prems(1) by (metis list.simps(15), metis)
    let ?s = "s\<lparr>ss_delay_queue := calls @ [?c]\<rparr>"
    have "\<exists>q. run_delayed conf env n ?s = Ok (?s\<lparr>ss_delay_queue := q\<rparr>) \<and> (\<forall>c \<in> set q. dc_trigger_time c = he_now env) \<and>
        untimed q = untimed (old' @ new' @ [?c])"
      by (rule Suc.IH) (use Suc.prems(3) calls all(1) in \<open>auto simp: takes_def\<close>)
    moreover have "run_delayed conf env (Suc n) s = run_delayed conf env n ?s"
      by (rule run_delayed_step [OF assms(1) _ Cons]) (use Suc.prems(3) all(1) in blast)
    ultimately show ?thesis using all(2) calls(1) by (simp del: run_delayed.simps)
  qed
qed

lemma delay_forwarding_requeues:
  assumes "0 < sc_delay_time conf" and "\<forall>c \<in> set (ss_delay_queue s). \<nexists>e. takes conf s (dc_func_name c) e"
    and "length (ss_delay_queue s) \<le> get_avail_executor_num (ss_executor_status s)"
    and "cast_us (he_cur_stamp env - he_now env) \<le> uint (sc_delay_time conf)"
  shows "\<exists>q. delay_forwarding conf env s = Ok (s\<lparr>ss_delay_queue := q\<rparr>) \<and> untimed q = untimed (ss_delay_queue s)"
proof (cases "ss_delay_queue s = []")
  case True
  then show ?thesis by (intro exI [of _ "[]"]) (simp add: delay_forwarding_def)
next
  case False
  obtain q where q: "run_delayed conf env (get_avail_executor_num (ss_executor_status s)) s = Ok (s\<lparr>ss_delay_queue := q\<rparr>)"
      "\<forall>c \<in> set q. dc_trigger_time c = he_now env" "untimed q = untimed (ss_delay_queue s)"
    using run_delayed_requeues [OF assms(1), of s "ss_delay_queue s" "[]" "get_avail_executor_num (ss_executor_status s)" env]
      assms(2,3) by auto
  have "expire_delayed conf env q s' = Ok (s'\<lparr>ss_delay_queue := q\<rparr>)" for s'
    using q(2) assms(4) by (cases q) auto
  with q False show ?thesis by (auto simp: delay_forwarding_def)
qed

text \<open>
  Property C38: delayed calls can starve. Let calls be delayed whose functions no executor may take, while at
  least as many executors are available, for other functions, as there are delayed calls. Then every turn of the
  loop queues all of them again with a new time stamp, and none is forwarded or started, however long they
  wait; all that is needed is that a turn itself does not last longer than the limit. (With no executor
  available the calls keep their time stamps and are forwarded.)
\<close>

theorem delayed_call_starves:
  assumes "0 < sc_delay_time conf" and "\<forall>c \<in> set (ss_delay_queue s). \<nexists>e. takes conf s (dc_func_name c) e"
    and "length (ss_delay_queue s) \<le> get_avail_executor_num (ss_executor_status s)"
    and "\<forall>env \<in> set envs. cast_us (he_cur_stamp env - he_now env) \<le> uint (sc_delay_time conf)"
  shows "\<exists>q. res_fold (delay_forwarding conf) envs s = Ok (s\<lparr>ss_delay_queue := q\<rparr>) \<and> untimed q = untimed (ss_delay_queue s)"
  using assms(2-4)
proof (induction envs arbitrary: s)
  case Nil
  have "s\<lparr>ss_delay_queue := ss_delay_queue s\<rparr> = s" by simp
  then show ?case by (metis res_fold.simps(1))
next
  case (Cons env envs)
  obtain q where q: "delay_forwarding conf env s = Ok (s\<lparr>ss_delay_queue := q\<rparr>)" "untimed q = untimed (ss_delay_queue s)"
    using delay_forwarding_requeues [OF assms(1) Cons.prems(1,2), of env] Cons.prems(3) by auto
  have len: "length q = length (ss_delay_queue s)" and funcs: "dc_func_name ` set q = dc_func_name ` set (ss_delay_queue s)"
    using untimed_funcs [OF q(2)] by simp_all
  have none: "\<nexists>e. takes conf s (dc_func_name c) e" if "c \<in> set q" for c
    using Cons.prems(1) funcs that by (metis (no_types, lifting) imageE imageI)
  have "\<exists>q'. res_fold (delay_forwarding conf) envs (s\<lparr>ss_delay_queue := q\<rparr>) = Ok (s\<lparr>ss_delay_queue := q, ss_delay_queue := q'\<rparr>) \<and>
      untimed q' = untimed (ss_delay_queue (s\<lparr>ss_delay_queue := q\<rparr>))"
    by (rule Cons.IH) (use none len Cons.prems in \<open>simp_all add: takes_def\<close>)
  then show ?case using q by simp
qed

theorem delayed_call_starves_witness:
  "let c = delayed_call 0 ''s'' ''app'' ''f'' [] 0; s = (ex_sched 1 3)\<lparr>ss_delay_queue := [c]\<rparr>
   in \<exists>q. res_fold (delay_forwarding (ex_conf 1000)) [ex_henv (10 ^ 9), ex_henv (10 ^ 15)] s =
        Ok (s\<lparr>ss_delay_queue := q\<rparr>) \<and> length q = 1"
proof -
  let ?s = "(ex_sched 1 3)\<lparr>ss_delay_queue := [delayed_call 0 ''s'' ''app'' ''f'' [] 0]\<rparr>"
  have time: "cast_us (he_cur_stamp (ex_henv t) - he_now (ex_henv t)) \<le> uint (sc_delay_time (ex_conf 1000))" for t
    by (simp add: ex_henv_def ex_conf_def cast_us_def trunc_div_def)
  have "\<exists>q. res_fold (delay_forwarding (ex_conf 1000)) [ex_henv (10 ^ 9), ex_henv (10 ^ 15)] ?s = Ok (?s\<lparr>ss_delay_queue := q\<rparr>) \<and>
      untimed q = untimed (ss_delay_queue ?s)"
  proof (rule delayed_call_starves)
    show "0 < sc_delay_time (ex_conf 1000)" by (simp add: ex_conf_def)
    show "\<forall>c \<in> set (ss_delay_queue ?s). \<nexists>e. takes (ex_conf 1000) ?s (dc_func_name c) e"
      by (simp add: ex_conf_def ex_sched_def takes_def can_take_def)
    show "length (ss_delay_queue ?s) \<le> get_avail_executor_num (ss_executor_status ?s)"
      by (simp add: ex_sched_def get_avail_executor_num_def executor_avail_def)
  qed (use time in auto)
  then obtain q where q: "res_fold (delay_forwarding (ex_conf 1000)) [ex_henv (10 ^ 9), ex_henv (10 ^ 15)] ?s = Ok (?s\<lparr>ss_delay_queue := q\<rparr>)"
    "untimed q = untimed (ss_delay_queue ?s)" by blast
  have "length q = 1" using untimed_funcs [OF q(2)] by simp
  with q(1) show ?thesis unfolding Let_def by blast
qed

end
