(* ===== verification/Ph_Exec_Laws.thy ===== *)
theory Ph_Exec_Laws
  imports Ph_Executor Ph_Sched_Laws
begin

text \<open>
  The messages between a scheduler and its executors: what one side writes, and what the other side
  reads. Calls and local reads arrive as they were meant; objects arrive up to the first delimiter;
  the answer to a remote read never does.
\<close>

section \<open>Text in messages\<close>

text \<open>Parts of a message: neither the delimiter nor the null character occurs.\<close>

definition plain :: "string \<Rightarrow> bool" where
  "plain x \<longleftrightarrow> CHR ''|'' \<notin> set x \<and> CHR 0x00 \<notin> set x"

lemma plain_to_string [simp]: "plain (to_string n)"
  by (simp add: plain_def)

lemma join_calls: "session @ ''|'' @ func @ concat (map (\<lambda>arg. ''|'' @ arg) args) = join CHR ''|'' (session # func # args)"
proof -
  have "concat (map (\<lambda>arg. ''|'' @ arg) args) = (if args = [] then [] else CHR ''|'' # join CHR ''|'' args)"
  proof (induction args)
    case (Cons arg args)
    then show ?case by (cases "args = []") (simp_all add: join_Cons)
  qed simp
  then show ?thesis by (cases "args = []") (simp_all add: join_Cons)
qed

lemma c_str_append: "CHR 0x00 \<notin> set a \<Longrightarrow> c_str (a @ b) = a @ c_str b"
  by (simp add: c_str_def takeWhile_append)

lemma join_no_null: "list_all plain xs \<Longrightarrow> CHR 0x00 \<notin> set (join CHR ''|'' xs)"
  using set_join [of "CHR ''|''" xs] by (auto simp: list_all_iff plain_def)

lemma split_join_plain:
  "list_all plain xs \<Longrightarrow> xs \<noteq> [] \<Longrightarrow> last xs \<noteq> [] \<Longrightarrow> split (join CHR ''|'' xs) CHR ''|'' = xs"
  by (rule split_join) (auto simp: list_all_iff plain_def)

text \<open>A list joined with a text behind it is split into its items and the parts of the text.\<close>

lemma split_join_append:
  "list_all plain xs \<Longrightarrow> xs \<noteq> [] \<Longrightarrow> split (join CHR ''|'' xs @ CHR ''|'' # rest) CHR ''|'' = xs @ split rest CHR ''|''"
proof (induction xs)
  case (Cons x xs)
  then have x: "CHR ''|'' \<notin> set x" by (simp add: plain_def)
  show ?case
  proof (cases "xs = []")
    case False
    then show ?thesis using Cons x by (simp add: join_Cons split_item)
  qed (use x in \<open>simp add: split_item\<close>)
qed simp

lemma chan_simps [simp]:
  "chan_at (c # cs) 0 = Ok (unbyte c)"
  "n \<le> length cs \<Longrightarrow> chan_at (c # cs) (Suc n) = chan_at cs n"
  "chan_str (c # cs) (Suc n) = chan_str cs n"
  "chan_str cs 0 = Ok (c_str cs)"
  by (simp_all add: chan_at_def nth_res_def chan_str_def)

section \<open>Calls\<close>

lemma parse_call_message:
  assumes "list_all plain (session # func # args')" and "last (func # args') \<noteq> []" and "0 \<le> flag" and "flag < 255"
    and "join CHR ''|'' (session # func # args) = join CHR ''|'' (session # func # args')"
  shows "parse_call (call_message flag persist session func args) =
    Ok (word_of_int flag, if persist then 1 else 2, session, func, args')"
proof -
  let ?t = "join CHR ''|'' (session # func # args')"
  have "call_message flag persist session func args =
      byte 1 # byte (word_of_int (flag + 1)) # byte (if persist then 1 else 2) # ?t"
    using assms(5) join_calls [of session func args] by (simp add: call_message_def)
  moreover have "c_str ?t = ?t" using join_no_null [OF assms(1)] by (rule c_str_id)
  moreover have "split ?t CHR ''|'' = session # func # args'"
    by (rule split_join_plain) (use assms(1,2) in auto)
  ultimately show ?thesis by (simp add: parse_call_def eval_nat_numeral)
qed

text \<open>The parts of a call by name: a bucket, a key and a size for each object.\<close>

definition object_args :: "(string \<times> string \<times> nat) list \<Rightarrow> string list" where
  "object_args objs = concat (map (\<lambda>(bucket, key, sz). [bucket, key, to_string sz]) objs)"

text \<open>The objects are opened in order.\<close>

fun open_objects :: "(string \<times> string \<times> nat) list \<Rightarrow> shm_store \<Rightarrow> arg_value list \<times> shm_store" where
  "open_objects [] shm = ([], shm)"
| "open_objects ((bucket, key, sz) # objs) shm =
     (case open_shm_obj (bucket @ kDelimiter @ key) sz shm of
        (p, shm1) \<Rightarrow> (case open_objects objs shm1 of (vals, shm2) \<Rightarrow> (Mapped p # vals, shm2)))"

text \<open>The same with the name of each object in one piece, as the scheduler has it.\<close>

definition named_args :: "(string \<times> string \<times> nat) list \<Rightarrow> string list" where
  "named_args objs = concat (map (\<lambda>(bucket, key, sz). [bucket @ kDelimiter @ key, to_string sz]) objs)"

lemma args_simps [simp]:
  "object_args [] = []" "object_args ((bucket, key, sz) # objs) = bucket # key # to_string sz # object_args objs"
  "named_args [] = []" "named_args ((bucket, key, sz) # objs) = (bucket @ kDelimiter @ key) # to_string sz # named_args objs"
  by (simp_all add: object_args_def named_args_def)

lemma args_Nil_iff [simp]: "object_args objs = [] \<longleftrightarrow> objs = []" "named_args objs = [] \<longleftrightarrow> objs = []"
  by (cases objs; auto)+

lemma join_object_args: "join CHR ''|'' (named_args objs) = join CHR ''|'' (object_args objs)"
proof (induction objs)
  case (Cons obj objs)
  obtain bucket key sz where "obj = (bucket, key, sz)" by (cases obj) auto
  then show ?case using Cons by (cases "objs = []") (auto simp: join_Cons kDelimiter_def)
qed simp

lemma unat_uint64: "n < 2 ^ 31 \<Longrightarrow> unat (word_of_int (int n) :: uint64) = n"
  by (simp add: unsigned_of_nat take_bit_nat_eq_self)

lemma shm_args_objects:
  assumes "\<And>obj. obj \<in> set objs \<Longrightarrow> snd (snd obj) < 2 ^ 31"
  shows "shm_args 1 (object_args objs) ul shm =
    (case open_objects objs shm of (vals, shm') \<Rightarrow>
       Ok (vals, fold (\<lambda>obj. add_arg_size (word_of_nat (snd (snd obj)))) objs ul, shm'))"
  using assms
proof (induction objs arbitrary: ul shm)
  case (Cons obj objs)
  obtain bucket key sz where obj: "obj = (bucket, key, sz)" by (cases obj) auto
  then have sz: "sz < 2 ^ 31" using Cons.prems [of obj] by simp
  show ?case using Cons sz unat_uint64 [OF sz] by (simp add: obj split: prod.split)
qed simp

text \<open>The library as the function finds it, and the turn of the executor around the function.\<close>

definition lib_for :: "string \<Rightarrow> string \<Rightarrow> bool \<Rightarrow> nat list \<Rightarrow> UserLibrary \<Rightarrow> UserLibrary" where
  "lib_for session func persist sizes ul =
     ul\<lparr>ul_function := func, ul_session_id := session, ul_persist_flag := if persist then 1 else 2,
        ul_size_of_args := ul_size_of_args ul @ map word_of_nat sizes\<rparr>"

definition call_done ::
  "string \<Rightarrow> ExecState \<Rightarrow> string list \<times> UserLibrary \<times> shm_store \<Rightarrow> (string list \<times> bool \<times> ExecState) res" where
  "call_done func es r =
     (case r of
        (sent, ul, shm) \<Rightarrow>
          Ok (status_message (es_thread_id es) True # sent @ [status_message (es_thread_id es) False], True,
              es\<lparr>es_name_func := uset_insert func (es_name_func es), es_lib := clear_session ul, es_shm := shm\<rparr>))"

lemma fold_add_arg_size:
  "fold (\<lambda>x. add_arg_size (f x)) xs ul = ul\<lparr>ul_size_of_args := ul_size_of_args ul @ map f xs\<rparr>"
  by (induction xs arbitrary: ul) (simp_all add: add_arg_size_def)

lemma load_loadable:
  "ee_loadable env func \<Longrightarrow> load_function env func es = (True, es\<lparr>es_name_func := uset_insert func (es_name_func es)\<rparr>)"
  by (simp add: load_function_def uset_insert_def)

lemma run_call_parsed:
  assumes "parse_call msg = Ok (flag, p, session, func, args)" and "ee_loadable env func"
    and "call_args flag args ((es_lib es)\<lparr>ul_function := func, ul_session_id := session, ul_persist_flag := p\<rparr>) (es_shm es) =
      Ok (Some (vals, ul, shm))"
  shows "run_call env msg es = call_done func es (ee_function env func vals ul shm)"
  using assms by (simp add: run_call_def load_loadable call_done_def Let_def split: prod.split)

text \<open>
  Property C15: a call that a scheduler sends arrives at the function as it was meant. Values (flag 0) are passed
  as they are; for objects passed by name (flag 1) the function gets the objects themselves, opened under their
  names with their sizes, in order. Session, function and arguments must be free of the delimiter and
  the null character, and the last one not empty.
\<close>

theorem call_reaches_function:
  assumes "plain session" and "plain func" and "func \<noteq> []" and "ee_loadable env func"
    and "list_all plain args" and "last (func # args) \<noteq> []"
    and "\<And>bucket key sz. (bucket, key, sz) \<in> set objs \<Longrightarrow> plain bucket \<and> plain key \<and> sz < 2 ^ 31"
  shows "run_call env (call_message 0 persist session func args) es =
      call_done func es (ee_function env func (map Chars args)
        (lib_for session func persist (map length args) (es_lib es)) (es_shm es)) \<and>
    run_call env (call_message 1 persist session func (named_args objs)) es =
      call_done func es (case open_objects objs (es_shm es) of (vals, shm) \<Rightarrow>
        ee_function env func vals (lib_for session func persist (map (\<lambda>(_, _, sz). sz) objs) (es_lib es)) shm)"
proof
  have "parse_call (call_message 0 persist session func args) =
      Ok (word_of_int 0, if persist then 1 else 2, session, func, args)"
    by (rule parse_call_message) (use assms in simp_all)
  moreover have "map (\<lambda>arg. Chars (c_str arg)) args = map Chars args"
    using assms(5) by (simp add: list_all_iff plain_def c_str_id)
  ultimately show "run_call env (call_message 0 persist session func args) es =
      call_done func es (ee_function env func (map Chars args)
        (lib_for session func persist (map length args) (es_lib es)) (es_shm es))"
    by (intro run_call_parsed [OF _ assms(4)])
      (auto simp: call_args_def plain_args_def fold_add_arg_size lib_for_def comp_def)
next
  have objs: "list_all plain (object_args objs)" and sz: "\<And>obj. obj \<in> set objs \<Longrightarrow> snd (snd obj) < 2 ^ 31"
    using assms(7) by (auto simp: list_all_iff object_args_def)
  have "last (func # object_args objs) \<noteq> []"
  proof (cases objs rule: rev_cases)
    case (snoc xs x)
    then show ?thesis by (cases x) (simp add: object_args_def)
  qed (use assms(3) in simp)
  moreover have "join CHR ''|'' (session # func # named_args objs) = join CHR ''|'' (session # func # object_args objs)"
    by (cases "objs = []") (simp_all add: join_Cons join_object_args)
  ultimately have "parse_call (call_message 1 persist session func (named_args objs)) =
      Ok (word_of_int 1, if persist then 1 else 2, session, func, object_args objs)"
    by (intro parse_call_message) (use assms objs in simp_all)
  moreover have "length (object_args objs) mod 3 = 0" by (induction objs) (auto simp: object_args_def)
  moreover obtain vals shm where o: "open_objects objs (es_shm es) = (vals, shm)" by (metis surj_pair)
  ultimately show "run_call env (call_message 1 persist session func (named_args objs)) es =
      call_done func es (case open_objects objs (es_shm es) of (vals, shm) \<Rightarrow>
        ee_function env func vals (lib_for session func persist (map (\<lambda>(_, _, sz). sz) objs) (es_lib es)) shm)"
    unfolding o prod.case
    by (intro run_call_parsed [OF _ assms(4)])
      (auto simp: call_args_def shm_args_objects [OF sz] o fold_add_arg_size lib_for_def comp_def case_prod_unfold)
qed

definition ex_exec_env :: exec_env where
  "ex_exec_env = \<lparr>ee_loadable = (\<lambda>func. func = ''f''), ee_function = (\<lambda>func vals ul shm. ([], ul, shm))\<rparr>"

definition ex_exec :: ExecState where
  "ex_exec = init_executor 0 ''10.0.0.1'' 1 Map.empty"

theorem call_reaches_function_witness:
  "run_call ex_exec_env (call_message 0 True ''s'' ''f'' [''x'', ''y'']) ex_exec =
     call_done ''f'' ex_exec ([], lib_for ''s'' ''f'' True [1, 1] (es_lib ex_exec), es_shm ex_exec)"
  using call_reaches_function [of "''s''" "''f''" ex_exec_env "[''x'', ''y'']" "[(''b'', ''k'', 3)]" True ex_exec, THEN conjunct1]
  by (simp add: plain_def ex_exec_env_def)

section \<open>Objects\<close>

text \<open>What the scheduler reads as the value of an object: the text up to a null character or a delimiter.\<close>

definition object_info :: "EpheObject \<Rightarrow> string \<Rightarrow> string" where
  "object_info data value =
     (if eo_size data \<le> msgDataPackingThreshold then takeWhile (\<lambda>c. c \<noteq> CHR ''|'') (c_str value) else to_string (eo_size data))"

lemma split_first: "s \<noteq> [] \<Longrightarrow> \<exists>rest. split s delim = takeWhile (\<lambda>c. c \<noteq> delim) s # rest"
  by (subst split.simps) simp

lemma takeWhile_plain: "plain s \<Longrightarrow> takeWhile (\<lambda>c. c \<noteq> CHR ''|'') s = s"
  by (auto simp: plain_def takeWhile_eq_all_conv)

text \<open>
  Property C28: an object that a function sends is handled under its own session, functions and name, and
  with the meaning of its type: ephemeral, persistent or a response. Its value is cut at the first null
  character or delimiter; a packed object whose value is then empty is dropped.
\<close>

theorem object_message_effect:
  assumes "plain session" and "plain func" and "plain (eo_target_func data)" and "plain bucket" and "plain key"
    and "eo_obj_name data = bucket @ kDelimiter @ key" and "2 \<le> type" and "type \<le> 4"
  shows "handle_executor_msg conf env (object_message chan type req session func data value) s =
    (let packing = (if eo_size data \<le> msgDataPackingThreshold then 1 else 2); info = object_info data value
     in if packing = 1 \<and> c_str value = [] then Ok s
        else if type = 2 then ephemeral_object conf env packing session func (eo_target_func data) bucket key info s
        else if type = 3 then persist_object env (chan - 1) req packing bucket key info s
        else respond_object packing session func bucket key info s)"
proof -
  let ?xs = "[session, func, eo_target_func data, bucket, key]"
  define v where "v = (if eo_size data \<le> msgDataPackingThreshold then value else to_string (eo_size data))"
  have xs: "list_all plain ?xs" using assms(1-5) by simp
  have "object_message chan type req session func data value =
      byte chan # byte type # byte req # byte (if eo_size data \<le> msgDataPackingThreshold then 1 else 2) #
      join CHR ''|'' ?xs @ CHR ''|'' # v"
    by (simp add: object_message_def assms(6) kDelimiter_def v_def)
  moreover have "c_str (join CHR ''|'' ?xs @ CHR ''|'' # v) = join CHR ''|'' ?xs @ CHR ''|'' # c_str v"
    using c_str_append [OF join_no_null [OF xs], of "CHR ''|'' # v"] by (simp add: c_str_def)
  moreover have "split (join CHR ''|'' ?xs @ CHR ''|'' # c_str v) CHR ''|'' = ?xs @ split (c_str v) CHR ''|''"
    by (rule split_join_append [OF xs]) simp
  moreover have "type \<noteq> 1" using assms(7) by (auto simp: word_le_nat_alt)
  ultimately have msg: "handle_executor_msg conf env (object_message chan type req session func data value) s =
      (case split (c_str v) CHR ''|'' of
         info # _ \<Rightarrow>
           (let packing = (if eo_size data \<le> msgDataPackingThreshold then 1 else 2)
            in if type = 2 then ephemeral_object conf env packing session func (eo_target_func data) bucket key info s
               else if type = 3 then persist_object env (chan - 1) req packing bucket key info s
               else respond_object packing session func bucket key info s)
       | [] \<Rightarrow> Ok s)"
    using assms(7,8)
    by (simp add: handle_executor_msg_def handle_send_object_def eval_nat_numeral Let_def split: list.split)
  show ?thesis
  proof (cases "c_str v = []")
    case True
    then show ?thesis by (simp add: msg v_def c_str_id split: if_splits)
  next
    case False
    moreover have "takeWhile (\<lambda>c. c \<noteq> CHR ''|'') (c_str v) = object_info data value"
      by (simp add: v_def object_info_def takeWhile_plain c_str_id)
    ultimately obtain rest where "split (c_str v) CHR ''|'' = object_info data value # rest"
      using split_first [of "c_str v" "CHR ''|''"] by auto
    then show ?thesis using False by (auto simp: msg v_def Let_def split: if_splits)
  qed
qed

theorem object_message_effect_witness:
  "handle_executor_msg (ex_conf 0) (ex_henv 0)
     (object_message 1 4 7 ''s'' ''f'' \<lparr>eo_obj_name = ''b|k'', eo_size = 5, eo_target_func = [], eo_value = None\<rparr> ''ab|cd'')
     (ex_sched 3 0) = respond_object 1 ''s'' ''f'' ''b'' ''k'' ''ab'' (ex_sched 3 0)"
  using object_message_effect [of "''s''" "''f''" "\<lparr>eo_obj_name = ''b|k'', eo_size = 5, eo_target_func = [], eo_value = None\<rparr>"
      "''b''" "''k''" 4 "ex_conf 0" "ex_henv 0" 1 7 "''ab|cd''" "ex_sched 3 0"]
  by (simp add: plain_def kDelimiter_def object_info_def msgDataPackingThreshold_def c_str_def word_le_nat_alt)

section \<open>Reads\<close>

lemma get_object_answer_head:
  "get_object_answer name req (Some (response_head r @ sz)) shm =
     (if r \<noteq> req then Ok (None, shm)
      else res_bind (stoi (c_str sz)) (\<lambda>size_len.
           case new_EpheObject name (unat (word_of_int size_len :: uint64)) False shm of
             (obj, shm') \<Rightarrow> Ok (Some obj, shm')))"
  by (simp add: get_object_answer_def response_head_def numeral_2_eq_2 numeral_3_eq_3)

lemma answer_decodes:
  assumes "unat (size_len :: uint32) < 2 ^ 31"
  shows "get_object_answer name req (Some (response_head req @ to_string (unat size_len))) shm =
     (case new_EpheObject name (unat size_len) False shm of (obj, shm') \<Rightarrow> Ok (Some obj, shm'))"
  using assms unat_uint64 [OF assms] by (simp add: get_object_answer_head c_str_id)

text \<open>
  Property C29: a read of an object that the node has is answered at once, and the answer is read as the
  object of that name with its size. Only the name must fit the byte that holds its length.
\<close>

theorem local_get_answered:
  assumes "get_object bucket key True ul = (msg, name, req, ul')" and "length name < 256"
    and "ss_key_len s name = Some size_len" and "unat size_len < 2 ^ 31" and "unat (ul_chan_id ul - 1) < ss_executors s"
  shows "\<exists>resp. handle_executor_msg conf env msg s = Ok (s\<lparr>ss_out := ss_out s @ [To_Executor (ul_chan_id ul - 1) resp]\<rparr>) \<and>
    get_object_answer name req (Some resp) shm =
      (case new_EpheObject name (unat size_len) False shm of (obj, shm') \<Rightarrow> Ok (Some obj, shm'))"
proof -
  have msg: "msg = byte (ul_chan_id ul) # byte 1 # byte 1 # byte req # byte (word_of_nat (length name)) # name"
    using assms(1) by (auto simp: get_object_def Let_def split: prod.splits)
  have "unat (word_of_nat (length name) :: uint8) = length name"
    using assms(2) by (simp add: unsigned_of_nat take_bit_nat_eq_self)
  then have "handle_executor_msg conf env msg s =
      Ok (s\<lparr>ss_out := ss_out s @ [To_Executor (ul_chan_id ul - 1) (response_head req @ to_string (unat size_len))]\<rparr>)"
    using assms(3,5)
    by (simp add: msg handle_executor_msg_def handle_get_request_def chan_sub_def send_to_executer_def
        numeral_2_eq_2 numeral_3_eq_3 numeral_eq_Suc)
  then show ?thesis using answer_decodes [OF assms(4)] by blast
qed

theorem local_get_answered_witness:
  "\<exists>msg req ul' resp. get_object ''b'' ''k'' True (new_UserLibrary ''10.0.0.1'' 0) = (msg, ''b|k'', req, ul') \<and>
     handle_executor_msg (ex_conf 0) (ex_henv 0) msg ((ex_sched 3 0)\<lparr>ss_key_len := [''b|k'' \<mapsto> 42]\<rparr>) =
       Ok ((ex_sched 3 0)\<lparr>ss_key_len := [''b|k'' \<mapsto> 42], ss_out := [To_Executor 0 resp]\<rparr>) \<and>
     get_object_answer ''b|k'' req (Some resp) Map.empty =
       Ok (Some \<lparr>eo_obj_name = ''b|k'', eo_size = 42, eo_target_func = [], eo_value = None\<rparr>, Map.empty)"
proof -
  let ?ul = "new_UserLibrary ''10.0.0.1'' 0" and ?s = "(ex_sched 3 0)\<lparr>ss_key_len := [''b|k'' \<mapsto> 42]\<rparr>"
  obtain msg req ul' where get: "get_object ''b'' ''k'' True ?ul = (msg, ''b|k'', req, ul')"
    by (simp add: get_object_def get_local_object_name_def get_key_session_name_def kDelimiter_def new_UserLibrary_def
        lib_request_id_def Let_def)
  have obj: "new_EpheObject ''b|k'' 42 False Map.empty =
      (\<lparr>eo_obj_name = ''b|k'', eo_size = 42, eo_target_func = [], eo_value = None\<rparr>, Map.empty)"
    by (simp add: new_EpheObject_def acquire_def get_mem_def c_str_def Let_def)
  have ev: "ul_chan_id ?ul - 1 = 0" "ss_key_len ?s ''b|k'' = Some 42" "0 < ss_executors ?s" "ss_out ?s = []"
    by (simp_all add: new_UserLibrary_def ex_sched_def)
  show ?thesis
    using local_get_answered [OF get _ ev(2), of "ex_conf 0" "ex_henv 0" Map.empty] get obj ev by auto
qed

lemma answer_requests_out:
  "answer_requests resp reqs s = Ok s' \<Longrightarrow>
   ss_out s' = ss_out s @ map (\<lambda>req. To_Executor (ir_executor_id req) (resp (ir_req_id req))) reqs"
proof (induction reqs arbitrary: s)
  case (Cons req reqs)
  then obtain s1 where "send_to_executer (ir_executor_id req) (resp (ir_req_id req)) s = Ok s1"
    and "answer_requests resp reqs s1 = Ok s'"
    by (auto simp: answer_requests_def elim: res_bind_OkE)
  then show ?case using Cons.IH [of s1] by (auto simp: send_to_executer_def split: if_splits)
qed (simp add: answer_requests_def)

lemma stoi_char:
  assumes "stoi (c_str [c]) = Ok v"
  shows "0 \<le> v" and "v < 10" and "int (of_char c) = v + 48"
proof -
  have "is_digit c \<and> c_str [c] = [c]" using assms
    by (auto simp: stoi_def stoi_sign_def c_str_def Let_def split: if_splits)
  then show "0 \<le> v" and "v < 10" and "int (of_char c) = v + 48"
    using assms stoi_digits [of "[c]"] by (auto simp: digits_val_def is_digit_def)
qed

text \<open>
  Property C37: a read that another node answers never gets the right object. The size of the object is
  appended to the answer as one character, and what the library makes of it is a digit or a fault: if
  it returns an object at all, the object has the wrong size.
\<close>

theorem remote_get_misread:
  assumes "answer_remote_gets key data_size s = Ok s'" and "To_Executor e resp \<in> set (drop (length (ss_out s)) (ss_out s'))"
    and "get_object_answer name req (Some resp) shm = Ok (Some obj, shm')"
  shows "eo_size obj \<noteq> unat data_size"
proof -
  have "resp \<in> (\<lambda>r. response_head r @ [byte (ucast data_size)]) ` UNIV"
    using assms(1,2) by (auto simp: answer_remote_gets_def split: option.splits elim!: res_bind_OkE dest!: answer_requests_out)
  then obtain r where "resp = response_head r @ [byte (ucast data_size)]" by auto
  with assms(3) obtain v where v: "stoi (c_str [byte (ucast data_size)]) = Ok v"
    and obj: "eo_size obj = unat (word_of_int v :: uint64)"
    by (auto simp: get_object_answer_head new_EpheObject_def split: if_splits prod.splits elim!: res_bind_OkE)
  have low: "unat (ucast data_size :: uint8) = unat data_size mod 256"
    by (simp add: unsigned_ucast_eq take_bit_eq_mod)
  have "int (unat data_size mod 256) = v + 48"
    using stoi_char(3) [OF v] unfolding byte_def low by simp
  moreover have "int (eo_size obj) = v"
    using stoi_char(1,2) [OF v] by (simp add: obj unsigned_of_int take_bit_int_eq_self)
  ultimately show ?thesis using stoi_char(2) [OF v] by auto
qed

theorem remote_get_misread_witness:
  "\<exists>s' obj shm'. answer_remote_gets ''b|k'' 50
       ((ex_sched 3 0)\<lparr>ss_remote_get := [''b|k'' \<mapsto> [\<lparr>ir_executor_id = 1, ir_req_id = 7, ir_recv_time = 0\<rparr>]]\<rparr>) = Ok s' \<and>
     get_object_answer ''b|k'' 7 (Some (response_head 7 @ ''2'')) Map.empty = Ok (Some obj, shm') \<and> eo_size obj \<noteq> 50"
proof -
  let ?s = "(ex_sched 3 0)\<lparr>ss_remote_get := [''b|k'' \<mapsto> [\<lparr>ir_executor_id = 1, ir_req_id = 7, ir_recv_time = 0\<rparr>]]\<rparr>"
  have b: "byte 50 = CHR ''2''" by (simp add: byte_def, code_simp)
  obtain s' where s': "answer_remote_gets ''b|k'' 50 ?s = Ok s'" "ss_out s' = [To_Executor 1 (response_head 7 @ ''2'')]"
    by (simp add: answer_remote_gets_def answer_requests_def send_to_executer_def ex_sched_def b)
  obtain obj shm' where obj: "get_object_answer ''b|k'' 7 (Some (response_head 7 @ ''2'')) Map.empty = Ok (Some obj, shm')"
    by (simp add: get_object_answer_head c_str_def stoi_def stoi_sign_def is_space_def is_digit_def digits_val_def
        new_EpheObject_def acquire_def get_mem_def Let_def)
  have "eo_size obj \<noteq> unat (50 :: uint32)"
    by (rule remote_get_misread [OF s'(1) _ obj, of 1]) (simp add: s'(2) ex_sched_def)
  with s' obj show ?thesis by auto
qed

section \<open>Reports\<close>

lemma update_mem: "(k, v) \<in> set (AList.update k v m)"
  by (induction m) auto

lemma executor_number: "ucast (tid + 1 :: uint32) - 1 = (ucast tid :: uint8)"
proof -
  have "(ucast (tid + 1) :: uint8) = ucast tid + 1"
    by (rule word_unat_eq_iff [THEN iffD2])
      (simp add: unsigned_ucast_eq take_bit_eq_mod unat_word_ariths mod_mod_cancel mod_Suc_eq)
  then show ?thesis by simp
qed

text \<open>
  An executor that reports itself available just before a call reaches it is free for the
  scheduler again, although the call is on its way: the report turns "await" into "empty", and the next
  call of a function without a warm executor may go to the same executor.
\<close>

lemma report_frees_awaited:
  assumes "ExecutorTimerThreshold \<le> cast_ms (now - es_report_start es)" and "status_ok s"
    and "start_call t (ucast (es_thread_id es)) session func args flag s = Ok s1"
  shows "\<exists>report es' s2. executor_step env now None es = Ok ([report], es') \<and>
    handle_executor_msg conf henv report s1 = Ok s2 \<and> ss_out s2 = ss_out s1 \<and>
    \<not> takes conf s1 func' (ucast (es_thread_id es)) \<and> takes conf s2 func' (ucast (es_thread_id es))"
proof -
  let ?e = "ucast (es_thread_id es) :: uint8" and ?report = "status_message (es_thread_id es) False"
  have e: "ucast (es_thread_id es + 1) - 1 = ?e" by (rule executor_number)
  have st: "ss_executor_status s1 = AList.update ?e 2 (ss_executor_status s)"
    using assms(3) by (auto simp: start_call_def send_to_executer_def split: if_splits elim!: res_bind_OkE)
  have "status = 2" if "(?e, status) \<in> set (ss_executor_status s1)" for status
  proof -
    have "umap_ok (ss_executor_status s1)" using assms(2) by (simp add: st status_ok_def)
    then have "map_of (ss_executor_status s1) ?e = Some status" using that by simp
    moreover have "map_of (ss_executor_status s1) ?e = Some 2" by (simp only: st update_conv' fun_upd_same)
    ultimately show ?thesis by simp
  qed
  then have "\<not> takes conf s1 func' ?e" by (fastforce simp: takes_def can_take_def)
  moreover have "handle_executor_msg conf henv ?report s1 = Ok (set_status ?e 0 s1)"
    by (simp add: handle_executor_msg_def status_message_def e st available_status_def)
  moreover have "takes conf (set_status ?e 0 s1) func' ?e"
    by (auto simp: takes_def can_take_def set_status_def update_mem intro!: exI [of _ 0])
  moreover have "executor_step env now None es = Ok ([?report], es\<lparr>es_report_start := now\<rparr>)"
    using assms(1) by (simp add: executor_step_def Let_def)
  ultimately show ?thesis by (auto simp: set_status_def)
qed

end
