(* ===== verification/Ph_Sched_Wait.thy ===== *)
theory Ph_Sched_Wait
  imports Ph_Sched_Laws
begin

text \<open>
  Calls that wait for their arguments: the table of waiting calls and the table of the keys they wait
  for agree, and a call is scheduled when its last key has arrived.
\<close>

section \<open>Scheduling and the waiting calls\<close>

text \<open>Scheduling a call neither reads nor changes the table of waiting calls.\<close>

abbreviation with_inflight :: "(uint32 \<rightharpoonup> InflightFuncArgs) \<Rightarrow> SchedState \<Rightarrow> SchedState" where
  "with_inflight m s \<equiv> s\<lparr>ss_inflight := m\<rparr>"

lemma inflight_outside:
  "(with_inflight m s)\<lparr>ss_out := out\<rparr> = with_inflight m (s\<lparr>ss_out := out\<rparr>)"
  "(with_inflight m s)\<lparr>ss_executor_status := st\<rparr> = with_inflight m (s\<lparr>ss_executor_status := st\<rparr>)"
  "(with_inflight m s)\<lparr>ss_ram_seed := seed\<rparr> = with_inflight m (s\<lparr>ss_ram_seed := seed\<rparr>)"
  "(with_inflight m s)\<lparr>ss_function_executor := fe\<rparr> = with_inflight m (s\<lparr>ss_function_executor := fe\<rparr>)"
  by simp_all

lemma real_data_args_inflight:
  "real_data_args flag args (with_inflight m s) =
   res_bind (real_data_args flag args s) (\<lambda>(r, t). Ok (r, with_inflight m t))"
proof (induction flag args s rule: real_data_args.induct)
  case (2 flag bucket key sz rest s)
  let ?name = "bucket @ kDelimiter @ key"
  show ?case
  proof (cases "read_shm_obj ?name (unat (map_at 0 (ss_key_len s) ?name)) (ss_shm s)")
    case (Ok x)
    obtain data shm where x: "x = (data, shm)" by fastforce
    let ?s = "s\<lparr>ss_key_len := map_touch 0 (ss_key_len s) ?name, ss_shm := shm\<rparr>"
    have swap: "(with_inflight m s)\<lparr>ss_key_len := map_touch 0 (ss_key_len s) ?name, ss_shm := shm\<rparr> = with_inflight m ?s"
      by simp
    have "real_data_args flag rest ((with_inflight m s)\<lparr>ss_key_len := map_touch 0 (ss_key_len s) ?name, ss_shm := shm\<rparr>) =
        res_bind (real_data_args flag rest ?s) (\<lambda>(r, t). Ok (r, with_inflight m t))"
      unfolding swap by (rule 2 [OF refl refl])
    then show ?thesis
      using Ok x by (cases "real_data_args flag rest ?s") (auto simp: Let_def)
  qed (simp add: Let_def)
qed simp_all

lemma data_args_vec_inflight:
  "data_args_vec flag argss (with_inflight m s) =
   res_bind (data_args_vec flag argss s) (\<lambda>(r, t). Ok (r, with_inflight m t))"
proof (induction argss arbitrary: s)
  case (Cons args argss)
  show ?case
  proof (cases "real_data_args flag args s")
    case (Ok x)
    obtain r t where x: "x = (r, t)" by fastforce
    show ?thesis using Ok x Cons.IH [of t]
      by (cases "data_args_vec flag argss t") (auto simp: real_data_args_inflight)
  qed (simp add: real_data_args_inflight)
qed simp

lemma via_helper_inflight:
  "via_helper f (with_inflight m s) = res_bind (via_helper f s) (\<lambda>t. Ok (with_inflight m t))"
  by (cases "f (ss_ch s)") (auto simp: via_helper_def)

lemma forward_inflight:
  "forward_call_via_helper session app names argss flag (with_inflight m s) =
   res_bind (forward_call_via_helper session app names argss flag s) (\<lambda>t. Ok (with_inflight m t))"
  by (cases "res_map arg_sizes argss")
    (simp_all add: forward_call_via_helper_def Let_def client_of_def data_args_vec_inflight via_helper_inflight
      res_bind_assoc split_def)

lemma note_rerun_inflight:
  "note_rerun now sess f args flag meta (with_inflight m s) = with_inflight m (note_rerun now sess f args flag meta s)"
  by (simp add: note_rerun_def Let_def)

lemma fold_note_rerun_inflight:
  "fold (note_rerun now sess f args flag) ms (with_inflight m s) = with_inflight m (fold (note_rerun now sess f args flag) ms s)"
  by (induction ms arbitrary: s) (simp_all add: note_rerun_inflight)

lemma start_call_inflight:
  "start_call now e session func args flag (with_inflight m s) =
   res_bind (start_call now e session func args flag s) (\<lambda>t. Ok (with_inflight m t))"
  unfolding start_call_def send_to_executer_def
  by (simp add: client_of_def inflight_outside fold_note_rerun_inflight)

lemma schedule_inflight:
  "schedule_func_call conf env session app func args flag (with_inflight m s) =
   res_bind (schedule_func_call conf env session app func args flag s) (\<lambda>t. Ok (with_inflight m t))"
proof (cases rule: schedule_choice [of env conf s func])
  case (taken e cold seed)
  show ?thesis
    by (simp add: schedule_func_call_def Let_def taken(1) inflight_outside start_call_inflight)
next
  case (not_taken seed)
  show ?thesis
    by (simp add: schedule_func_call_def Let_def not_taken(1) forward_inflight res_bind_assoc)
qed

text \<open>The lengths of objects are never forgotten.\<close>

lemma real_data_args_dom:
  "real_data_args flag args s = Ok (r, s') \<Longrightarrow> dom (ss_key_len s) \<subseteq> dom (ss_key_len s')"
proof (induction flag args s arbitrary: r s' rule: real_data_args.induct)
  case (2 flag bucket key sz rest s)
  let ?name = "bucket @ kDelimiter @ key"
  obtain shm args where "real_data_args flag rest
      (s\<lparr>ss_key_len := map_touch 0 (ss_key_len s) ?name, ss_shm := shm\<rparr>) = Ok (args, s')"
    using "2.prems" by (auto simp: Let_def)
  from "2.IH" [OF refl refl this] show ?case by auto
qed auto

lemma data_args_vec_dom:
  "data_args_vec flag argss s = Ok (r, s') \<Longrightarrow> dom (ss_key_len s) \<subseteq> dom (ss_key_len s')"
proof (induction argss arbitrary: s r)
  case (Cons args argss)
  then obtain a s1 as where 1: "real_data_args flag args s = Ok (a, s1)" and 2: "data_args_vec flag argss s1 = Ok (as, s')"
    by auto
  from real_data_args_dom [OF 1] Cons.IH [OF 2] show ?case by (rule subset_trans)
qed simp

lemma via_helper_key_len: "via_helper f s = Ok s' \<Longrightarrow> ss_key_len s' = ss_key_len s"
  by (auto simp: via_helper_def)

lemma forward_dom:
  assumes "forward_call_via_helper session app names argss flag s = Ok s'"
  shows "dom (ss_key_len s) \<subseteq> dom (ss_key_len s')"
proof -
  consider f where "via_helper f s = Ok s'"
    | f r s1 where "data_args_vec flag argss s = Ok (r, s1)" "via_helper f s1 = Ok s'"
    using assms by (auto simp: forward_call_via_helper_def Let_def split: if_splits)
  then show ?thesis
  proof cases
    case 1
    then show ?thesis by (simp add: via_helper_key_len)
  next
    case 2
    from data_args_vec_dom [OF 2(1)] via_helper_key_len [OF 2(2)] show ?thesis by simp
  qed
qed

lemma fold_note_rerun_key_len [simp]:
  "ss_key_len (fold (note_rerun now sess f args flag) ms s) = ss_key_len s"
  by (induction ms arbitrary: s) (simp_all add: note_rerun_def Let_def)

section \<open>The two tables\<close>

text \<open>The keys that each waiting call still misses.\<close>

definition waiting :: "SchedState \<Rightarrow> uint32 \<rightharpoonup> string set" where
  "waiting s cid = map_option (\<lambda>call. set (fa_inflight_args call)) (ss_inflight s cid)"

lemma waiting_simps [simp]:
  "waiting (s\<lparr>ss_call_id := i\<rparr>) = waiting s"
  "waiting (s\<lparr>ss_key_call_ids := ids\<rparr>) = waiting s"
  "waiting (s\<lparr>ss_key_len := lens\<rparr>) = waiting s"
  "waiting (s\<lparr>ss_session_client := c\<rparr>) = waiting s"
  by (simp_all add: waiting_def fun_eq_iff)

definition missing :: "(uint32 \<rightharpoonup> string set) \<Rightarrow> uint32 \<Rightarrow> string set" where
  "missing w cid = (case w cid of None \<Rightarrow> {} | Some ks \<Rightarrow> ks)"

text \<open>Every call is entered under exactly the keys that it misses, and no key without a call.\<close>

definition linked :: "(string \<rightharpoonup> uint32 list) \<Rightarrow> (uint32 \<Rightarrow> string set) \<Rightarrow> bool" where
  "linked ids miss \<longleftrightarrow> (\<forall>k cid. cid \<in> set (map_at [] ids k) \<longleftrightarrow> k \<in> miss cid) \<and>
     (\<forall>k. distinct (map_at [] ids k) \<and> ids k \<noteq> Some [])"

lemma linkedD:
  assumes "linked ids miss"
  shows "k \<in> miss cid \<longleftrightarrow> cid \<in> set (map_at [] ids k)" and "distinct (map_at [] ids k)"
  using assms by (simp_all add: linked_def)

text \<open>A call misses arguments of its own, and those that it does not miss are here.\<close>

definition args_come :: "(string \<rightharpoonup> uint32) \<Rightarrow> InflightFuncArgs \<Rightarrow> bool" where
  "args_come len call \<longleftrightarrow> set (fa_inflight_args call) \<subseteq> set (fa_key_args call) \<and>
     set (fa_key_args call) \<subseteq> set (fa_inflight_args call) \<union> dom len"

lemma args_come_mono: "args_come len call \<Longrightarrow> dom len \<subseteq> dom len' \<Longrightarrow> args_come len' call"
  unfolding args_come_def by blast

definition wait_inv :: "SchedState \<Rightarrow> bool" where
  "wait_inv s \<longleftrightarrow> linked (ss_key_call_ids s) (missing (waiting s)) \<and>
     (\<forall>cid ks. waiting s cid = Some ks \<longrightarrow> ks \<noteq> {} \<and> unat cid < unat (ss_call_id s)) \<and>
     (\<forall>cid call. ss_inflight s cid = Some call \<longrightarrow> args_come (ss_key_len s) call)"

text \<open>The tables are the same, and no length is forgotten.\<close>

definition same_tables :: "SchedState \<Rightarrow> SchedState \<Rightarrow> bool" where
  "same_tables s s' \<longleftrightarrow> ss_inflight s' = ss_inflight s \<and> ss_key_call_ids s' = ss_key_call_ids s \<and>
     ss_call_id s' = ss_call_id s \<and> dom (ss_key_len s) \<subseteq> dom (ss_key_len s')"

lemma same_tables_refl [simp]: "same_tables s s"
  by (simp add: same_tables_def)

lemma same_tables_trans [trans]: "same_tables s s' \<Longrightarrow> same_tables s' s'' \<Longrightarrow> same_tables s s''"
  unfolding same_tables_def by force

lemma same_tables_waiting: "same_tables s s' \<Longrightarrow> waiting s' = waiting s"
  by (simp add: same_tables_def waiting_def fun_eq_iff)

lemma same_tables_inv: "same_tables s s' \<Longrightarrow> wait_inv s \<Longrightarrow> wait_inv s'"
  using same_tables_waiting [of s s'] args_come_mono [of "ss_key_len s" _ "ss_key_len s'"]
  by (auto simp: same_tables_def wait_inv_def)

lemma via_helper_tables: "via_helper f s = Ok s' \<Longrightarrow> same_tables s s'"
  by (auto simp: via_helper_def same_tables_def)

lemma send_to_executer_tables: "send_to_executer e m s = Ok s' \<Longrightarrow> same_tables s s'"
  by (auto simp: send_to_executer_def same_tables_def split: if_splits)

lemma answer_requests_tables: "answer_requests resp reqs s = Ok s' \<Longrightarrow> same_tables s s'"
  unfolding answer_requests_def
  by (erule res_fold_invariant [of _ _ _ _ "same_tables s"])
    (auto intro: same_tables_trans send_to_executer_tables)

lemma schedule_tables:
  assumes "schedule_func_call conf env session app func args flag s = Ok s'"
  shows "same_tables s s'"
proof (cases rule: schedule_choice [of env conf s func])
  case (taken e cold seed)
  show ?thesis
  proof (cases "unat e < ss_executors s")
    case True
    from assms show ?thesis
      unfolding schedule_func_call_def Let_def taken(1) prod.case option.case start_call_def send_to_executer_def
      by (simp add: True) (drule sym, simp add: same_tables_def)
  next
    case False
    from assms show ?thesis
      unfolding schedule_func_call_def Let_def taken(1) prod.case option.case start_call_def send_to_executer_def
      by (simp add: False)
  qed
next
  case (not_taken seed)
  note eq = schedule_not_taken [OF not_taken(1), of session app args flag]
  show ?thesis
  proof (cases "0 < sc_delay_time conf \<or> sc_reject conf")
    case True
    then show ?thesis using assms eq by (auto simp: same_tables_def split: if_splits)
  next
    case False
    then obtain argss where "forward_call_via_helper session app [func] argss flag s = Ok s'"
      using assms eq by (auto elim!: res_bind_OkE)
    from forward_frame [OF this] forward_dom [OF this] show ?thesis by (auto simp: same_tables_def)
  qed
qed

text \<open>The arguments of a call whose objects are here: each name with the length of the object.\<close>

definition sized_args :: "(string \<rightharpoonup> uint32) \<Rightarrow> string list \<Rightarrow> string list" where
  "sized_args len keys = concat (map (\<lambda>key. [key, to_string (unat (map_at 0 len key))]) keys)"

lemma full_args_here:
  assumes "set keys \<subseteq> dom (ss_key_len s)"
  shows "full_args keys s = (sized_args (ss_key_len s) keys, s)"
proof -
  have "fold (\<lambda>key m. map_touch 0 m key) keys m = m" if "set keys \<subseteq> dom m" for m :: "string \<rightharpoonup> uint32"
    using that by (induction keys) (auto simp: map_touch_def)
  from this [OF assms] show ?thesis by (simp add: full_args_def sized_args_def)
qed

section \<open>A new call\<close>

text \<open>The arguments of a call that are not here.\<close>

definition absent :: "(string \<rightharpoonup> uint32) \<Rightarrow> string list \<Rightarrow> string list" where
  "absent len args = uset_of (filter (\<lambda>key. len key = None) args)"

lemma set_absent [simp]: "set (absent len args) = {key \<in> set args. len key = None}"
  by (auto simp: absent_def)

lemma absent_snoc:
  "absent len (args @ [a]) = (if len a = None then uset_insert a (absent len args) else absent len args)"
  by (simp add: absent_def uset_of_def)

definition enter_call :: "uint32 \<Rightarrow> string list \<Rightarrow> (string \<rightharpoonup> uint32 list) \<Rightarrow> (string \<rightharpoonup> uint32 list)" where
  "enter_call cid keys ids = (\<lambda>key. if key \<in> set keys then Some (map_at [] ids key @ [cid]) else ids key)"

definition request_keys :: "string list \<Rightarrow> SchedState \<Rightarrow> SchedState res" where
  "request_keys = res_fold (\<lambda>key. via_helper (send_data_req key))"

text \<open>
  The specification of a call with named arguments. If all objects are here, it is scheduled with
  their lengths. Otherwise exactly the absent objects that no other call waits for are asked for, each
  once, and the call is entered under its next id, with the absent objects.
\<close>

definition spec_call_by_name ::
  "sched_conf \<Rightarrow> helper_env \<Rightarrow> string \<Rightarrow> string \<Rightarrow> string \<Rightarrow> string list \<Rightarrow> int \<Rightarrow> SchedState \<Rightarrow> SchedState res" where
  "spec_call_by_name conf env session app func args flag s =
     (let missed = absent (ss_key_len s) args
      in if missed = []
         then schedule_func_call conf env session app func (sized_args (ss_key_len s) args) flag s
         else res_bind (request_keys (filter (\<lambda>key. ss_key_call_ids s key = None) missed) s) (\<lambda>t.
              Ok (t\<lparr>ss_inflight := (ss_inflight s)(ss_call_id s \<mapsto>
                       \<lparr>fa_func_name = func, fa_session_id = session, fa_key_args = args,
                        fa_inflight_args = missed, fa_arg_flag = flag\<rparr>),
                    ss_key_call_ids := enter_call (ss_call_id s) missed (ss_key_call_ids s)\<rparr>)))"

lemma request_keys_tables:
  assumes "request_keys keys s = Ok t"
  shows "ss_inflight t = ss_inflight s" and "ss_call_id t = ss_call_id s" and
    "ss_key_call_ids t = ss_key_call_ids s" and "ss_key_len t = ss_key_len s"
proof -
  let ?P = "\<lambda>t. ss_inflight t = ss_inflight s \<and> ss_call_id t = ss_call_id s \<and>
    ss_key_call_ids t = ss_key_call_ids s \<and> ss_key_len t = ss_key_len s"
  have "?P t"
    by (rule res_fold_invariant [OF assms [unfolded request_keys_def]]) (auto simp: via_helper_def)
  then show "ss_inflight t = ss_inflight s" "ss_call_id t = ss_call_id s"
    "ss_key_call_ids t = ss_key_call_ids s" "ss_key_len t = ss_key_len s" by simp_all
qed

lemma via_helper_ids:
  "via_helper f (s\<lparr>ss_key_call_ids := ids\<rparr>) = res_bind (via_helper f s) (\<lambda>t. Ok (t\<lparr>ss_key_call_ids := ids\<rparr>))"
  by (cases "f (ss_ch s)") (auto simp: via_helper_def)

text \<open>One argument after the other: the first absent ones have been asked for and entered.\<close>

lemma fetch_arg_step:
  assumes "ss_key_len t = ss_key_len s" and "ss_call_id t = ss_call_id s" and "ss_key_call_ids t = ids"
    and "\<And>key. ss_call_id s \<notin> set (map_at [] ids key)" and "distinct got"
  shows "fetch_arg a (got, t\<lparr>ss_key_call_ids := enter_call (ss_call_id s) got ids\<rparr>) =
    (if ss_key_len s a \<noteq> None then Ok (got, t\<lparr>ss_key_call_ids := enter_call (ss_call_id s) got ids\<rparr>)
     else res_bind (if a \<notin> set got \<and> ids a = None then via_helper (send_data_req a) t else Ok t) (\<lambda>t1.
       Ok (uset_insert a got, t1\<lparr>ss_key_call_ids := enter_call (ss_call_id s) (uset_insert a got) ids\<rparr>)))"
proof (cases "ss_key_len s a = None")
  case False
  then show ?thesis using assms(1) by (simp add: fetch_arg_def)
next
  case True
  let ?ids = "enter_call (ss_call_id s) got ids"
  have ids: "?ids(a \<mapsto> uset_insert (ss_call_id s) (map_at [] ?ids a)) = enter_call (ss_call_id s) (uset_insert a got) ids"
    using assms(4) [of a] by (auto simp: enter_call_def uset_insert_def map_at_def fun_eq_iff split: option.splits)
  have none: "?ids a = None \<longleftrightarrow> a \<notin> set got \<and> ids a = None" by (simp add: enter_call_def)
  have kept: "ss_call_id t1 = ss_call_id s" if "via_helper f t = Ok t1" for f t1
    using that assms(2) by (auto simp: via_helper_def)
  show ?thesis
  proof (cases "?ids a = None")
    case new: True
    show ?thesis
    proof (cases "via_helper (send_data_req a) t")
      case (Ok t1)
      with new True none assms(1) ids kept [OF Ok] show ?thesis
        by (simp add: fetch_arg_def via_helper_ids)
    next
      case (Fault e)
      with new True none assms(1) show ?thesis by (simp add: fetch_arg_def via_helper_ids)
    qed
  next
    case False
    with True none assms(1,2) ids show ?thesis by (auto simp: fetch_arg_def)
  qed
qed

lemma fetch_args_spec:
  assumes "\<And>key. ss_call_id s \<notin> set (map_at [] (ss_key_call_ids s) key)"
  shows "res_fold fetch_arg args ([], s) =
    res_bind (request_keys (filter (\<lambda>key. ss_key_call_ids s key = None) (absent (ss_key_len s) args)) s) (\<lambda>t.
    Ok (absent (ss_key_len s) args,
        t\<lparr>ss_key_call_ids := enter_call (ss_call_id s) (absent (ss_key_len s) args) (ss_key_call_ids s)\<rparr>))"
proof (induction args rule: rev_induct)
  case Nil
  show ?case by (simp add: absent_def uset_of_def request_keys_def enter_call_def)
next
  case (snoc a args)
  let ?got = "absent (ss_key_len s) args" and ?ids = "ss_key_call_ids s"
  let ?new = "\<lambda>keys. filter (\<lambda>key. ?ids key = None) keys"
  show ?case
  proof (cases "request_keys (?new ?got) s")
    case (Fault e)
    then have "request_keys (?new (absent (ss_key_len s) (args @ [a]))) s = Fault e"
      by (simp add: absent_snoc uset_insert_def request_keys_def res_fold_append)
    with Fault snoc.IH show ?thesis by (simp add: res_fold_append)
  next
    case (Ok t)
    note kept = request_keys_tables [OF Ok]
    have "distinct ?got" by (simp add: absent_def)
    note step = fetch_arg_step [OF kept(4,2,3) assms this, of a]
    have "request_keys (?new (uset_insert a ?got)) s =
        (if a \<notin> set ?got \<and> ?ids a = None then via_helper (send_data_req a) t else Ok t)"
      using Ok by (cases "via_helper (send_data_req a) t") (simp_all add: uset_insert_def request_keys_def res_fold_append)
    with Ok snoc.IH step show ?thesis by (simp add: res_fold_append absent_snoc res_bind_assoc)
  qed
qed

lemma next_id_unused:
  assumes "wait_inv s"
  shows "missing (waiting s) (ss_call_id s) = {}" and "ss_call_id s \<notin> set (map_at [] (ss_key_call_ids s) key)"
proof -
  show m: "missing (waiting s) (ss_call_id s) = {}"
    using assms by (cases "waiting s (ss_call_id s)") (auto simp: wait_inv_def missing_def)
  have l: "linked (ss_key_call_ids s) (missing (waiting s))" using assms by (simp add: wait_inv_def)
  show "ss_call_id s \<notin> set (map_at [] (ss_key_call_ids s) key)" using linkedD(1) [OF l, of key "ss_call_id s"] m by simp
qed

lemma absent_Nil: "absent (ss_key_len s) args = [] \<Longrightarrow> set args \<subseteq> dom (ss_key_len s)"
  using set_absent [of "ss_key_len s" args] by (auto simp: dom_def)

lemma call_by_name_refines:
  assumes "wait_inv s"
  shows "call_by_name conf env session app func args flag s = spec_call_by_name conf env session app func args flag s"
proof (cases "absent (ss_key_len s) args = []")
  case True
  then show ?thesis using full_args_here [OF absent_Nil [OF True]]
    by (simp add: call_by_name_def spec_call_by_name_def fetch_args_spec next_id_unused(2) [OF assms]
        request_keys_def enter_call_def)
next
  case False
  show ?thesis
  proof (cases "request_keys (filter (\<lambda>key. ss_key_call_ids s key = None) (absent (ss_key_len s) args)) s")
    case (Ok t)
    from request_keys_tables [OF Ok] False Ok show ?thesis
      by (simp add: call_by_name_def spec_call_by_name_def fetch_args_spec next_id_unused(2) [OF assms] Let_def)
  next
    case (Fault e)
    then show ?thesis
      by (simp add: call_by_name_def spec_call_by_name_def fetch_args_spec next_id_unused(2) [OF assms] Let_def False)
  qed
qed

lemma linked_enter:
  assumes "linked ids miss" and "miss cid = {}"
  shows "linked (enter_call cid keys ids) (miss(cid := set keys))"
proof -
  have "cid \<notin> set (map_at [] ids key)" for key using linkedD(1) [OF assms(1), of key cid] assms(2) by simp
  moreover have "map_at [] (enter_call cid keys ids) key = (if key \<in> set keys then map_at [] ids key @ [cid] else map_at [] ids key)" for key
    by (simp add: enter_call_def map_at_def)
  ultimately show ?thesis using assms by (auto simp: linked_def enter_call_def)
qed

text \<open>After a call by name the tables agree, except that the id of the call is still the next one.\<close>

lemma spec_call_by_name_inv:
  assumes "wait_inv s" and "spec_call_by_name conf env session app func args flag s = Ok t"
    and "unat cid = unat (ss_call_id s) + 1"
  shows "wait_inv (t\<lparr>ss_call_id := cid\<rparr>) \<and> ss_call_id t = ss_call_id s"
proof (cases "absent (ss_key_len s) args = []")
  case True
  then have "same_tables s t" using assms(2) by (auto simp: spec_call_by_name_def intro: schedule_tables)
  with same_tables_inv [OF this assms(1)] assms(3) show ?thesis
    by (auto simp: same_tables_def wait_inv_def less_Suc_eq)
next
  case False
  let ?missed = "absent (ss_key_len s) args"
  obtain t1 where t1: "request_keys (filter (\<lambda>key. ss_key_call_ids s key = None) ?missed) s = Ok t1"
    and t: "t = t1\<lparr>ss_inflight := (ss_inflight s)(ss_call_id s \<mapsto>
                       \<lparr>fa_func_name = func, fa_session_id = session, fa_key_args = args,
                        fa_inflight_args = ?missed, fa_arg_flag = flag\<rparr>),
                    ss_key_call_ids := enter_call (ss_call_id s) ?missed (ss_key_call_ids s)\<rparr>"
    using assms(2) False unfolding spec_call_by_name_def Let_def by auto
  note kept = request_keys_tables [OF t1]
  have w: "waiting t = (waiting s)(ss_call_id s \<mapsto> set ?missed)"
    by (auto simp: waiting_def t fun_eq_iff)
  then have m: "missing (waiting t) = (missing (waiting s))(ss_call_id s := set ?missed)"
    by (auto simp: missing_def fun_eq_iff)
  have l: "linked (ss_key_call_ids t) (missing (waiting t))"
    using linked_enter [of "ss_key_call_ids s" "missing (waiting s)" "ss_call_id s" ?missed] next_id_unused(1) [OF assms(1)]
      assms(1) unfolding m by (simp add: t wait_inv_def)
  have "set ?missed \<noteq> {}" using False by (simp del: set_absent)
  then have old: "ks \<noteq> {} \<and> unat c < unat cid" if "waiting t c = Some ks" for c ks
    using that assms(1,3) unfolding w wait_inv_def by (auto simp del: set_absent simp: less_Suc_eq split: if_splits)
  have "args_come (ss_key_len t) call" if "ss_inflight t c = Some call" for c call
    using that assms(1) kept(4) by (auto simp: t wait_inv_def args_come_def split: if_splits)
  with l old show ?thesis by (auto simp: wait_inv_def kept(2) t)
qed

text \<open>After a call has been handled, the id of the next one is one higher.\<close>

lemma handle_call_inv:
  assumes "wait_inv s" and "handle_call conf env msg i s = Ok s'" and "unat (ss_call_id s) + 1 < 2 ^ 32"
  shows "wait_inv s' \<and> unat (ss_call_id s') = unat (ss_call_id s) + 1"
proof -
  have next_id: "unat (ss_call_id s + 1) = unat (ss_call_id s) + 1"
    using assms(3) by (simp add: unat_word_ariths)
  obtain func args flag t where s': "s' = t\<lparr>ss_call_id := ss_call_id t + 1\<rparr>"
    and t: "(if 0 < flag
       then call_by_name conf env (rm_session_id msg) (rm_app_name msg) func args flag s
       else schedule_func_call conf env (rm_session_id msg) (rm_app_name msg) func args 0 s) = Ok t"
    using assms(2) unfolding handle_call_def by (elim res_bind_OkE) (drule sym, auto)
  have "wait_inv (t\<lparr>ss_call_id := ss_call_id s + 1\<rparr>) \<and> ss_call_id t = ss_call_id s"
  proof (cases "0 < flag")
    case True
    then have "spec_call_by_name conf env (rm_session_id msg) (rm_app_name msg) func args flag s = Ok t"
      using t call_by_name_refines [OF assms(1)] by simp
    from spec_call_by_name_inv [OF assms(1) this next_id] show ?thesis .
  next
    case False
    then have "same_tables s t" using t schedule_tables by simp
    with same_tables_inv [OF this assms(1)] next_id show ?thesis
      by (auto simp: same_tables_def wait_inv_def less_Suc_eq)
  qed
  with next_id show ?thesis by (simp add: s')
qed

section \<open>An arriving key\<close>

text \<open>
  The specification in terms of the keys that are missed: a call that has missed only the key is no
  longer waiting.
\<close>

definition arrive :: "string \<Rightarrow> (uint32 \<rightharpoonup> string set) \<Rightarrow> (uint32 \<rightharpoonup> string set)" where
  "arrive key w cid =
     (case w cid of None \<Rightarrow> None | Some ks \<Rightarrow> if ks \<subseteq> {key} then None else Some (ks - {key}))"

text \<open>The same on the calls themselves, and the calls that have missed only the key.\<close>

definition strike :: "string \<Rightarrow> (uint32 \<rightharpoonup> InflightFuncArgs) \<Rightarrow> (uint32 \<rightharpoonup> InflightFuncArgs)" where
  "strike key m cid =
     (case m cid of None \<Rightarrow> None
      | Some call \<Rightarrow> if set (fa_inflight_args call) \<subseteq> {key} then None
                      else Some (call\<lparr>fa_inflight_args := uset_erase key (fa_inflight_args call)\<rparr>))"

definition ready :: "string \<Rightarrow> (uint32 \<rightharpoonup> InflightFuncArgs) \<Rightarrow> uint32 list \<Rightarrow> InflightFuncArgs list" where
  "ready key m cids = concat (map (\<lambda>cid. case m cid of None \<Rightarrow> []
     | Some call \<Rightarrow> if set (fa_inflight_args call) \<subseteq> {key} then [call] else []) cids)"

definition start_waiting :: "sched_conf \<Rightarrow> helper_env \<Rightarrow> InflightFuncArgs \<Rightarrow> SchedState \<Rightarrow> SchedState res" where
  "start_waiting conf env call s =
     schedule_func_call conf env (fa_session_id call) (map_at [] (rg_func_app (ss_rg s)) (fa_func_name call))
       (fa_func_name call) (sized_args (ss_key_len s) (fa_key_args call)) (fa_arg_flag call) s"

text \<open>
  The specification of an object that arrives: its length is noted and the reads that wait for it are
  answered; then each call that has missed only this object is scheduled with the lengths of all its
  objects, in the order in which the calls came, and the object is missed by nobody.
\<close>

definition object_arrives :: "sched_conf \<Rightarrow> helper_env \<Rightarrow> string \<Rightarrow> uint32 \<Rightarrow> SchedState \<Rightarrow> SchedState res" where
  "object_arrives conf env key n s =
     res_bind (answer_remote_gets key n (s\<lparr>ss_key_len := (ss_key_len s)(key \<mapsto> n)\<rparr>)) (\<lambda>s1.
     res_bind (res_fold (start_waiting conf env) (ready key (ss_inflight s) (map_at [] (ss_key_call_ids s) key)) s1) (\<lambda>s2.
     Ok (s2\<lparr>ss_inflight := strike key (ss_inflight s), ss_key_call_ids := map_erase (ss_key_call_ids s) key\<rparr>)))"

lemma start_waiting_inflight:
  "start_waiting conf env call (with_inflight m s) = res_bind (start_waiting conf env call s) (\<lambda>t. Ok (with_inflight m t))"
  by (simp add: start_waiting_def schedule_inflight)

lemma starts_inflight:
  "res_fold (start_waiting conf env) calls (with_inflight m s) =
   res_bind (res_fold (start_waiting conf env) calls s) (\<lambda>t. Ok (with_inflight m t))"
proof (induction calls arbitrary: s)
  case (Cons call calls)
  then show ?case by (cases "start_waiting conf env call s") (simp_all add: start_waiting_inflight)
qed simp

lemma starts_tables: "res_fold (start_waiting conf env) calls s = Ok s' \<Longrightarrow> same_tables s s'"
  by (erule res_fold_invariant [of _ _ _ _ "same_tables s"])
    (auto simp: start_waiting_def intro: same_tables_trans schedule_tables)

lemma ready_cong: "(\<And>cid. cid \<in> set cids \<Longrightarrow> m cid = m' cid) \<Longrightarrow> ready key m cids = ready key m' cids"
  by (auto simp: ready_def intro!: arg_cong [of _ _ concat])

text \<open>One call that has missed the key, and the loop over all of them.\<close>

lemma resume_call_ready:
  assumes "ss_inflight s cid = Some call" and "set (fa_inflight_args call) \<subseteq> {key}"
    and "set (fa_key_args call) \<subseteq> dom (ss_key_len s)"
  shows "resume_call conf env key cid s = res_bind (start_waiting conf env call s) (\<lambda>t.
    Ok (with_inflight (map_erase (ss_inflight t) cid) t))"
proof -
  have "uset_erase key (fa_inflight_args call) = []" using assms(2) by (auto simp: uset_erase_def filter_empty_conv)
  then show ?thesis
    using assms(1) full_args_here [OF assms(3)] by (simp add: resume_call_def start_waiting_def)
qed

lemma resume_call_waits:
  assumes "ss_inflight s cid = Some call" and "\<not> set (fa_inflight_args call) \<subseteq> {key}"
  shows "resume_call conf env key cid s =
    Ok (with_inflight ((ss_inflight s)(cid := strike key (ss_inflight s) cid)) s)"
proof -
  have "uset_erase key (fa_inflight_args call) \<noteq> []" using assms(2) by (auto simp: uset_erase_def filter_empty_conv)
  then show ?thesis using assms by (simp add: resume_call_def strike_def)
qed

definition resumable :: "string \<Rightarrow> uint32 list \<Rightarrow> SchedState \<Rightarrow> bool" where
  "resumable key cids s \<longleftrightarrow> (\<forall>cid \<in> set cids. \<exists>call. ss_inflight s cid = Some call \<and>
     (set (fa_inflight_args call) \<subseteq> {key} \<longrightarrow> set (fa_key_args call) \<subseteq> dom (ss_key_len s)))"

lemma resumable_tail:
  assumes "resumable key (c # cids) s" and "c \<notin> set cids" and "dom (ss_key_len s) \<subseteq> dom (ss_key_len t)"
  shows "resumable key cids (with_inflight ((ss_inflight s)(c := x)) t)"
  unfolding resumable_def
proof
  fix cid assume "cid \<in> set cids"
  with assms(1) obtain call where "ss_inflight s cid = Some call"
    "set (fa_inflight_args call) \<subseteq> {key} \<longrightarrow> set (fa_key_args call) \<subseteq> dom (ss_key_len s)"
    unfolding resumable_def by (meson list.set_intros(2))
  moreover have "cid \<noteq> c" using assms(2) \<open>cid \<in> set cids\<close> by blast
  ultimately show "\<exists>call. ss_inflight (with_inflight ((ss_inflight s)(c := x)) t) cid = Some call \<and>
      (set (fa_inflight_args call) \<subseteq> {key} \<longrightarrow>
       set (fa_key_args call) \<subseteq> dom (ss_key_len (with_inflight ((ss_inflight s)(c := x)) t)))"
    using assms(3) by (intro exI [of _ call]) (simp, blast)
qed

definition strike_at :: "string \<Rightarrow> uint32 list \<Rightarrow> (uint32 \<rightharpoonup> InflightFuncArgs) \<Rightarrow> (uint32 \<rightharpoonup> InflightFuncArgs)" where
  "strike_at key cids m = (\<lambda>cid. if cid \<in> set cids then strike key m cid else m cid)"

lemma strike_at_Nil: "strike_at key [] m = m"
  by (simp add: strike_at_def)

lemma strike_at_Cons:
  "c \<notin> set cids \<Longrightarrow> strike_at key cids (m(c := strike key m c)) = strike_at key (c # cids) m"
  by (auto simp: strike_at_def strike_def fun_eq_iff)

lemma resume_calls_spec:
  assumes "distinct cids" and "resumable key cids s"
  shows "res_fold (resume_call conf env key) cids s =
    res_bind (res_fold (start_waiting conf env) (ready key (ss_inflight s) cids) s) (\<lambda>t.
    Ok (with_inflight (strike_at key cids (ss_inflight s)) t))"
  using assms
proof (induction cids arbitrary: s)
  case Nil
  show ?case by (simp add: ready_def strike_at_def)
next
  case (Cons c cids)
  let ?m = "ss_inflight s"
  obtain call where call: "?m c = Some call" "set (fa_inflight_args call) \<subseteq> {key} \<Longrightarrow> set (fa_key_args call) \<subseteq> dom (ss_key_len s)"
    using Cons.prems(2) by (auto simp: resumable_def)
  define m1 where m1: "m1 = ?m(c := strike key ?m c)"
  have r: "ready key m1 cids = ready key ?m cids" using Cons.prems(1) unfolding m1 by (intro ready_cong) auto
  have st: "strike_at key cids m1 = strike_at key (c # cids) ?m" unfolding m1 using Cons.prems(1) by (intro strike_at_Cons) simp
  have go: "res_fold (resume_call conf env key) cids (with_inflight m1 t) =
      res_bind (res_fold (start_waiting conf env) (ready key ?m cids) t) (\<lambda>t. Ok (with_inflight (strike_at key (c # cids) ?m) t))"
    if "dom (ss_key_len s) \<subseteq> dom (ss_key_len t)" for t
  proof -
    have "resumable key cids (with_inflight m1 t)"
      unfolding m1 using Cons.prems(1) by (intro resumable_tail [OF Cons.prems(2) _ that]) simp
    from Cons.IH [OF _ this] Cons.prems(1) show ?thesis
      by (simp add: r st starts_inflight res_bind_assoc)
  qed
  show ?case
  proof (cases "set (fa_inflight_args call) \<subseteq> {key}")
    case False
    then show ?thesis using resume_call_waits [OF call(1) False] go [OF subset_refl] call(1)
      by (simp add: ready_def flip: m1)
  next
    case True
    then have erase: "map_erase ?m c = m1" by (simp add: m1 map_erase_def strike_def call(1))
    show ?thesis
    proof (cases "start_waiting conf env call s")
      case (Ok t)
      have "same_tables s t" using Ok by (auto simp: start_waiting_def intro: schedule_tables)
      then have "ss_inflight t = ?m" "dom (ss_key_len s) \<subseteq> dom (ss_key_len t)" by (simp_all add: same_tables_def)
      with Ok resume_call_ready [OF call(1) True call(2) [OF True]] go [of t] True call(1) erase show ?thesis
        by (simp add: ready_def)
    next
      case (Fault e)
      with resume_call_ready [OF call(1) True call(2) [OF True]] True call(1) show ?thesis by (simp add: ready_def)
    qed
  qed
qed

lemma same_tables_other [simp]:
  "same_tables s (t\<lparr>ss_remote_get := gets\<rparr>) = same_tables s t"
  "same_tables s (t\<lparr>ss_kvs_put := puts\<rparr>) = same_tables s t"
  by (simp_all add: same_tables_def)

lemma noted_tables [simp]: "same_tables s (s\<lparr>ss_key_len := (ss_key_len s)(key \<mapsto> n)\<rparr>)"
  by (auto simp: same_tables_def)

lemma answer_remote_gets_tables: "answer_remote_gets key n s = Ok s' \<Longrightarrow> same_tables s s'"
  by (auto simp: answer_remote_gets_def split: option.splits dest!: answer_requests_tables)

text \<open>A call that is not entered under the key does not miss it.\<close>

lemma strike_all:
  assumes "wait_inv s"
  shows "strike_at key (map_at [] (ss_key_call_ids s) key) (ss_inflight s) = strike key (ss_inflight s)"
proof
  fix cid
  have l: "linked (ss_key_call_ids s) (missing (waiting s))" using assms by (simp add: wait_inv_def)
  have "strike key (ss_inflight s) cid = ss_inflight s cid" if "cid \<notin> set (map_at [] (ss_key_call_ids s) key)"
  proof (cases "ss_inflight s cid")
    case (Some call)
    have "key \<notin> set (fa_inflight_args call)"
      using that linkedD(1) [OF l, of key cid] Some by (simp add: missing_def waiting_def)
    moreover have "set (fa_inflight_args call) \<noteq> {}" using assms Some by (auto simp: wait_inv_def waiting_def)
    ultimately have "\<not> set (fa_inflight_args call) \<subseteq> {key}" and "uset_erase key (fa_inflight_args call) = fa_inflight_args call"
      by (auto simp: uset_erase_def filter_id_conv subset_singleton_iff)
    then show ?thesis by (simp add: strike_def Some)
  qed (simp add: strike_def)
  then show "strike_at key (map_at [] (ss_key_call_ids s) key) (ss_inflight s) cid = strike key (ss_inflight s) cid"
    by (simp add: strike_at_def)
qed

lemma resumable_entered:
  assumes "wait_inv s" and "same_tables s s1" and "ss_key_len s1 key \<noteq> None"
  shows "resumable key (map_at [] (ss_key_call_ids s) key) s1"
  unfolding resumable_def
proof
  fix cid assume "cid \<in> set (map_at [] (ss_key_call_ids s) key)"
  moreover have "linked (ss_key_call_ids s) (missing (waiting s))" using assms(1) by (simp add: wait_inv_def)
  ultimately have "key \<in> missing (waiting s) cid" using linkedD(1) by blast
  then obtain call where call: "ss_inflight s cid = Some call" by (auto simp: missing_def waiting_def split: option.splits)
  then have "args_come (ss_key_len s1) call"
    using assms(1,2) args_come_mono unfolding wait_inv_def same_tables_def by blast
  then show "\<exists>call. ss_inflight s1 cid = Some call \<and>
      (set (fa_inflight_args call) \<subseteq> {key} \<longrightarrow> set (fa_key_args call) \<subseteq> dom (ss_key_len s1))"
    using call assms(2,3) by (auto simp: args_come_def same_tables_def)
qed

lemma answer_requests_key_len: "answer_requests resp reqs s = Ok s' \<Longrightarrow> ss_key_len s' = ss_key_len s"
  unfolding answer_requests_def
  by (erule res_fold_invariant [of _ _ _ _ "\<lambda>t. ss_key_len t = ss_key_len s"])
    (auto simp: send_to_executer_def split: if_splits)

lemma answer_remote_gets_key_len: "answer_remote_gets key n s = Ok s' \<Longrightarrow> ss_key_len s' = ss_key_len s"
  by (auto simp: answer_remote_gets_def split: option.splits dest!: answer_requests_key_len)

lemma handle_data_resp_refines:
  assumes "wait_inv s"
  shows "handle_data_resp conf env msg s = object_arrives conf env (rm_data_key msg) (rm_data_size msg) s"
proof (cases "answer_remote_gets (rm_data_key msg) (rm_data_size msg)
    (s\<lparr>ss_key_len := (ss_key_len s)(rm_data_key msg \<mapsto> rm_data_size msg)\<rparr>)")
  case (Fault e)
  then show ?thesis by (simp add: handle_data_resp_def object_arrives_def Let_def)
next
  case (Ok s1)
  let ?key = "rm_data_key msg" and ?cids = "map_at [] (ss_key_call_ids s) (rm_data_key msg)"
  have t: "same_tables s s1" by (rule same_tables_trans [OF noted_tables answer_remote_gets_tables [OF Ok]])
  then have ids: "ss_key_call_ids s1 = ss_key_call_ids s" and m: "ss_inflight s1 = ss_inflight s"
    by (simp_all add: same_tables_def)
  have l: "linked (ss_key_call_ids s) (missing (waiting s))" using assms by (simp add: wait_inv_def)
  have here: "ss_key_len s1 ?key \<noteq> None" using answer_remote_gets_key_len [OF Ok] by simp
  note spec = resume_calls_spec [OF linkedD(2) [OF l] resumable_entered [OF assms t here], of conf env,
      unfolded m strike_all [OF assms]]
  have ids2: "ss_key_call_ids s2 = ss_key_call_ids s" if "res_fold (start_waiting conf env) calls s1 = Ok s2" for calls s2
    using starts_tables [OF that] ids by (simp add: same_tables_def)
  show ?thesis
  proof (cases "ss_key_call_ids s ?key")
    case None
    then have "strike_at ?key [] (ss_inflight s) = strike ?key (ss_inflight s)"
      using strike_all [OF assms, of ?key] by (simp only: map_at_None)
    then have stays: "strike ?key (ss_inflight s) = ss_inflight s" by (simp only: strike_at_Nil)
    have "map_erase (ss_key_call_ids s) ?key = ss_key_call_ids s" using None by (simp add: map_erase_def fun_upd_idem)
    moreover have "s1\<lparr>ss_inflight := ss_inflight s, ss_key_call_ids := ss_key_call_ids s\<rparr> = s1" by (simp flip: ids m)
    ultimately show ?thesis
      using Ok None ids stays by (simp add: handle_data_resp_def object_arrives_def Let_def ready_def)
  next
    case (Some cids)
    show ?thesis
    proof (cases "res_fold (start_waiting conf env) (ready ?key (ss_inflight s) cids) s1")
      case sOk: (Ok s2)
      with Ok Some ids spec ids2 [OF sOk] show ?thesis by (simp add: handle_data_resp_def object_arrives_def Let_def)
    next
      case (Fault e)
      with Ok Some ids spec show ?thesis by (simp add: handle_data_resp_def object_arrives_def Let_def)
    qed
  qed
qed

lemma waiting_strike: "ss_inflight s' = strike key (ss_inflight s) \<Longrightarrow> waiting s' = arrive key (waiting s)"
  by (auto simp: waiting_def strike_def arrive_def uset_erase_def fun_eq_iff split: option.splits)

lemma linked_arrive:
  assumes "linked ids (missing w)"
  shows "linked (map_erase ids key) (missing (arrive key w))"
proof -
  have "missing (arrive key w) cid = missing w cid - {key}" for cid
    by (cases "w cid") (auto simp: missing_def arrive_def)
  then show ?thesis using assms by (auto simp: linked_def map_at_erase)
qed

lemma object_arrives_waiting:
  assumes "wait_inv s" and "object_arrives conf env key n s = Ok s'"
  shows "wait_inv s' \<and> waiting s' = arrive key (waiting s) \<and> ss_call_id s' = ss_call_id s"
proof -
  obtain s1 s2 where a: "answer_remote_gets key n (s\<lparr>ss_key_len := (ss_key_len s)(key \<mapsto> n)\<rparr>) = Ok s1"
    and st: "res_fold (start_waiting conf env) (ready key (ss_inflight s) (map_at [] (ss_key_call_ids s) key)) s1 = Ok s2"
    and s': "s' = s2\<lparr>ss_inflight := strike key (ss_inflight s), ss_key_call_ids := map_erase (ss_key_call_ids s) key\<rparr>"
    using assms(2) unfolding object_arrives_def by auto
  have t: "same_tables s s2"
    by (rule same_tables_trans [OF noted_tables same_tables_trans [OF answer_remote_gets_tables [OF a] starts_tables [OF st]]])
  have here: "ss_key_len s2 key \<noteq> None"
    using starts_tables [OF st] answer_remote_gets_key_len [OF a] by (auto simp: same_tables_def dom_def)
  have i': "ss_inflight s' = strike key (ss_inflight s)" and ids': "ss_key_call_ids s' = map_erase (ss_key_call_ids s) key"
    and len': "ss_key_len s' = ss_key_len s2" and c': "ss_call_id s' = ss_call_id s"
    using t by (simp_all add: s' same_tables_def)
  have w: "waiting s' = arrive key (waiting s)" using i' by (rule waiting_strike)
  have l: "linked (ss_key_call_ids s') (missing (waiting s'))"
    using linked_arrive [of "ss_key_call_ids s" "waiting s" key] assms(1) by (simp add: w wait_inv_def ids')
  have sub: "arrive key (waiting s) cid = Some ks \<Longrightarrow> ks \<noteq> {} \<and> unat cid < unat (ss_call_id s)" for cid ks
    using assms(1) by (auto simp: arrive_def wait_inv_def split: option.splits if_splits)
  have "args_come (ss_key_len s') call" if "ss_inflight s' cid = Some call" for cid call
  proof -
    obtain old where old: "ss_inflight s cid = Some old"
      and call: "call = old\<lparr>fa_inflight_args := uset_erase key (fa_inflight_args old)\<rparr>"
      using \<open>ss_inflight s' cid = Some call\<close> by (auto simp: i' strike_def split: option.splits if_splits)
    have "args_come (ss_key_len s2) old"
      using old assms(1) t args_come_mono unfolding wait_inv_def same_tables_def by blast
    with here show ?thesis by (auto simp: len' call args_come_def uset_erase_def)
  qed
  then show ?thesis using l sub unfolding wait_inv_def w c' by blast
qed

lemma handle_kvs_tables:
  "handle_kvs_get_resp msg s = Ok s' \<Longrightarrow> same_tables s s'"
  "handle_kvs_put_resp msg s = Ok s' \<Longrightarrow> same_tables s s'"
  by (auto simp: handle_kvs_get_resp_def handle_kvs_put_resp_def Let_def split: option.splits
      intro: same_tables_trans [OF noted_tables] dest!: answer_requests_tables)

lemma handle_calls_inv:
  assumes "wait_inv s" and "res_fold (handle_call conf env msg) is s = Ok s'" and "unat (ss_call_id s) + length is < 2 ^ 32"
  shows "wait_inv s' \<and> unat (ss_call_id s') = unat (ss_call_id s) + length is"
  using assms
proof (induction "is" arbitrary: s)
  case (Cons i "is")
  obtain s1 where s1: "handle_call conf env msg i s = Ok s1" and rest: "res_fold (handle_call conf env msg) is s1 = Ok s'"
    using Cons.prems(2) by auto
  have "unat (ss_call_id s) + 1 < 2 ^ 32" using Cons.prems(3) by simp
  note h = handle_call_inv [OF Cons.prems(1) s1 this]
  from Cons.IH [OF _ rest] h Cons.prems(3) show ?case by simp
qed simp

lemma handle_comm_resp_inv:
  assumes "wait_inv s" and "handle_comm_resp conf env msg s = Ok s'"
    and "unat (ss_call_id s) + length (rm_func_name msg) < 2 ^ 32"
  shows "wait_inv s' \<and> unat (ss_call_id s') \<le> unat (ss_call_id s) + length (rm_func_name msg)"
proof (cases "rm_msg_type msg")
  case Null
  then show ?thesis using assms by (simp add: handle_comm_resp_def)
next
  case Call
  let ?s = "s\<lparr>ss_session_client := (ss_session_client s)(rm_session_id msg \<mapsto> rm_resp_address msg)\<rparr>"
  have inv: "wait_inv ?s" using assms(1) by (simp add: wait_inv_def)
  have f: "res_fold (handle_call conf env msg) [0..<length (rm_func_name msg)] ?s = Ok s'"
    using assms(2) Call by (simp add: handle_comm_resp_def handle_calls_def)
  from handle_calls_inv [OF inv f] assms(3) show ?thesis by simp
next
  case DataResp
  then show ?thesis
    using object_arrives_waiting [OF assms(1)] handle_data_resp_refines [OF assms(1)] assms(2)
    by (auto simp: handle_comm_resp_def)
next
  case KvsGetResp
  then have t: "same_tables s s'" using assms(2) by (intro handle_kvs_tables(1) [of msg]) (simp add: handle_comm_resp_def)
  then show ?thesis using same_tables_inv [OF t assms(1)] by (simp add: same_tables_def)
next
  case KvsPutResp
  then have t: "same_tables s s'" using assms(2) by (intro handle_kvs_tables(2) [of msg]) (simp add: handle_comm_resp_def)
  then show ?thesis using same_tables_inv [OF t assms(1)] by (simp add: same_tables_def)
qed

lemma handle_comm_resps_inv:
  assumes "wait_inv s" and "res_fold (handle_comm_resp conf env) msgs s = Ok s'"
    and "unat (ss_call_id s) + sum_list (map (\<lambda>msg. length (rm_func_name msg)) msgs) < 2 ^ 32"
  shows "wait_inv s'"
  using assms
proof (induction msgs arbitrary: s)
  case (Cons msg msgs)
  obtain s1 where s1: "handle_comm_resp conf env msg s = Ok s1"
    and rest: "res_fold (handle_comm_resp conf env) msgs s1 = Ok s'"
    using Cons.prems(2) by auto
  have "unat (ss_call_id s) + length (rm_func_name msg) < 2 ^ 32" using Cons.prems(3) by simp
  note h = handle_comm_resp_inv [OF Cons.prems(1) s1 this]
  from Cons.IH [OF _ rest] h Cons.prems(3) show ?case by simp
qed simp

text \<open>
  Property C9: whatever messages the helper hands over, in any order, the two tables of waiting calls
  agree: a call is entered under exactly the keys that it misses, it misses at least one, these are
  arguments of its own, and all its other arguments are here. The next call with named arguments then
  does what the specification says: if all of them are here it is scheduled at once with their
  lengths, and otherwise exactly the objects that are not here and that no other call waits for are
  asked for, each once, and the call waits for those that are not here. The ids of calls must not run
  through all 32-bit numbers.
\<close>

theorem waiting_calls_invariant:
  assumes "wait_inv s" and "res_fold (handle_comm_resp conf env) msgs s = Ok s'"
    and "unat (ss_call_id s) + sum_list (map (\<lambda>msg. length (rm_func_name msg)) msgs) < 2 ^ 32"
  shows "wait_inv s' \<and> call_by_name conf env session app func args flag s' =
    spec_call_by_name conf env session app func args flag s'"
  using handle_comm_resps_inv [OF assms] call_by_name_refines by blast

text \<open>
  Property C6: a call waits until its last missing object has arrived, and then it is started. For
  answers with data in any order, with repetitions and with keys that nobody waits for, the scheduler
  does what the specification says: each answer schedules exactly the calls that have missed only
  this object, each once, with the lengths of all their objects, and strikes the object from the
  others. The calls that are still waiting at the end are those that miss an object that has not come.
\<close>

theorem waiting_calls_arrive:
  assumes "wait_inv s" and "list_all (\<lambda>msg. rm_msg_type msg = DataResp) msgs"
  shows "res_fold (handle_comm_resp conf env) msgs s =
      res_fold (\<lambda>msg. object_arrives conf env (rm_data_key msg) (rm_data_size msg)) msgs s \<and>
    (\<forall>s'. res_fold (handle_comm_resp conf env) msgs s = Ok s' \<longrightarrow>
       waiting s' = fold arrive (map rm_data_key msgs) (waiting s) \<and> wait_inv s')"
  using assms
proof (induction msgs arbitrary: s)
  case (Cons msg msgs)
  have m: "handle_comm_resp conf env msg s = object_arrives conf env (rm_data_key msg) (rm_data_size msg) s"
    using handle_data_resp_refines [OF Cons.prems(1)] Cons.prems(2) by (simp add: handle_comm_resp_def)
  show ?case
  proof (cases "object_arrives conf env (rm_data_key msg) (rm_data_size msg) s")
    case (Ok s1)
    note h = object_arrives_waiting [OF Cons.prems(1) Ok]
    from Cons.IH [of s1] h Cons.prems(2) m Ok show ?thesis by simp
  qed (simp add: m)
qed simp

text \<open>A call for two objects, of which one is here already.\<close>

definition ex_named_call :: RecvMsg where
  "ex_named_call = empty_recv\<lparr>rm_msg_type := Call, rm_app_name := ''app'', rm_session_id := ''s'',
     rm_func_name := [''f''], rm_func_args := [[''b|k'', ''b|l'']], rm_is_func_arg_keys := [1]\<rparr>"

definition ex_data :: "string \<Rightarrow> RecvMsg" where
  "ex_data key = empty_recv\<lparr>rm_msg_type := DataResp, rm_data_key := key, rm_data_size := 5\<rparr>"

definition ex_waiting :: SchedState where
  "ex_waiting = (ex_sched 0 3)\<lparr>ss_call_id := 1, ss_key_len := [''b|k'' \<mapsto> 4],
     ss_key_call_ids := [''b|l'' \<mapsto> [0]],
     ss_inflight := [0 \<mapsto> \<lparr>fa_func_name = ''f'', fa_session_id = ''s'', fa_key_args = [''b|k'', ''b|l''],
                           fa_inflight_args = [''b|l''], fa_arg_flag = 1\<rparr>]\<rparr>"

lemma ex_waiting_inv: "wait_inv ex_waiting"
  by (auto simp: wait_inv_def linked_def missing_def waiting_def ex_waiting_def map_at_def args_come_def
      split: if_splits option.splits)

theorem waiting_calls_arrive_witness:
  "\<exists>s'. res_fold (handle_comm_resp (ex_conf 0) (ex_henv 0)) [ex_data ''b|l''] ex_waiting = Ok s' \<and>
     object_arrives (ex_conf 0) (ex_henv 0) ''b|l'' 5 ex_waiting = Ok s' \<and> waiting s' = Map.empty"
proof -
  obtain s' where s': "res_fold (handle_comm_resp (ex_conf 0) (ex_henv 0)) [ex_data ''b|l''] ex_waiting = Ok s'"
    by (simp add: handle_comm_resp_def ex_data_def empty_recv_def handle_data_resp_def answer_remote_gets_def
        ex_waiting_def ex_sched_def resume_call_def uset_erase_def full_args_def schedule_func_call_def
        choose_executor_def ex_henv_def start_call_def send_to_executer_def ex_conf_def Let_def empty_registry_def)
  have d: "list_all (\<lambda>msg. rm_msg_type msg = DataResp) [ex_data ''b|l'']" and k: "rm_data_key (ex_data ''b|l'') = ''b|l''"
    "rm_data_size (ex_data ''b|l'') = 5" by (simp_all add: ex_data_def empty_recv_def)
  note r = waiting_calls_arrive [OF ex_waiting_inv d, of "ex_conf 0" "ex_henv 0"]
  have arr: "object_arrives (ex_conf 0) (ex_henv 0) ''b|l'' 5 ex_waiting = Ok s'"
    using r s' k by (cases "object_arrives (ex_conf 0) (ex_henv 0) ''b|l'' 5 ex_waiting") auto
  have "waiting ex_waiting = [0 \<mapsto> {''b|l''}]" by (auto simp: waiting_def ex_waiting_def fun_eq_iff)
  then have "waiting s' = Map.empty" using r s' k by (auto simp: arrive_def fun_eq_iff)
  with s' arr show ?thesis by blast
qed

theorem waiting_calls_invariant_witness:
  "\<exists>s'. res_fold (handle_comm_resp (ex_conf 0) (ex_henv 0)) [ex_named_call] (ex_sched 0 0) = Ok s' \<and> wait_inv s' \<and>
     call_by_name (ex_conf 0) (ex_henv 0) ''s'' ''app'' ''f'' [''b|k''] 1 s' =
     spec_call_by_name (ex_conf 0) (ex_henv 0) ''s'' ''app'' ''f'' [''b|k''] 1 s'"
proof -
  have inv: "wait_inv (ex_sched 0 0)"
    by (auto simp: wait_inv_def linked_def missing_def waiting_def ex_sched_def)
  obtain s' where s': "res_fold (handle_comm_resp (ex_conf 0) (ex_henv 0)) [ex_named_call] (ex_sched 0 0) = Ok s'"
    by (simp add: handle_comm_resp_def ex_named_call_def empty_recv_def handle_calls_def handle_call_def call_by_name_def
        fetch_arg_def ex_sched_def via_helper_def send_data_req_def offload_def ex_helper_def new_CommHelper_def
        get_io_thread_id_def send_data_req_base_def get_key_address_def nth_res_def Let_def uset_insert_def)
  have "unat (ss_call_id (ex_sched 0 0)) + sum_list (map (\<lambda>msg. length (rm_func_name msg)) [ex_named_call]) < 2 ^ 32"
    by (simp add: ex_sched_def ex_named_call_def empty_recv_def)
  from waiting_calls_invariant [OF inv s' this, of "''s''" "''app''" "''f''" "[''b|k'']" 1] s' show ?thesis by blast
qed

end
