(* ===== verification/Ph_Sched_Inv.thy ===== *)
theory Ph_Sched_Inv
  imports Ph_Sched_Laws
begin

text \<open>
  The well-formedness of a scheduler's state: one entry per executor, each with a channel, pointers
  that point to triggers, and an ordered queue of checks. Every turn of the event loop keeps it.
\<close>

definition checks_ok :: "SchedState \<Rightarrow> bool" where
  "checks_ok s \<longleftrightarrow> checks_sorted s \<and>
     list_all (\<lambda>item. rc_trigger_ptr item < length (rg_triggers (ss_rg s))) (ss_rerun_queue s)"

definition sched_ok :: "SchedState \<Rightarrow> bool" where
  "sched_ok s \<longleftrightarrow> status_ok s \<and> reg_ok (ss_rg s) \<and> checks_ok s"

text \<open>Operations that do not touch any of it.\<close>

definition same_core :: "SchedState \<Rightarrow> SchedState \<Rightarrow> bool" where
  "same_core s s' \<longleftrightarrow> ss_executor_status s' = ss_executor_status s \<and> ss_executors s' = ss_executors s \<and>
     ss_rg s' = ss_rg s \<and> ss_rerun_queue s' = ss_rerun_queue s"

lemma same_core_ok: "same_core s s' \<Longrightarrow> sched_ok s \<Longrightarrow> sched_ok s'"
  by (simp add: same_core_def sched_ok_def status_ok_def checks_ok_def)

lemma via_helper_ok: "via_helper f s = Ok s' \<Longrightarrow> sched_ok s \<Longrightarrow> sched_ok s'"
  by (rule same_core_ok [of s]) (auto simp: via_helper_def same_core_def)

lemma send_to_executer_ok: "send_to_executer e m s = Ok s' \<Longrightarrow> sched_ok s \<Longrightarrow> sched_ok s'"
  by (rule same_core_ok [of s]) (auto simp: send_to_executer_def same_core_def split: if_splits)

lemma forward_ok: "forward_call_via_helper session app names argss flag s = Ok s' \<Longrightarrow> sched_ok s \<Longrightarrow> sched_ok s'"
  by (rule same_core_ok [of s]) (auto simp: same_core_def dest!: forward_frame)

section \<open>Scheduling\<close>

lemma note_rerun_ok:
  assumes "reg_ok (ss_rg s)" and "checks_ok s" and "rt_trigger_ptr m < length (rg_triggers (ss_rg s))"
  shows "reg_ok (ss_rg (note_rerun now sess f args flag m s)) \<and> checks_ok (note_rerun now sess f args flag m s) \<and>
    length (rg_triggers (ss_rg (note_rerun now sess f args flag m s))) = length (rg_triggers (ss_rg s))"
  using assms by (auto simp: note_rerun_def Let_def checks_ok_def sorted_rerun_push list_all_iff)

lemma fold_note_rerun_ok:
  assumes "reg_ok (ss_rg s)" and "checks_ok s"
    and "list_all (\<lambda>m. rt_trigger_ptr m < length (rg_triggers (ss_rg s))) ms"
  shows "reg_ok (ss_rg (fold (note_rerun now sess f args flag) ms s)) \<and>
    checks_ok (fold (note_rerun now sess f args flag) ms s)"
  using assms
proof (induction ms arbitrary: s)
  case (Cons m ms)
  have "rt_trigger_ptr m < length (rg_triggers (ss_rg s))" using Cons.prems(3) by simp
  note n = note_rerun_ok [OF Cons.prems(1,2) this, of now sess f args flag]
  from Cons.IH [of "note_rerun now sess f args flag m s"] n Cons.prems(3) show ?case by simp
qed simp

lemma start_call_ok:
  assumes "sched_ok s" and "start_call now e sess f args flag s = Ok s'" and "(e, st) \<in> set (ss_executor_status s)"
  shows "sched_ok s'"
proof -
  let ?ms = "map_at [] (rg_func_trigger_timeout (ss_rg s)) f"
  obtain s1 where s1: "send_to_executer e (call_message flag (client_of sess s = []) sess f args) s = Ok s1"
    and s': "s' = fold (note_rerun now sess f args flag) ?ms
      (s1\<lparr>ss_executor_status := AList.update e 2 (ss_executor_status s1)\<rparr>)"
    using assms(2) by (auto simp: start_call_def)
  let ?s2 = "s1\<lparr>ss_executor_status := AList.update e 2 (ss_executor_status s1)\<rparr>"
  have eq: "ss_executor_status s1 = ss_executor_status s" "ss_executors s1 = ss_executors s" "ss_rg s1 = ss_rg s"
    "ss_rerun_queue s1 = ss_rerun_queue s"
    using s1 by (auto simp: send_to_executer_def split: if_splits)
  have "list_all (\<lambda>m. rt_trigger_ptr m < length (rg_triggers (ss_rg ?s2))) ?ms"
    using assms(1) by (simp add: sched_ok_def reg_ok_def ptrs_ok_def eq)
  moreover have "reg_ok (ss_rg ?s2)" "checks_ok ?s2" using assms(1) by (simp_all add: sched_ok_def checks_ok_def eq)
  ultimately have "reg_ok (ss_rg s') \<and> checks_ok s'" unfolding s' by (intro fold_note_rerun_ok)
  moreover have "status_ok s'"
    using assms(1,3) by (auto simp: s' sched_ok_def status_ok_def eq intro: update_all)
  ultimately show ?thesis by (simp add: sched_ok_def)
qed

lemma schedule_ok:
  assumes "sched_ok s" and "schedule_func_call conf env session app func args flag s = Ok s'"
  shows "sched_ok s'"
proof (cases rule: schedule_choice [of env conf s func])
  case (taken e cold seed)
  obtain st where st: "(e, st) \<in> set (ss_executor_status s)" using taken(2) by (auto simp: takes_def can_take_def)
  let ?s1 = "s\<lparr>ss_ram_seed := seed, ss_function_executor := (if cold then (ss_function_executor s)(func \<mapsto>
      uset_insert e (map_at [] (ss_function_executor s) func)) else ss_function_executor s)\<rparr>"
  have sc: "start_call (he_now env) e session func args flag ?s1 = Ok s'"
    using assms(2) unfolding schedule_func_call_def Let_def taken(1) prod.case option.case .
  have "sched_ok ?s1" by (rule same_core_ok [OF _ assms(1)]) (simp add: same_core_def)
  from start_call_ok [OF this sc] st show ?thesis by simp
next
  case (not_taken seed)
  note eq = schedule_not_taken [OF not_taken(1), of session app args flag]
  show ?thesis
  proof (cases "0 < sc_delay_time conf \<or> sc_reject conf")
    case True
    then have "same_core s s'" using assms(2) eq by (auto simp: same_core_def split: if_splits)
    then show ?thesis by (rule same_core_ok [OF _ assms(1)])
  next
    case False
    then obtain argss where "forward_call_via_helper session app [func] argss flag s = Ok s'"
      using assms(2) eq by (auto elim!: res_bind_OkE)
    then show ?thesis by (rule forward_ok [OF _ assms(1)])
  qed
qed

section \<open>Results that keep it\<close>

text \<open>What holds of the value of a computation that does not fail; the rules follow the structure of the code.\<close>

named_theorems yields_intro

definition yields :: "('a \<Rightarrow> bool) \<Rightarrow> 'a res \<Rightarrow> bool" where
  "yields P r \<longleftrightarrow> (\<forall>x. r = Ok x \<longrightarrow> P x)"

abbreviation keeps_ok :: "SchedState res \<Rightarrow> bool" where
  "keeps_ok \<equiv> yields sched_ok"

abbreviation keeps_snd :: "('a \<times> SchedState) res \<Rightarrow> bool" where
  "keeps_snd \<equiv> yields (\<lambda>p. sched_ok (snd p))"

lemma yields_Ok [yields_intro]: "P x \<Longrightarrow> yields P (Ok x)"
  by (simp add: yields_def)

lemma yields_Fault [yields_intro]: "yields P (Fault f)"
  by (simp add: yields_def)

lemma yields_bind: "yields P r \<Longrightarrow> (\<And>x. P x \<Longrightarrow> yields Q (f x)) \<Longrightarrow> yields Q (res_bind r f)"
  by (cases r) (simp_all add: yields_def)

lemma yields_bind_any: "(\<And>x. yields Q (f x)) \<Longrightarrow> yields Q (res_bind r f)"
  by (cases r) (simp_all add: yields_def)

lemma keeps_bind [yields_intro]: "keeps_ok r \<Longrightarrow> (\<And>s. sched_ok s \<Longrightarrow> yields Q (f s)) \<Longrightarrow> yields Q (res_bind r f)"
  by (rule yields_bind)

lemma keeps_snd_bind [yields_intro]:
  "keeps_snd r \<Longrightarrow> (\<And>a s. sched_ok s \<Longrightarrow> yields Q (f (a, s))) \<Longrightarrow> yields Q (res_bind r f)"
  by (rule yields_bind [of "\<lambda>p. sched_ok (snd p)"]) auto

lemma yields_if [yields_intro]: "(b \<Longrightarrow> yields P x) \<Longrightarrow> (\<not> b \<Longrightarrow> yields P y) \<Longrightarrow> yields P (if b then x else y)"
  by simp

lemma yields_fold: "P s \<Longrightarrow> (\<And>x s. P s \<Longrightarrow> yields P (f x s)) \<Longrightarrow> yields P (res_fold f xs s)"
  using res_fold_invariant [of f xs s _ P] by (auto simp: yields_def)

lemma same_core_keeps: "same_core s s' \<Longrightarrow> sched_ok s \<Longrightarrow> keeps_ok (Ok s')"
  by (simp add: yields_def same_core_ok)

lemma same_core_updates [simp]:
  "sched_ok (s\<lparr>ss_key_len := a\<rparr>) = sched_ok s" "sched_ok (s\<lparr>ss_key_val := b\<rparr>) = sched_ok s"
  "sched_ok (s\<lparr>ss_call_id := c\<rparr>) = sched_ok s" "sched_ok (s\<lparr>ss_shm := d\<rparr>) = sched_ok s"
  "sched_ok (s\<lparr>ss_out := e\<rparr>) = sched_ok s" "sched_ok (s\<lparr>ss_kvs_put := f\<rparr>) = sched_ok s"
  "sched_ok (s\<lparr>ss_remote_get := g\<rparr>) = sched_ok s" "sched_ok (s\<lparr>ss_key_call_ids := h\<rparr>) = sched_ok s"
  "sched_ok (s\<lparr>ss_inflight := i\<rparr>) = sched_ok s" "sched_ok (s\<lparr>ss_session_client := j\<rparr>) = sched_ok s"
  "sched_ok (s\<lparr>ss_delay_queue := k\<rparr>) = sched_ok s" "sched_ok (s\<lparr>ss_report_start := l\<rparr>) = sched_ok s"
  "sched_ok (s\<lparr>ss_ch := m\<rparr>) = sched_ok s"
  by (simp_all add: sched_ok_def status_ok_def checks_ok_def)

lemma schedule_keeps [yields_intro]: "sched_ok s \<Longrightarrow> keeps_ok (schedule_func_call conf env session app func args flag s)"
  by (simp add: yields_def schedule_ok)

lemma forward_keeps [yields_intro]: "sched_ok s \<Longrightarrow> keeps_ok (forward_call_via_helper session app names argss flag s)"
  by (auto simp: yields_def intro: forward_ok)

lemma via_helper_keeps [yields_intro]: "sched_ok s \<Longrightarrow> keeps_ok (via_helper f s)"
  by (auto simp: yields_def intro: via_helper_ok)

lemma send_keeps [yields_intro]: "sched_ok s \<Longrightarrow> keeps_ok (send_to_executer e m s)"
  by (auto simp: yields_def intro: send_to_executer_ok)

section \<open>New objects\<close>

lemma arrival_trigger_ok: "sched_ok (snd (snd acc)) \<Longrightarrow> sched_ok (snd (snd (arrival_trigger now bk p acc)))"
  by (cases acc)
    (auto simp: arrival_trigger_def Let_def sched_ok_def status_ok_def checks_ok_def split: prod.splits)

lemma check_object_arrival_ok: "sched_ok s \<Longrightarrow> sched_ok (snd (snd (check_object_arrival now bk s)))"
  unfolding check_object_arrival_def
  by (rule fold_keeps [of "\<lambda>acc. sched_ok (snd (snd acc))"]) (simp_all add: arrival_trigger_ok)

lemma check_trigger_keeps [yields_intro]:
  assumes "sched_ok s"
  shows "keeps_snd (check_trigger conf env bk session s)"
proof -
  obtain active metas s1 where c: "check_object_arrival (he_now env) bk s = (active, metas, s1)" by (metis surj_pair)
  then have "sched_ok s1" using check_object_arrival_ok [OF assms, of "he_now env" bk] by simp
  then show ?thesis unfolding check_trigger_def c prod.case
    by (intro yields_bind [OF yields_fold [of sched_ok]] schedule_keeps yields_Ok) simp_all
qed

lemma direct_invocation_keeps [yields_intro]:
  "sched_ok s \<Longrightarrow> keeps_ok (direct_invocation conf env session app deps tgt args flag s)"
  unfolding direct_invocation_def Let_def by (intro yields_intro yields_fold)

lemma store_object_keeps [yields_intro]: "sched_ok s \<Longrightarrow> keeps_ok (store_object name pk info s)"
  unfolding store_object_def by (intro yields_if yields_Ok yields_bind_any) simp_all

lemma notify_object_keeps [yields_intro]: "sched_ok s \<Longrightarrow> keeps_ok (notify_object conf env session bk pk name s)"
  unfolding notify_object_def by (intro keeps_snd_bind [OF check_trigger_keeps]) (auto intro!: yields_intro)

lemma ephemeral_object_keeps [yields_intro]:
  "sched_ok s \<Longrightarrow> keeps_ok (ephemeral_object conf env pk session src tgt bucket sk info s)"
  unfolding ephemeral_object_def Let_def by (intro keeps_bind store_object_keeps) (auto split: option.split intro!: yields_intro)

lemma persist_object_keeps [yields_intro]:
  "sched_ok s \<Longrightarrow> keeps_ok (persist_object env e req pk bucket sk info s)"
  unfolding persist_object_def Let_def
  by (intro keeps_bind yields_if via_helper_keeps yields_bind_any) (auto split: prod.split intro!: yields_intro)

lemma respond_object_keeps [yields_intro]:
  "sched_ok s \<Longrightarrow> keeps_ok (respond_object pk session src bucket sk info s)"
  unfolding respond_object_def by (intro yields_bind_any) (auto intro!: yields_intro)

lemma handle_send_object_keeps: "sched_ok s \<Longrightarrow> keeps_ok (handle_send_object conf env e type msg s)"
  unfolding handle_send_object_def
  by (intro yields_bind_any) (auto split: list.split intro!: ephemeral_object_keeps persist_object_keeps
      respond_object_keeps yields_Ok)

section \<open>Messages of executors\<close>

lemma ask_and_wait_keeps: "sched_ok s \<Longrightarrow> keeps_ok (res_bind (via_helper f s) (\<lambda>s1. Ok (wait_remote key req s1)))"
  by (auto simp: wait_remote_def intro!: keeps_bind via_helper_keeps yields_Ok)

lemma handle_get_request_keeps:
  assumes "sched_ok s"
  shows "keeps_ok (handle_get_request env e msg s)"
proof -
  note ask = ask_and_wait_keeps [OF assms] send_keeps [OF assms]
  show ?thesis unfolding handle_get_request_def Let_def
    by (rule yields_bind_any, rule yields_bind_any, rule yields_bind_any, rule yields_bind_any, rule yields_if)
      (auto split: option.split simp: ask intro: yields_bind_any)
qed

lemma list_all_update:
  "P (k, v) \<Longrightarrow> list_all P m \<Longrightarrow> list_all P (AList.update k v m)"
  by (induction m) auto

lemma set_status_ok: "sched_ok s \<Longrightarrow> unat e < ss_executors s \<Longrightarrow> sched_ok (set_status e st s)"
  by (auto simp: set_status_def sched_ok_def status_ok_def checks_ok_def intro: list_all_update)

text \<open>Executors write their number plus one in front of a message.\<close>

definition from_executor :: "string \<Rightarrow> SchedState \<Rightarrow> bool" where
  "from_executor msg s \<longleftrightarrow> (case msg of [] \<Rightarrow> False | c # _ \<Rightarrow> unat (unbyte c - 1) < ss_executors s)"

lemma handle_executor_msg_keeps:
  assumes "sched_ok s" and "from_executor msg s"
  shows "keeps_ok (handle_executor_msg conf env msg s)"
proof -
  obtain c cs where msg: "msg = c # cs" and e: "unat (unbyte c - 1) < ss_executors s"
    using assms(2) by (auto simp: from_executor_def split: list.splits)
  have "chan_at msg 0 = Ok (unbyte c)" by (simp add: msg chan_at_def nth_res_def)
  then show ?thesis
    unfolding handle_executor_msg_def Let_def using assms(1) e
    by (auto intro!: yields_bind_any handle_get_request_keeps handle_send_object_keeps yields_Ok set_status_ok)
qed

section \<open>Messages of the helper\<close>

lemma full_args_ok: "sched_ok (snd (full_args keys s)) = sched_ok s"
  by (simp add: full_args_def)

lemma fetch_arg_keeps: "sched_ok (snd acc) \<Longrightarrow> keeps_snd (fetch_arg arg acc)"
  unfolding fetch_arg_def by (auto split: prod.split intro!: yields_Ok keeps_bind yields_if via_helper_keeps)

lemma call_by_name_keeps: "sched_ok s \<Longrightarrow> keeps_ok (call_by_name conf env session app f args flag s)"
  unfolding call_by_name_def
  by (intro keeps_snd_bind yields_fold [of "\<lambda>p. sched_ok (snd p)"] fetch_arg_keeps)
    (auto simp: full_args_def intro!: yields_if schedule_keeps yields_Ok)

lemma handle_call_keeps: "sched_ok s \<Longrightarrow> keeps_ok (handle_call conf env msg i s)"
  unfolding handle_call_def
  by (intro yields_bind_any keeps_bind yields_if call_by_name_keeps schedule_keeps yields_Ok) simp_all

lemma handle_calls_keeps: "sched_ok s \<Longrightarrow> keeps_ok (handle_calls conf env msg s)"
  unfolding handle_calls_def by (rule yields_fold) (simp_all add: handle_call_keeps)

lemma answer_requests_keeps: "sched_ok s \<Longrightarrow> keeps_ok (answer_requests resp reqs s)"
  unfolding answer_requests_def by (rule yields_fold) (simp_all add: send_keeps)

lemma answer_remote_gets_keeps: "sched_ok s \<Longrightarrow> keeps_ok (answer_remote_gets key n s)"
  unfolding answer_remote_gets_def
  by (auto split: option.split intro!: yields_Ok keeps_bind answer_requests_keeps)

lemma resume_call_keeps: "sched_ok s \<Longrightarrow> keeps_ok (resume_call conf env key cid s)"
  unfolding resume_call_def Let_def full_args_def
  by (auto split: option.split intro!: yields_Ok yields_Fault keeps_bind schedule_keeps)

lemma handle_data_resp_keeps: "sched_ok s \<Longrightarrow> keeps_ok (handle_data_resp conf env msg s)"
  unfolding handle_data_resp_def Let_def
  by (intro keeps_bind answer_remote_gets_keeps)
    (auto split: option.split intro!: yields_Ok keeps_bind yields_fold [of sched_ok] resume_call_keeps)

lemma handle_kvs_resp_keeps:
  "sched_ok s \<Longrightarrow> keeps_ok (handle_kvs_get_resp msg s)"
  "sched_ok s \<Longrightarrow> keeps_ok (handle_kvs_put_resp msg s)"
  unfolding handle_kvs_get_resp_def handle_kvs_put_resp_def Let_def
  by (auto split: option.split intro!: yields_Ok keeps_bind answer_requests_keeps)

lemma handle_comm_resp_keeps: "sched_ok s \<Longrightarrow> keeps_ok (handle_comm_resp conf env msg s)"
  unfolding handle_comm_resp_def
  by (auto split: RecvMsgType.split intro!: yields_Ok handle_calls_keeps handle_data_resp_keeps handle_kvs_resp_keeps)

text \<open>The triggers of a scheduler only grow in number: a pointer, once good, stays good.\<close>

lemma install_trigger_grows: "length (rg_triggers (install_trigger entity tr rg)) = Suc (length (rg_triggers rg))"
  by (simp add: install_trigger_def Let_def)

lemma add_entity_grows:
  "n \<le> length (rg_triggers (fst acc)) \<Longrightarrow> n \<le> length (rg_triggers (fst (add_entity env app th entity acc)))"
  by (cases acc) (auto simp: add_entity_def Let_def install_trigger_grows split: option.splits)

lemma handle_coord_msg_grows:
  "handle_coord_msg env msg rg ch = Ok (rg', ch') \<Longrightarrow> length (rg_triggers rg) \<le> length (rg_triggers rg')"
proof (erule handle_coord_msg_rule [of _ _ _ _ _ _ "\<lambda>rg'. length (rg_triggers rg) \<le> length (rg_triggers rg')"])
  fix app dep rg1 rg2
  assume d: "add_dependency app dep rg1 = Ok rg2" and "length (rg_triggers rg) \<le> length (rg_triggers rg1)"
  moreover have "rg_triggers (fold (\<lambda>f r. add_direct_dep app f (g f) r) fs r) = rg_triggers r" for g fs r
    by (induction fs arbitrary: r) (simp_all add: add_direct_dep_def Let_def)
  ultimately show "length (rg_triggers rg) \<le> length (rg_triggers rg2)" 
    by (auto simp: add_dependency_def add_direct_dep_def Let_def split: if_splits
      intro!: fold_keeps [of "\<lambda>rg'. length (rg_triggers rg) \<le> length (rg_triggers rg')"])
qed (auto simp: add_function_def add_entity_grows clear_entity_def delete_entity_def Let_def elim!: res_bind_OkE)

lemma recv_via_helper_keeps:
  assumes "sched_ok s"
  shows "keeps_snd (recv_via_helper env coord_msg inp s)"
proof -
  have reg: "reg_ok rg' \<and> length (rg_triggers (ss_rg s)) \<le> length (rg_triggers rg')"
    if "try_recv_msg env kl coord_msg inp (ss_rg s) ch shm = Ok (resps, out, rg', ch', shm')" for kl ch shm resps out rg' ch' shm'
    using that assms
    by (auto simp: try_recv_msg_def Let_def sched_ok_def elim!: res_bind_OkE split: option.splits
        dest: handle_coord_msg_ok handle_coord_msg_grows)
  have "sched_ok (s\<lparr>ss_rg := rg', ss_ch := ch, ss_shm := shm, ss_out := out\<rparr>)"
    if "reg_ok rg' \<and> length (rg_triggers (ss_rg s)) \<le> length (rg_triggers rg')" for rg' ch shm out
    using assms that by (auto simp: sched_ok_def status_ok_def checks_ok_def list_all_iff)
  with reg show ?thesis by (auto simp: yields_def recv_via_helper_def elim!: res_bind_OkE)
qed

section \<open>Queues and timers\<close>

lemma run_delayed_keeps: "sched_ok s \<Longrightarrow> keeps_ok (run_delayed conf env n s)"
  by (induction n arbitrary: s) (auto split: list.split intro!: yields_Ok keeps_bind schedule_keeps)

lemma expire_delayed_keeps: "sched_ok s \<Longrightarrow> keeps_ok (expire_delayed conf env calls s)"
  by (induction calls arbitrary: s) (auto intro!: yields_Ok keeps_bind forward_keeps)

lemma delay_forwarding_keeps: "sched_ok s \<Longrightarrow> keeps_ok (delay_forwarding conf env s)"
  unfolding delay_forwarding_def by (intro yields_if yields_Ok keeps_bind run_delayed_keeps expire_delayed_keeps)

lemma checks_pop: "sched_ok s \<Longrightarrow> sched_ok (s\<lparr>ss_rerun_queue := tl (ss_rerun_queue s)\<rparr>)"
  by (cases "ss_rerun_queue s") (auto simp: sched_ok_def status_ok_def checks_ok_def)

lemma rerun_item_keeps: "sched_ok s \<Longrightarrow> keeps_ok (rerun_item conf env item s)"
  unfolding rerun_item_def
  by (intro keeps_bind yields_fold [of sched_ok] schedule_keeps yields_Ok checks_pop)

lemma rerun_check_keeps: "rerun_check conf env s = Some r \<Longrightarrow> sched_ok s \<Longrightarrow> keeps_ok r"
proof (induction rule: rerun_check.raw_induct [rotated 1, consumes 1, case_names step])
  case (step rec conf env s r)
  then show ?case
    by (auto split: list.splits if_splits res.splits intro: yields_Ok yields_Fault rerun_item_keeps
        dest: rerun_item_keeps [of s conf env, unfolded yields_def, rule_format])
qed

lemma sched_timer_keeps: "sched_ok s \<Longrightarrow> keeps_ok (sched_timer conf env s)"
  unfolding sched_timer_def
  by (auto split: option.split intro!: yields_Ok yields_Fault keeps_bind dest: rerun_check_keeps)

lemma scheduler_step_keeps:
  assumes "sched_ok s" and "case chan_msg of None \<Rightarrow> True | Some msg \<Rightarrow> from_executor msg s"
  shows "keeps_ok (scheduler_step conf env chan_msg coord_msg inp s)"
proof -
  have "keeps_ok (case chan_msg of None \<Rightarrow> Ok s | Some msg \<Rightarrow> handle_executor_msg conf env msg s)"
    using assms by (cases chan_msg) (simp_all add: yields_Ok handle_executor_msg_keeps)
  then show ?thesis unfolding scheduler_step_def
    by (rule keeps_bind)
      (auto intro!: keeps_snd_bind [OF recv_via_helper_keeps] keeps_bind yields_fold [of sched_ok]
        handle_comm_resp_keeps delay_forwarding_keeps sched_timer_keeps)
qed

text \<open>
  Property C8: every turn of a scheduler's event loop keeps_ok its state well formed, whatever the
  coordinator, the other nodes and the storage send: one entry for an executor, each with a
  channel, pointers to triggers that exist, also after the coordinator has deleted triggers, and
  checks in the order of their times. The message of an executor is only asked to come from one.
\<close>

theorem scheduler_step_type:
  assumes "sched_ok s" and "case chan_msg of None \<Rightarrow> True | Some msg \<Rightarrow> from_executor msg s"
    and "scheduler_step conf env chan_msg coord_msg inp s = Ok s'"
  shows "sched_ok s'"
  using scheduler_step_keeps [OF assms(1,2), of conf env coord_msg inp] assms(3) by (simp add: yields_def)

text \<open>An executor reports the start of its function; nothing else happens.\<close>

definition ex_quiet :: helper_input where
  "ex_quiet = \<lparr>hi_call = None, hi_data_request = None, hi_data_response = None, hi_key_address = None,
     hi_key_response = None\<rparr>"

definition ex_node :: "uint8 \<Rightarrow> SchedState" where
  "ex_node a = (ex_sched a 0)\<lparr>ss_ch := new_CommHelper [] ''n2'' 2 [new_KvsClient 7 [] ''n2'' 0 10]\<rparr>"

lemma ex_node_recv: "recv_via_helper (ex_henv 0) None ex_quiet (ex_node a) = Ok ([], ex_node a)"
  by (simp add: recv_via_helper_def try_recv_msg_def ex_quiet_def poll_messages_def get_kvs_responses_def ex_sched_def
    on_client_def receive_async_def ex_node_def new_CommHelper_def nth_res_def new_KvsClient_def gc_requests_def
    gc_gets_def gc_puts_def)

lemma ex_node_step:
  "scheduler_step (ex_conf 0) (ex_henv 0) (Some [byte 1, byte 6]) None ex_quiet (ex_node 2) = Ok (ex_node 3)"
proof -
  have "handle_executor_msg (ex_conf 0) (ex_henv 0) [byte 1, byte 6] (ex_node 2) = Ok (ex_node 3)"
    by (simp add: handle_executor_msg_def chan_at_def nth_res_def set_status_def ex_node_def ex_sched_def)
  moreover have "delay_forwarding (ex_conf 0) (ex_henv 0) (ex_node 3) = Ok (ex_node 3)"
    "sched_timer (ex_conf 0) (ex_henv 0) (ex_node 3) = Ok (ex_node 3)"
    by (simp_all add: delay_forwarding_def sched_timer_def ex_node_def ex_sched_def ex_henv_def schedTimerThreshold_def cast_ms_def
      trunc_div_def)
  ultimately show ?thesis by (simp add: scheduler_step_def ex_node_recv)
qed

lemma ex_node_ok: "sched_ok (ex_node a)"
  by (simp add: sched_ok_def ex_node_def checks_ok_def status_ok_def ex_sched_def reg_ok_def ptrs_ok_def
      empty_registry_def)

theorem scheduler_step_type_witness:
  "\<exists>s'. scheduler_step (ex_conf 0) (ex_henv 0) (Some [byte 1, byte 6]) None ex_quiet (ex_node 2) = Ok s' \<and>
     sched_ok s'"
proof -
  have "from_executor [byte 1, byte 6] (ex_node 2)" by (simp add: from_executor_def ex_node_def ex_sched_def)
  then show ?thesis
    using scheduler_step_type [OF ex_node_ok _ ex_node_step] ex_node_step by simp
qed

end
