(* ===== verification/Ph_Channel.thy ===== *)
theory Ph_Channel
  imports Ph_Prelude
begin

text \<open>
  The channels between a scheduler and its executors, \<^verbatim>\<open>common/shm-ipc/src/ipc.cpp\<close> with
  \<^verbatim>\<open>libipc/utility/id_pool.h\<close>, \<^verbatim>\<open>libipc/queue.h\<close> and \<^verbatim>\<open>libipc/circ/elem_def.h\<close>. A message of up to
  64 bytes is one element of the ring; a longer one lies in a block of shared memory, or, when there
  is no block, is cut into elements and put together again by the receiver. That the system gives
  the shared memory it is asked for is taken for granted.
\<close>

definition data_length :: nat where
  "data_length = 64"

definition large_msg_limit :: nat where
  "large_msg_limit = data_length"

definition large_msg_cache :: nat where
  "large_msg_cache = 32"

section \<open>The pool of block numbers\<close>

definition max_count :: nat where
  "max_count = min large_msg_cache 255"

record id_pool =
  ip_next :: "uint8 list"
  ip_cursor :: uint8
  ip_prepared :: bool

definition zero_pool :: id_pool where
  "zero_pool = \<lparr>ip_next = replicate max_count 0, ip_cursor = 0, ip_prepared = False\<rparr>"

definition pool_init :: "id_pool \<Rightarrow> id_pool" where
  "pool_init p = p\<lparr>ip_next := fold (\<lambda>i next. next[i := word_of_nat (i + 1)]) [0..<max_count] (ip_next p)\<rparr>"

definition pool_invalid :: "id_pool \<Rightarrow> bool" where
  "pool_invalid p \<longleftrightarrow> p = zero_pool"

definition pool_prepare :: "id_pool \<Rightarrow> id_pool" where
  "pool_prepare p = (if \<not> ip_prepared p \<and> pool_invalid p then pool_init p else p)\<lparr>ip_prepared := True\<rparr>"

definition pool_empty :: "id_pool \<Rightarrow> bool" where
  "pool_empty p \<longleftrightarrow> ip_cursor p = word_of_nat max_count"

text \<open>\<open>None\<close> is \<^verbatim>\<open>invalid_value\<close>.\<close>

definition pool_acquire :: "id_pool \<Rightarrow> (nat option \<times> id_pool) res" where
  "pool_acquire p =
     (if pool_empty p then Ok (None, p)
      else let i = unat (ip_cursor p)
           in res_bind (nth_res (ip_next p) i) (\<lambda>next. Ok (Some i, p\<lparr>ip_cursor := next\<rparr>)))"

definition pool_release :: "nat \<Rightarrow> id_pool \<Rightarrow> id_pool res" where
  "pool_release i p =
     (if i < length (ip_next p)
      then Ok (p\<lparr>ip_next := (ip_next p)[i := ip_cursor p], ip_cursor := word_of_nat i\<rparr>)
      else Fault Out_Of_Range)"

section \<open>Blocks of shared memory\<close>

text \<open>For each size class a pool, the blocks and their reference counts.\<close>

record cls_info =
  ci_pool :: id_pool
  ci_mems :: "nat \<Rightarrow> string"
  ci_cc :: "nat \<Rightarrow> uint32"

type_synonym storages = "nat \<Rightarrow> cls_info"

definition fresh_storages :: storages where
  "fresh_storages cls_size =
     \<lparr>ci_pool = zero_pool, ci_mems = (\<lambda>_. replicate cls_size (CHR 0x00)), ci_cc = (\<lambda>_. 0)\<rparr>"

definition calc_cls_size :: "nat \<Rightarrow> nat" where
  "calc_cls_size sz = ((sz - 1) div large_msg_limit + 1) * large_msg_limit"

text \<open>The block gets its reference count; its contents are written by the caller.\<close>

definition apply_storage :: "uint32 \<Rightarrow> nat \<Rightarrow> storages \<Rightarrow> (nat option \<times> storages) res" where
  "apply_storage conn_count sz st =
     (if conn_count = 0 then Ok (None, st)
      else let cls_size = calc_cls_size sz; info = st cls_size
           in res_bind (pool_acquire (pool_prepare (ci_pool info))) (\<lambda>(i, pool).
              let info1 = info\<lparr>ci_pool := pool\<rparr>
              in case i of
                   None \<Rightarrow> Ok (None, st(cls_size := info1))
                 | Some i \<Rightarrow> Ok (Some i, st(cls_size := info1\<lparr>ci_cc := (ci_cc info1)(i := conn_count)\<rparr>))))"

definition write_block :: "nat \<Rightarrow> nat \<Rightarrow> string \<Rightarrow> storages \<Rightarrow> storages" where
  "write_block i sz dat st =
     (let cls_size = calc_cls_size sz; info = st cls_size
      in st(cls_size := info\<lparr>ci_mems := (ci_mems info)(i := dat @ drop (length dat) (ci_mems info i))\<rparr>))"

definition find_storage :: "nat \<Rightarrow> nat \<Rightarrow> storages \<Rightarrow> bool" where
  "find_storage i sz st \<longleftrightarrow> ci_cc (st (calc_cls_size sz)) i \<noteq> 0"

definition recycle_storage :: "nat \<Rightarrow> nat \<Rightarrow> storages \<Rightarrow> storages res" where
  "recycle_storage i sz st =
     (let cls_size = calc_cls_size sz; info = st cls_size; cc = ci_cc info i;
          info1 = info\<lparr>ci_cc := (ci_cc info)(i := cc - 1)\<rparr>
      in if 1 < cc then Ok (st(cls_size := info1))
         else res_bind (pool_release i (ci_pool info1)) (\<lambda>pool. Ok (st(cls_size := info1\<lparr>ci_pool := pool\<rparr>))))"

section \<open>Messages\<close>

text \<open>An element carries bytes, filled up with zeros, or the number of a block.\<close>

datatype msg_data = Bytes string | Storage_Id nat

record msg_t =
  ms_conn :: uint32
  ms_id :: uint32
  ms_remain :: uint32
  ms_data :: msg_data

definition bytes_msg :: "uint32 \<Rightarrow> uint32 \<Rightarrow> uint32 \<Rightarrow> string \<Rightarrow> msg_t" where
  "bytes_msg c i r d =
     \<lparr>ms_conn = c, ms_id = i, ms_remain = r, ms_data = Bytes (d @ replicate (data_length - length d) (CHR 0x00))\<rparr>"

definition storage_msg :: "uint32 \<Rightarrow> uint32 \<Rightarrow> uint32 \<Rightarrow> nat \<Rightarrow> msg_t" where
  "storage_msg c i r n = \<lparr>ms_conn = c, ms_id = i, ms_remain = r, ms_data = Storage_Id n\<rparr>"

definition msg_storage :: "msg_t \<Rightarrow> bool" where
  "msg_storage m \<longleftrightarrow> (case ms_data m of Bytes _ \<Rightarrow> False | Storage_Id _ \<Rightarrow> True)"

text \<open>The 64 bytes of the element; a block number is a 64-bit integer in little-endian order.\<close>

definition msg_bytes :: "msg_t \<Rightarrow> string" where
  "msg_bytes m = (case ms_data m of
     Bytes s \<Rightarrow> s
   | Storage_Id n \<Rightarrow> map (\<lambda>k. char_of (n div 256 ^ k mod 256)) [0..<8] @ replicate (data_length - 8) (CHR 0x00))"

section \<open>Sending\<close>

text \<open>
  What all processes share of a channel. \<open>cn_frames\<close> are the elements that have been pushed; the ring
  hands them on in this order.
\<close>

record channel =
  cn_cc :: uint32
  cn_acc :: uint32
  cn_frames :: "msg_t list"
  cn_storages :: storages

text \<open>The connections of a channel without broadcast are only counted.\<close>

definition conn_connect :: "channel \<Rightarrow> uint32 \<times> channel" where
  "conn_connect ch = (cn_cc ch + 1, ch\<lparr>cn_cc := cn_cc ch + 1\<rparr>)"

definition conn_disconnect :: "uint32 \<Rightarrow> channel \<Rightarrow> channel" where
  "conn_disconnect cc_id ch = (if cc_id = - 1 then ch\<lparr>cn_cc := 0\<rparr> else ch\<lparr>cn_cc := cn_cc ch - 1\<rparr>)"

text \<open>An endpoint of a channel: the number of its handle, its connection, and the receiver's cache.\<close>

record cache_t =
  ca_fill :: nat
  ca_buff :: "char option list"

record endpoint =
  ep_cc_id :: uint32
  ep_connected :: uint32
  ep_recv_cache :: "(uint32 \<times> cache_t) list"

definition connect_receiver :: "endpoint \<Rightarrow> channel \<Rightarrow> bool \<times> endpoint \<times> channel" where
  "connect_receiver ep ch =
     (if ep_connected ep \<noteq> 0 then (True, ep, ch)
      else case conn_connect ch of
        (cc, ch') \<Rightarrow> (cc \<noteq> 0, ep\<lparr>ep_connected := cc\<rparr>, ch'))"

definition disconnect_receiver :: "endpoint \<Rightarrow> channel \<Rightarrow> endpoint \<times> channel" where
  "disconnect_receiver ep ch =
     (if ep_connected ep = 0 then (ep, ch)
      else (ep\<lparr>ep_connected := 0, ep_recv_cache := []\<rparr>, conn_disconnect (ep_connected ep) ch))"

text \<open>
  \<open>room k\<close> says whether the \<open>k\<close>-th element that is pushed finds room in the ring before the timeout.
  Without room the push is forced: in a unicast channel that takes one off the number of
  connections, and fails.
\<close>

definition force_push :: "channel \<Rightarrow> bool \<times> channel" where
  "force_push ch = (False, conn_disconnect 1 ch)"

definition try_push :: "(nat \<Rightarrow> bool) \<Rightarrow> msg_t \<Rightarrow> channel \<Rightarrow> bool \<times> channel" where
  "try_push room m ch =
     (if room (length (cn_frames ch)) then (True, ch\<lparr>cn_frames := cn_frames ch @ [m]\<rparr>) else force_push ch)"

text \<open>\<^verbatim>\<open>try_send\<close> gives up instead.\<close>

definition try_push_only :: "(nat \<Rightarrow> bool) \<Rightarrow> msg_t \<Rightarrow> channel \<Rightarrow> bool \<times> channel" where
  "try_push_only room m ch =
     (if room (length (cn_frames ch)) then (True, ch\<lparr>cn_frames := cn_frames ch @ [m]\<rparr>) else (False, ch))"

fun push_fragments ::
  "(msg_t \<Rightarrow> channel \<Rightarrow> bool \<times> channel) \<Rightarrow> uint32 \<Rightarrow> uint32 \<Rightarrow> string \<Rightarrow> nat \<Rightarrow> nat \<Rightarrow> channel \<Rightarrow> bool \<times> channel" where
  "push_fragments push c i dat 0 offset ch =
     (let remain = word_of_nat (length dat) - word_of_nat offset :: uint32
      in if 0 < sint remain then push (bytes_msg c i (remain - word_of_nat data_length) (drop offset dat)) ch
         else (True, ch))"
| "push_fragments push c i dat (Suc n) offset ch =
     (case push (bytes_msg c i (word_of_nat (length dat) - word_of_nat offset - word_of_nat data_length)
                   (take data_length (drop offset dat))) ch of
        (False, ch') \<Rightarrow> (False, ch')
      | (True, ch') \<Rightarrow> push_fragments push c i dat n (offset + data_length) ch')"

definition chan_send ::
  "(msg_t \<Rightarrow> channel \<Rightarrow> bool \<times> channel) \<Rightarrow> endpoint \<Rightarrow> string \<Rightarrow> channel \<Rightarrow> (bool \<times> channel) res" where
  "chan_send push ep dat ch =
     (if dat = [] \<or> cn_cc ch = 0 then Ok (False, ch)
      else let msg_id = cn_acc ch; ch1 = ch\<lparr>cn_acc := msg_id + 1\<rparr>; sz = length dat;
               fragments = push_fragments push (ep_cc_id ep) msg_id dat (sz div data_length) 0
           in if large_msg_limit < sz
              then res_bind (apply_storage (cn_cc ch1) sz (cn_storages ch1)) (\<lambda>(buf, st).
                   case buf of
                     Some i \<Rightarrow>
                       Ok (push (storage_msg (ep_cc_id ep) msg_id (word_of_nat sz - word_of_nat data_length) i)
                             (ch1\<lparr>cn_storages := write_block i sz dat st\<rparr>))
                   | None \<Rightarrow> Ok (fragments (ch1\<lparr>cn_storages := st\<rparr>)))
              else Ok (fragments ch1))"

section \<open>Receiving\<close>

text \<open>Bytes of a buffer that have not been written yet are \<open>None\<close>.\<close>

definition make_cache :: "string \<Rightarrow> nat \<Rightarrow> char option list" where
  "make_cache dat sz = map Some (take sz dat) @ replicate (sz - length dat) None"

definition cache_append :: "string \<Rightarrow> nat \<Rightarrow> cache_t \<Rightarrow> cache_t" where
  "cache_append dat sz c =
     (if length (ca_buff c) \<le> ca_fill c \<or> sz = 0 then c
      else let new_fill = min (ca_fill c + sz) (length (ca_buff c))
           in \<lparr>ca_fill = new_fill,
               ca_buff = take (ca_fill c) (ca_buff c) @ map Some (take (new_fill - ca_fill c) dat) @
                 drop new_fill (ca_buff c)\<rparr>)"

text \<open>A received message: a buffer, or a block that goes back to its pool when it has been read.\<close>

datatype buff_t = Buffer "char option list" | Block nat nat

text \<open>The size of what is left of a message, with the element itself; the sum is signed.\<close>

definition msg_remain :: "msg_t \<Rightarrow> nat" where
  "msg_remain m = unat (scast (word_of_nat data_length + ms_remain m) :: uint64)"

definition cache_gc :: "uint32 \<Rightarrow> (uint32 \<times> cache_t) list \<Rightarrow> (uint32 \<times> cache_t) list" where
  "cache_gc i rc =
     (if 1024 < length rc then filter (\<lambda>(k, _). \<not> (8192 < max i k - min i k)) rc else rc)"

definition recv_msg ::
  "storages \<Rightarrow> msg_t \<Rightarrow> (uint32 \<times> cache_t) list \<Rightarrow> buff_t option \<times> (uint32 \<times> cache_t) list" where
  "recv_msg st m rc =
     (let remain = msg_remain m
      in case map_of rc (ms_id m) of
           None \<Rightarrow>
             if remain \<le> data_length then (Some (Buffer (make_cache (msg_bytes m) remain)), rc)
             else (case (ms_data m) of
                     Storage_Id buf_id \<Rightarrow>
                       if find_storage buf_id remain st then (Some (Block buf_id remain), rc)
                       else (None, cache_gc (ms_id m) rc @
                              [(ms_id m, \<lparr>ca_fill = data_length, ca_buff = make_cache (msg_bytes m) remain\<rparr>)])
                   | Bytes _ \<Rightarrow>
                       (None, cache_gc (ms_id m) rc @
                          [(ms_id m, \<lparr>ca_fill = data_length, ca_buff = make_cache (msg_bytes m) remain\<rparr>)]))
         | Some cac \<Rightarrow>
             if sint (ms_remain m) \<le> 0
             then (Some (Buffer (ca_buff (cache_append (msg_bytes m) remain cac))), AList.delete (ms_id m) rc)
             else (None, AList.update (ms_id m) (cache_append (msg_bytes m) data_length cac) rc))"

text \<open>
  One call: elements are taken from the queue until a message is whole or the queue is empty. The
  result has the message, the rest of the queue and the cache.
\<close>

fun recv_loop ::
  "uint32 \<Rightarrow> storages \<Rightarrow> msg_t list \<Rightarrow> (uint32 \<times> cache_t) list \<Rightarrow>
   buff_t option \<times> msg_t list \<times> (uint32 \<times> cache_t) list" where
  "recv_loop cc_id st [] rc = (None, [], rc)"
| "recv_loop cc_id st (m # q) rc =
     (if ms_conn m = cc_id then recv_loop cc_id st q rc
      else case recv_msg st m rc of
             (Some buff, rc') \<Rightarrow> (Some buff, q, rc')
           | (None, rc') \<Rightarrow> recv_loop cc_id st q rc')"

definition chan_recv :: "storages \<Rightarrow> msg_t list \<Rightarrow> endpoint \<Rightarrow> buff_t option \<times> msg_t list \<times> endpoint" where
  "chan_recv st q ep =
     (if ep_connected ep = 0 then (None, q, ep)
      else case recv_loop (ep_cc_id ep) st q (ep_recv_cache ep) of
             (buff, q', rc) \<Rightarrow> (buff, q', ep\<lparr>ep_recv_cache := rc\<rparr>))"

text \<open>The bytes that the reader of a message sees.\<close>

definition buff_bytes :: "storages \<Rightarrow> buff_t \<Rightarrow> char option list" where
  "buff_bytes st b = (case b of Buffer s \<Rightarrow> s | Block i sz \<Rightarrow> map Some (take sz (ci_mems (st (calc_cls_size sz)) i)))"

end
