(* ===== verification/Ph_Channel_Laws.thy ===== *)
theory Ph_Channel_Laws
  imports Ph_Channel "HOL-Library.Sublist"
begin

text \<open>
  A channel delivers what is sent: messages cut into elements come out whole, however the elements of
  different senders interleave, and a block of shared memory belongs to one message at a time.
\<close>

section \<open>Elements of a message\<close>

definition frame :: "uint32 \<Rightarrow> uint32 \<Rightarrow> string \<Rightarrow> nat \<Rightarrow> msg_t" where
  "frame c i dat k = bytes_msg c i (word_of_nat (length dat) - word_of_nat (64 * k) - 64) (take 64 (drop (64 * k) dat))"

definition frame_count :: "string \<Rightarrow> nat" where
  "frame_count dat = (length dat + 63) div 64"

definition fragments :: "uint32 \<Rightarrow> uint32 \<Rightarrow> string \<Rightarrow> msg_t list" where
  "fragments c i dat = map (frame c i dat) [0..<frame_count dat]"

lemmas frame_defs = frame_def bytes_msg_def data_length_def

lemma frame_simps [simp]: "ms_conn (frame c i dat k) = c" "ms_id (frame c i dat k) = i" "\<not> msg_storage (frame c i dat k)"
  by (simp_all add: frame_defs msg_storage_def)

text \<open>Numbers below the limit are what they seem, also as signed words.\<close>

lemma sint_small: "- (2 ^ 31) \<le> n \<Longrightarrow> n < 2 ^ 31 \<Longrightarrow> sint (word_of_int n :: uint32) = n"
  by (simp add: sint_sbintrunc' signed_take_bit_int_eq_self)

lemma unat_scast_small:
  assumes "0 \<le> n" and "n < 2 ^ 31"
  shows "unat (scast (word_of_int n :: uint32) :: uint64) = nat n"
proof -
  have "sint (word_of_int n :: uint32) = n" by (rule sint_small) (use assms in auto)
  then have "(scast (word_of_int n :: uint32) :: uint64) = word_of_int n" by (simp only: scast_eq)
  then show ?thesis using assms by (simp add: unat_eq_nat_uint uint_word_of_int_eq take_bit_int_eq_self)
qed

lemma frame_remain_word: "ms_remain (frame c i dat k) = word_of_int (int (length dat) - int (64 * k) - 64)"
  by (simp add: frame_defs)

lemma frame_remain:
  assumes "length dat < 2 ^ 31" and "64 * k \<le> length dat"
  shows "msg_remain (frame c i dat k) = length dat - 64 * k"
proof -
  have "word_of_nat data_length + ms_remain (frame c i dat k) = word_of_int (int (length dat - 64 * k))"
    using assms(2) by (simp add: frame_remain_word data_length_def of_nat_diff)
  then show ?thesis using assms(1) unat_scast_small [of "int (length dat - 64 * k)"] by (simp add: msg_remain_def)
qed

lemma frame_last:
  assumes "length dat < 2 ^ 31" and "64 * k \<le> length dat"
  shows "sint (ms_remain (frame c i dat k)) \<le> 0 \<longleftrightarrow> length dat \<le> 64 * k + 64"
proof -
  have "sint (ms_remain (frame c i dat k)) = int (length dat) - int (64 * k) - 64"
    unfolding frame_remain_word by (rule sint_small) (use assms in auto)
  then show ?thesis by auto
qed

lemma frame_bytes:
  "msg_bytes (frame c i dat k) = take 64 (drop (64 * k) dat) @ replicate (64 - (length dat - 64 * k)) (CHR 0x00)"
  by (simp add: frame_defs msg_bytes_def min_def)

lemma frame_bytes_length: "length (msg_bytes (frame c i dat k)) = 64"
  by (simp add: frame_bytes)

section \<open>Sending pushes the elements in order\<close>

fun push_all :: "(msg_t \<Rightarrow> channel \<Rightarrow> bool \<times> channel) \<Rightarrow> msg_t list \<Rightarrow> channel \<Rightarrow> bool \<times> channel" where
  "push_all push [] ch = (True, ch)"
| "push_all push (m # ms) ch = (case push m ch of (False, ch') \<Rightarrow> (False, ch') | (True, ch') \<Rightarrow> push_all push ms ch')"

lemma push_fragments_from:
  assumes "length dat < 2 ^ 31" and "n = length dat div 64 - k" and "64 * k \<le> length dat"
  shows "push_fragments push c i dat n (64 * k) ch = push_all push (map (frame c i dat) [k..<frame_count dat]) ch"
  using assms(2,3)
proof (induction n arbitrary: k ch)
  case 0
  then have k: "k = length dat div 64" by linarith
  let ?remain = "word_of_nat (length dat) - word_of_nat (64 * k) :: uint32"
  have "?remain = word_of_int (int (length dat) - int (64 * k))" by simp
  moreover have "sint (word_of_int (int (length dat) - int (64 * k)) :: uint32) = int (length dat) - int (64 * k)"
    by (rule sint_small) (use assms(1) 0 in auto)
  ultimately have s: "sint ?remain = int (length dat) - int (64 * k)" by simp
  show ?case
  proof (cases "length dat = 64 * k")
    case True
    then have "frame_count dat = k" by (simp add: frame_count_def)
    moreover have "\<not> 0 < sint ?remain" using s True by simp
    ultimately show ?thesis by simp
  next
    case False
    then have "frame_count dat = Suc k" unfolding frame_count_def using k 0 by linarith
    moreover have "drop (64 * k) dat = take 64 (drop (64 * k) dat)" using k by simp
    moreover have "0 < sint ?remain" using s False 0 by simp
    ultimately show ?thesis by (simp add: frame_def data_length_def split: prod.split bool.split)
  qed
next
  case (Suc n)
  have "k < frame_count dat" unfolding frame_count_def using Suc.prems(1) by linarith
  then have u: "[k..<frame_count dat] = k # [Suc k..<frame_count dat]" by (rule upt_conv_Cons)
  have fr: "bytes_msg c i (word_of_nat (length dat) - word_of_nat (64 * k) - word_of_nat data_length)
      (take data_length (drop (64 * k) dat)) = frame c i dat k"
    by (simp add: frame_def data_length_def)
  have off: "64 * k + data_length = 64 * Suc k" by (simp add: data_length_def)
  have ih: "push_fragments push c i dat n (64 * Suc k) ch' = push_all push (map (frame c i dat) [Suc k..<frame_count dat]) ch'" for ch'
  proof (rule Suc.IH)
    have "Suc k \<le> length dat div 64" using Suc.prems(1) by simp
    then have "64 * Suc k \<le> 64 * (length dat div 64)" by (rule mult_le_mono2)
    then show "64 * Suc k \<le> length dat" using times_div_less_eq_dividend [of 64 "length dat"] by linarith
  qed (use Suc.prems(1) in simp)
  show ?case unfolding push_fragments.simps(2) fr off ih u list.map(2) push_all.simps(2) ..
qed

lemma push_fragments_all:
  "length dat < 2 ^ 31 \<Longrightarrow>
   push_fragments push c i dat (length dat div data_length) 0 ch = push_all push (fragments c i dat) ch"
  using push_fragments_from [of dat "length dat div 64" 0] by (simp add: fragments_def data_length_def)

lemma push_all_room:
  "(\<And>k. room k) \<Longrightarrow> push_all (try_push room) ms ch = (True, ch\<lparr>cn_frames := cn_frames ch @ ms\<rparr>)"
  by (induction ms arbitrary: ch) (simp_all add: try_push_def)

section \<open>Receiving puts them together\<close>

text \<open>A message that has arrived up to its \<open>k\<close>-th element.\<close>

definition part_cache :: "string \<Rightarrow> nat \<Rightarrow> cache_t" where
  "part_cache dat k =
     \<lparr>ca_fill = 64 * k, ca_buff = map Some (take (64 * k) dat) @ replicate (length dat - 64 * k) None\<rparr>"

lemma part_cache_first:
  assumes "64 < length dat"
  shows "\<lparr>ca_fill = data_length, ca_buff = make_cache (msg_bytes (frame c i dat 0)) (length dat)\<rparr> = part_cache dat 1"
  using assms by (simp add: part_cache_def make_cache_def frame_bytes data_length_def)

lemma part_cache_next:
  assumes "64 * k + 64 < length dat"
  shows "cache_append (msg_bytes (frame c i dat k)) data_length (part_cache dat k) = part_cache dat (k + 1)"
proof -
  have m: "min (64 * k + 64) (length dat) = 64 * k + 64" "length (take (64 * k) dat) = 64 * k" using assms by auto
  have "map Some (take (64 * k) dat) @ map Some (take 64 (drop (64 * k) dat)) = map Some (take (64 * (k + 1)) dat)"
    using take_add [of "64 * k" 64 dat] by (simp add: algebra_simps)
  then show ?thesis
    using assms
    by (simp add: cache_append_def part_cache_def frame_bytes data_length_def m Let_def add.commute
        append_assoc [symmetric] del: append_assoc)
qed

lemma part_cache_last:
  assumes "64 * k < length dat" and "length dat \<le> 64 * k + 64"
  shows "ca_buff (cache_append (msg_bytes (frame c i dat k)) (length dat - 64 * k) (part_cache dat k)) = map Some dat"
proof -
  have "map Some (take (64 * k) dat) @ map Some (drop (64 * k) dat) = map Some dat"
    by (metis append_take_drop_id map_append)
  then show ?thesis using assms by (simp add: cache_append_def part_cache_def frame_bytes Let_def)
qed

lemma whole_buffer:
  assumes "length dat \<le> 64"
  shows "make_cache (msg_bytes (frame c i dat 0)) (length dat) = map Some dat"
  using assms by (simp add: make_cache_def frame_bytes)

text \<open>
  The messages of a channel by their ids: who sends them, what they say, and the block they lie in, if
  any. Elements are interleaved well when those of each message are in order, from the first on.
\<close>

record plan =
  pl_conn :: "uint32 \<Rightarrow> uint32"
  pl_data :: "uint32 \<Rightarrow> string"
  pl_block :: "uint32 \<Rightarrow> nat option"

definition elements :: "plan \<Rightarrow> uint32 \<Rightarrow> msg_t list" where
  "elements p i = (case pl_block p i of
     None \<Rightarrow> fragments (pl_conn p i) i (pl_data p i)
   | Some b \<Rightarrow> [storage_msg (pl_conn p i) i (word_of_nat (length (pl_data p i)) - 64) b])"

abbreviation of_id :: "uint32 \<Rightarrow> msg_t list \<Rightarrow> msg_t list" where
  "of_id i fs \<equiv> filter (\<lambda>m. ms_id m = i) fs"

definition interleaved :: "plan \<Rightarrow> msg_t list \<Rightarrow> bool" where
  "interleaved p fs \<longleftrightarrow> (\<forall>i. prefix (of_id i fs) (elements p i))"

definition plan_ok :: "storages \<Rightarrow> plan \<Rightarrow> bool" where
  "plan_ok st p \<longleftrightarrow> (\<forall>i. 0 < length (pl_data p i) \<and> length (pl_data p i) < 2 ^ 31 \<and>
     (\<forall>b. pl_block p i = Some b \<longrightarrow> 64 < length (pl_data p i) \<and> find_storage b (length (pl_data p i)) st \<and>
        take (length (pl_data p i)) (ci_mems (st (calc_cls_size (length (pl_data p i)))) b) = pl_data p i))"

definition underway :: "plan \<Rightarrow> msg_t list \<Rightarrow> uint32 set" where
  "underway p fs = {i. of_id i fs \<noteq> [] \<and> length (of_id i fs) < length (elements p i)}"

definition recv_cache_ok :: "plan \<Rightarrow> msg_t list \<Rightarrow> (uint32 \<times> cache_t) list \<Rightarrow> bool" where
  "recv_cache_ok p fs rc \<longleftrightarrow> distinct (map fst rc) \<and> (\<forall>i. map_of rc i =
     (if i \<in> underway p fs then Some (part_cache (pl_data p i) (length (of_id i fs))) else None))"

text \<open>The element with which a message is whole.\<close>

definition whole :: "msg_t \<Rightarrow> bool" where
  "whole m \<longleftrightarrow> msg_storage m \<or> sint (ms_remain m) \<le> 0"

lemma recv_cache_ok_length:
  assumes "recv_cache_ok p fs rc"
  shows "length rc = card (underway p fs)"
proof -
  have "dom (map_of rc) = underway p fs"
    using assms unfolding recv_cache_ok_def dom_def by (simp split: if_splits)
  then have "set (map fst rc) = underway p fs" by (simp add: dom_map_of_conv_image_fst)
  moreover have "card (set (map fst rc)) = length rc"
    using assms distinct_card [of "map fst rc"] by (simp add: recv_cache_ok_def)
  ultimately show ?thesis by simp
qed

text \<open>The next element of a message is the one after those seen.\<close>

lemma interleaved_next:
  assumes "interleaved p (fs @ [m])"
  shows "length (of_id (ms_id m) fs) < length (elements p (ms_id m))"
    and "m = elements p (ms_id m) ! length (of_id (ms_id m) fs)"
proof -
  have "prefix (of_id (ms_id m) (fs @ [m])) (elements p (ms_id m))" using assms unfolding interleaved_def by blast
  then have "prefix (of_id (ms_id m) fs @ [m]) (elements p (ms_id m))" by simp
  then show "length (of_id (ms_id m) fs) < length (elements p (ms_id m))"
    "m = elements p (ms_id m) ! length (of_id (ms_id m) fs)"
    by (auto simp: prefix_def)
qed

lemma interleaved_append:
  assumes "interleaved p (fs @ gs)"
  shows "interleaved p fs"
  unfolding interleaved_def
proof
  fix i
  have "prefix (of_id i fs) (of_id i (fs @ gs))" by simp
  moreover have "prefix (of_id i (fs @ gs)) (elements p i)" using assms unfolding interleaved_def by blast
  ultimately show "prefix (of_id i fs) (elements p i)" by (rule prefix_order.trans)
qed

text \<open>The cache after one more element, when only the entry of its message changes.\<close>

lemma recv_cache_ok_step:
  assumes "recv_cache_ok p fs rc" and "distinct (map fst rc')" and "\<And>i. i \<noteq> ms_id m \<Longrightarrow> map_of rc' i = map_of rc i"
    and "map_of rc' (ms_id m) = (if Suc (length (of_id (ms_id m) fs)) < length (elements p (ms_id m))
      then Some (part_cache (pl_data p (ms_id m)) (Suc (length (of_id (ms_id m) fs)))) else None)"
  shows "recv_cache_ok p (fs @ [m]) rc'"
  unfolding recv_cache_ok_def
proof (intro conjI assms(2) allI)
  fix i
  show "map_of rc' i = (if i \<in> underway p (fs @ [m]) then Some (part_cache (pl_data p i) (length (of_id i (fs @ [m])))) else None)"
  proof (cases "i = ms_id m")
    case True
    show ?thesis unfolding True assms(4) by (simp add: underway_def)
  next
    case False
    have "map_of rc i = (if i \<in> underway p fs then Some (part_cache (pl_data p i) (length (of_id i fs))) else None)"
      using assms(1) unfolding recv_cache_ok_def by blast
    moreover have "of_id i (fs @ [m]) = of_id i fs" using False by simp
    ultimately show ?thesis unfolding assms(3) [OF False] underway_def by simp
  qed
qed

lemma frame_count_bounds: "k < frame_count dat \<longleftrightarrow> 64 * k < length dat"
  unfolding frame_count_def by linarith

lemma recv_fragment:
  assumes ok: "recv_cache_ok p fs rc" and card: "card (underway p fs) \<le> 1024"
    and dat: "0 < length dat" "length dat < 2 ^ 31" and frag: "elements p i = fragments c i dat" "pl_data p i = dat"
    and k: "k = length (of_id i fs)" "64 * k < length dat" and m: "m = frame c i dat k"
  shows "\<exists>b rc'. recv_msg st m rc = (b, rc') \<and> recv_cache_ok p (fs @ [m]) rc' \<and>
    b = (if length dat \<le> 64 * k + 64 then Some (Buffer (map Some dat)) else None)"
proof -
  have n: "length (elements p i) = frame_count dat" by (simp add: frag fragments_def)
  have len: "length rc \<le> 1024" using recv_cache_ok_length [OF ok] card by simp
  have d: "distinct (map fst rc)" using ok by (simp add: recv_cache_ok_def)
  have "i \<in> underway p fs \<longleftrightarrow> k \<noteq> 0" using k frame_count_bounds [of k dat] by (simp add: underway_def n)
  moreover have "map_of rc i = (if i \<in> underway p fs then Some (part_cache (pl_data p i) (length (of_id i fs))) else None)"
    using ok unfolding recv_cache_ok_def by blast
  ultimately have mo: "map_of rc i = (if k = 0 then None else Some (part_cache dat k))" by (simp add: k(1) frag(2))
  have r: "msg_remain m = length dat - 64 * k" and last: "sint (ms_remain m) \<le> 0 \<longleftrightarrow> length dat \<le> 64 * k + 64"
    using frame_remain frame_last dat k m by simp_all
  have more: "Suc k < frame_count dat \<longleftrightarrow> \<not> length dat \<le> 64 * k + 64"
    using frame_count_bounds [of "Suc k" dat] by auto
  have b: "\<exists>s. ms_data m = Bytes s" by (simp add: m frame_defs)
  consider "k = 0" "length dat \<le> 64" | "k = 0" "64 < length dat"
    | "k \<noteq> 0" "64 * k + 64 < length dat" | "k \<noteq> 0" "length dat \<le> 64 * k + 64" by linarith
  then show ?thesis
  proof cases
    case 1
    then have "recv_msg st m rc = (Some (Buffer (map Some dat)), rc)"
      using whole_buffer [of dat c i] mo r by (simp add: recv_msg_def m data_length_def)
    moreover have "recv_cache_ok p (fs @ [m]) rc"
      by (rule recv_cache_ok_step [OF ok d]) (use 1 mo more k in \<open>simp_all add: m n frag(2)\<close>)
    ultimately show ?thesis using 1 by auto
  next
    case 2
    let ?rc = "rc @ [(i, part_cache dat 1)]"
    have i: "i \<notin> fst ` set rc" using mo 2 by (simp add: map_of_eq_None_iff)
    have "recv_msg st m rc = (None, ?rc)"
      using part_cache_first [of dat c i] mo r 2 b len by (auto simp: recv_msg_def m data_length_def cache_gc_def)
    moreover have "recv_cache_ok p (fs @ [m]) ?rc"
      by (rule recv_cache_ok_step [OF ok]) (use d i 2 more k in \<open>simp_all add: m n frag(2) map_of_append_single del: map_of_append\<close>)
    ultimately show ?thesis using 2 by auto
  next
    case 3
    let ?rc = "AList.update i (part_cache dat (Suc k)) rc"
    have "recv_msg st m rc = (None, ?rc)"
      using part_cache_next [of k dat c i] mo r 3 last by (simp add: recv_msg_def m)
    moreover have "recv_cache_ok p (fs @ [m]) ?rc"
      by (rule recv_cache_ok_step [OF ok]) (use d 3 more k in \<open>simp_all add: m n frag(2) update_conv' distinct_update\<close>)
    ultimately show ?thesis using 3 by auto
  next
    case 4
    let ?rc = "AList.delete i rc"
    have "recv_msg st m rc = (Some (Buffer (map Some dat)), ?rc)"
      using part_cache_last [of k dat c i] mo r 4 last k by (simp add: recv_msg_def m)
    moreover have "recv_cache_ok p (fs @ [m]) ?rc"
      by (rule recv_cache_ok_step [OF ok]) (use d 4 more k in \<open>simp_all add: m n frag(2) delete_conv' distinct_delete\<close>)
    ultimately show ?thesis using 4 by auto
  qed
qed

lemma recv_block:
  assumes ok: "recv_cache_ok p fs rc" and dat: "64 < length dat" "length dat < 2 ^ 31"
    and one: "elements p i = [m]" and m: "m = storage_msg c i (word_of_nat (length dat) - 64) b"
    and new: "of_id i fs = []" and st: "find_storage b (length dat) st"
  shows "recv_msg st m rc = (Some (Block b (length dat)), rc) \<and> recv_cache_ok p (fs @ [m]) rc"
proof -
  have "i \<notin> underway p fs" using new by (simp add: underway_def)
  moreover have "map_of rc i = (if i \<in> underway p fs then Some (part_cache (pl_data p i) (length (of_id i fs))) else None)"
    using ok unfolding recv_cache_ok_def by blast
  ultimately have mo: "map_of rc i = None" by simp
  have id: "ms_id m = i" by (simp add: m storage_msg_def)
  have "word_of_nat data_length + ms_remain m = (word_of_int (int (length dat)) :: uint32)"
    by (simp add: m storage_msg_def data_length_def)
  then have "msg_remain m = length dat" using dat(2) unat_scast_small [of "int (length dat)"] by (simp add: msg_remain_def)
  then have "recv_msg st m rc = (Some (Block b (length dat)), rc)"
    using dat mo st id by (simp add: recv_msg_def data_length_def) (simp add: m storage_msg_def)
  moreover have "recv_cache_ok p (fs @ [m]) rc"
    by (rule recv_cache_ok_step [OF ok]) (use ok mo new one id in \<open>auto simp: recv_cache_ok_def\<close>)
  ultimately show ?thesis ..
qed

lemma recv_element:
  assumes ok: "recv_cache_ok p fs rc" and card: "card (underway p fs) \<le> 1024" and plan: "plan_ok st p"
    and il: "interleaved p (fs @ [m])"
  shows "\<exists>b rc'. recv_msg st m rc = (b, rc') \<and> recv_cache_ok p (fs @ [m]) rc' \<and>
    map_option (buff_bytes st) b = (if whole m then Some (map Some (pl_data p (ms_id m))) else None)"
proof -
  let ?i = "ms_id m" and ?k = "length (of_id (ms_id m) fs)"
  let ?dat = "pl_data p ?i"
  note nx = interleaved_next [OF il]
  have dat: "0 < length ?dat" "length ?dat < 2 ^ 31" using plan by (simp_all add: plan_ok_def)
  show ?thesis
  proof (cases "pl_block p ?i")
    case None
    then have el: "elements p ?i = fragments (pl_conn p ?i) ?i ?dat" by (simp add: elements_def)
    then have k: "?k < frame_count ?dat" using nx(1) by (simp add: fragments_def)
    then have m: "m = frame (pl_conn p ?i) ?i ?dat ?k" using nx(2) el by (simp add: fragments_def)
    have k64: "64 * ?k < length ?dat" using k frame_count_bounds by blast
    obtain b rc' where r: "recv_msg st m rc = (b, rc')" "recv_cache_ok p (fs @ [m]) rc'"
      "b = (if length ?dat \<le> 64 * ?k + 64 then Some (Buffer (map Some ?dat)) else None)"
      using recv_fragment [OF ok card dat el refl refl k64 m, of st] by blast
    have "whole m \<longleftrightarrow> length ?dat \<le> 64 * ?k + 64"
      using frame_last [OF dat(2), of ?k "pl_conn p ?i" ?i] frame_simps(3) [of "pl_conn p ?i" ?i ?dat ?k] k64
      unfolding whole_def m [symmetric] by simp
    with r show ?thesis by (auto simp: buff_bytes_def)
  next
    case (Some b)
    then have b: "64 < length ?dat" "find_storage b (length ?dat) st"
      "take (length ?dat) (ci_mems (st (calc_cls_size (length ?dat))) b) = ?dat"
      using plan by (simp_all add: plan_ok_def)
    let ?m = "storage_msg (pl_conn p ?i) ?i (word_of_nat (length ?dat) - 64) b"
    have one: "elements p ?i = [?m]" using Some by (simp add: elements_def)
    then have m: "m = ?m" and new: "of_id ?i fs = []" using nx by simp_all
    have one': "elements p ?i = [m]" using one m by simp
    note rb = recv_block [OF ok b(1) dat(2) one' m new b(2)]
    have "msg_storage m" by (subst m) (simp add: storage_msg_def msg_storage_def)
    with rb b(3) show ?thesis by (auto simp: whole_def buff_bytes_def)
  qed
qed

text \<open>Calls of \<^verbatim>\<open>recv\<close> until the queue is empty.\<close>

fun recv_all :: "uint32 \<Rightarrow> storages \<Rightarrow> msg_t list \<Rightarrow> (uint32 \<times> cache_t) list \<Rightarrow> buff_t list \<times> (uint32 \<times> cache_t) list" where
  "recv_all cc_id st [] rc = ([], rc)"
| "recv_all cc_id st (m # q) rc =
     (if ms_conn m = cc_id then recv_all cc_id st q rc
      else case recv_msg st m rc of
        (b, rc') \<Rightarrow> (case recv_all cc_id st q rc' of (bs, rc'') \<Rightarrow> ((case b of None \<Rightarrow> [] | Some x \<Rightarrow> [x]) @ bs, rc'')))"

lemma recv_loop_all:
  assumes "recv_loop cc_id st q rc = (b, q', rc')"
  shows "recv_all cc_id st q rc = (case b of
    None \<Rightarrow> ([], rc') | Some x \<Rightarrow> (case recv_all cc_id st q' rc' of (bs, rc'') \<Rightarrow> (x # bs, rc'')))"
  using assms
proof (induction q arbitrary: rc)
  case (Cons m q)
  then show ?case by (auto split: if_splits option.splits prod.splits)
qed auto

lemma recv_all_interleaved:
  assumes "recv_cache_ok p fs rc" and "plan_ok st p" and "interleaved p (fs @ gs)"
    and "\<And>k. card (underway p (fs @ take k gs)) \<le> 1024" and "\<And>m. m \<in> set gs \<Longrightarrow> ms_conn m \<noteq> cc_id"
  shows "\<exists>bs rc'. recv_all cc_id st gs rc = (bs, rc') \<and>
    map (buff_bytes st) bs = map (\<lambda>m. map Some (pl_data p (ms_id m))) (filter whole gs) \<and> recv_cache_ok p (fs @ gs) rc'"
  using assms(1,3-)
proof (induction gs arbitrary: fs rc)
  case (Cons m gs)
  have il: "interleaved p (fs @ [m])"
    using interleaved_append [of p "fs @ [m]" gs] Cons.prems(2) by simp
  obtain b rc1 where r: "recv_msg st m rc = (b, rc1)" "recv_cache_ok p (fs @ [m]) rc1"
    "map_option (buff_bytes st) b = (if whole m then Some (map Some (pl_data p (ms_id m))) else None)"
    using recv_element [OF Cons.prems(1) _ assms(2) il] Cons.prems(3) [of 0] by auto
  have "\<exists>bs rc'. recv_all cc_id st gs rc1 = (bs, rc') \<and>
    map (buff_bytes st) bs = map (\<lambda>m. map Some (pl_data p (ms_id m))) (filter whole gs) \<and> recv_cache_ok p ((fs @ [m]) @ gs) rc'"
    by (rule Cons.IH [OF r(2)]) (use Cons.prems(2,4) Cons.prems(3) [of "Suc k" for k] in auto)
  then obtain bs rc' where "recv_all cc_id st gs rc1 = (bs, rc')"
    "map (buff_bytes st) bs = map (\<lambda>m. map Some (pl_data p (ms_id m))) (filter whole gs)" "recv_cache_ok p ((fs @ [m]) @ gs) rc'"
    by blast
  then show ?case using r Cons.prems(4) by (auto split: option.splits if_splits)
qed simp

text \<open>At most \<open>n\<close> calls, until one finds no message.\<close>

fun recv_calls :: "nat \<Rightarrow> storages \<Rightarrow> msg_t list \<Rightarrow> endpoint \<Rightarrow> buff_t list \<times> msg_t list \<times> endpoint" where
  "recv_calls 0 st q ep = ([], q, ep)"
| "recv_calls (Suc n) st q ep =
     (case chan_recv st q ep of
        (None, q', ep') \<Rightarrow> ([], q', ep')
      | (Some b, q', ep') \<Rightarrow> (case recv_calls n st q' ep' of (bs, q'', ep'') \<Rightarrow> (b # bs, q'', ep'')))"

lemma recv_loop_shorter: "recv_loop cc_id st q rc = (Some b, q', rc') \<Longrightarrow> length q' < length q"
proof (induction q arbitrary: rc)
  case (Cons m q)
  then show ?case by (auto split: if_splits option.splits prod.splits) (meson less_SucI)+
qed simp

lemma recv_loop_None: "recv_loop cc_id st q rc = (None, q', rc') \<Longrightarrow> q' = []"
  by (induction q arbitrary: rc) (auto split: if_splits option.splits prod.splits)

lemma recv_calls_all:
  assumes "length q < n" and "ep_connected ep \<noteq> 0" and "recv_all (ep_cc_id ep) st q (ep_recv_cache ep) = (bs, rc)"
  shows "recv_calls n st q ep = (bs, [], ep\<lparr>ep_recv_cache := rc\<rparr>)"
  using assms
proof (induction n arbitrary: q ep bs)
  case (Suc n)
  obtain b q' rc' where l: "recv_loop (ep_cc_id ep) st q (ep_recv_cache ep) = (b, q', rc')" by (metis surj_pair)
  note a = recv_loop_all [OF l]
  show ?case
  proof (cases b)
    case None
    have "q' = []" by (rule recv_loop_None) (use l None in simp)
    then show ?thesis using l a Suc.prems(2,3) None by (simp add: chan_recv_def)
  next
    case (Some x)
    obtain bs' rc'' where all: "recv_all (ep_cc_id ep) st q' rc' = (bs', rc'')" by (metis surj_pair)
    have "length q' < length q" by (rule recv_loop_shorter) (use l Some in simp)
    then have "length q' < n" using Suc.prems(1) by simp
    from Suc.IH [OF this, of "ep\<lparr>ep_recv_cache := rc'\<rparr>" bs'] show ?thesis
      using Some l a all Suc.prems(2,3) by (simp add: chan_recv_def)
  qed
qed simp

text \<open>
  Messages come out whole and unchanged, each one exactly once, in the order of their last elements,
  whatever the interleaving of the elements of different senders; of a message of which a part is
  still missing nothing is seen.
\<close>

lemma recv_calls_interleaved:
  assumes "plan_ok st p" and "interleaved p fs" and "\<And>k. card (underway p (take k fs)) \<le> 1024"
    and "\<And>m. m \<in> set fs \<Longrightarrow> ms_conn m \<noteq> ep_cc_id ep" and "ep_connected ep \<noteq> 0" and "ep_recv_cache ep = []"
  shows "\<exists>bs ep'. recv_calls (Suc (length fs)) st fs ep = (bs, [], ep') \<and>
    map (buff_bytes st) bs = map (\<lambda>m. map Some (pl_data p (ms_id m))) (filter whole fs)"
proof -
  have "recv_cache_ok p [] []" by (simp add: recv_cache_ok_def underway_def)
  from recv_all_interleaved [OF this assms(1), of fs "ep_cc_id ep"] assms
  obtain bs rc where "recv_all (ep_cc_id ep) st fs [] = (bs, rc)"
    "map (buff_bytes st) bs = map (\<lambda>m. map Some (pl_data p (ms_id m))) (filter whole fs)" by auto
  then show ?thesis using recv_calls_all [of fs "Suc (length fs)" ep st bs rc] assms(5,6) by auto
qed

end
