(* ===== verification/Ph_Channel_Blocks.thy ===== *)
theory Ph_Channel_Blocks
  imports Ph_Channel_Laws
begin

text \<open>
  The blocks for long messages: the pool is a list of the free numbers, a block belongs to one message
  at a time, and what is sent is received, with a block or without. And the end of a channel whose
  ring was full for too long.
\<close>

section \<open>The pool\<close>

text \<open>The numbers that are free, in the order in which they will be given out.\<close>

fun chain :: "uint8 list \<Rightarrow> uint8 \<Rightarrow> nat list \<Rightarrow> bool" where
  "chain nxt c [] = (c = 32)"
| "chain nxt c (i # ids) = (unat c = i \<and> i < 32 \<and> chain nxt (nxt ! i) ids)"

definition pool_free :: "id_pool \<Rightarrow> nat list \<Rightarrow> bool" where
  "pool_free p ids \<longleftrightarrow> length (ip_next p) = 32 \<and> ip_prepared p \<and> distinct ids \<and> chain (ip_next p) (ip_cursor p) ids"

lemma max_count_eq [simp]: "max_count = 32"
  by (simp add: max_count_def large_msg_cache_def)

lemma chain_update: "i \<notin> set ids \<Longrightarrow> chain (nxt[i := x]) c ids = chain nxt c ids"
  by (induction ids arbitrary: c) auto

lemma chain_less: "chain nxt c ids \<Longrightarrow> i \<in> set ids \<Longrightarrow> i < 32"
  by (induction ids arbitrary: c) auto

lemma chain_upt:
  assumes "length nxt = 32" and "\<And>i. i < 32 \<Longrightarrow> nxt ! i = word_of_nat (Suc i)"
  shows "k \<le> 32 \<Longrightarrow> chain nxt (word_of_nat k) [k..<32]"
proof (induction "32 - k" arbitrary: k)
  case (Suc n)
  then have k: "k < 32" by simp
  have "unat (word_of_nat k :: uint8) = k" using k by (simp add: unsigned_of_nat take_bit_nat_eq_self)
  moreover have "chain nxt (word_of_nat (Suc k)) [Suc k..<32]" by (rule Suc.hyps(1)) (use Suc.hyps(2) k in auto)
  ultimately show ?case using k assms(2) [OF k] by (subst upt_conv_Cons) simp_all
qed auto

lemma pool_init_next:
  assumes "length xs = 32"
  shows "length (fold (\<lambda>i next. next[i := word_of_nat (i + 1)]) [0..<n] xs) = 32 \<and>
    (\<forall>i. i < n \<longrightarrow> i < 32 \<longrightarrow> fold (\<lambda>i next. next[i := word_of_nat (i + 1)]) [0..<n] xs ! i = (word_of_nat (Suc i) :: uint8))"
  by (induction n) (auto simp: assms nth_list_update less_Suc_eq)

lemma pool_prepare_zero: "pool_free (pool_prepare zero_pool) [0..<32]"
proof -
  let ?n = "fold (\<lambda>i next. next[i := word_of_nat (i + 1)]) [0..<32] (replicate 32 0 :: uint8 list)"
  have n: "length ?n = 32" "\<And>i. i < 32 \<Longrightarrow> ?n ! i = word_of_nat (Suc i)"
    using pool_init_next [of "replicate 32 0" 32] by auto
  have "pool_prepare zero_pool = \<lparr>ip_next = ?n, ip_cursor = 0, ip_prepared = True\<rparr>"
    by (simp add: pool_prepare_def pool_invalid_def pool_init_def zero_pool_def)
  then show ?thesis using n chain_upt [OF n, of 0] by (simp add: pool_free_def)
qed

lemma pool_prepare_ready: "pool_free p ids \<Longrightarrow> pool_prepare p = p"
  by (simp add: pool_free_def pool_prepare_def)

lemma acquire_none: "pool_free p [] \<Longrightarrow> pool_acquire p = Ok (None, p)"
  by (simp add: pool_free_def pool_acquire_def pool_empty_def)

lemma acquire_some:
  assumes "pool_free p (i # ids)"
  shows "\<exists>p'. pool_acquire p = Ok (Some i, p') \<and> pool_free p' ids"
proof -
  have c: "unat (ip_cursor p) = i" "i < 32" "length (ip_next p) = 32" using assms by (simp_all add: pool_free_def)
  then have "ip_cursor p \<noteq> 32" by (auto simp: word_unat_eq_iff)
  then have "pool_acquire p = Ok (Some i, p\<lparr>ip_cursor := ip_next p ! i\<rparr>)"
    using c by (simp add: pool_acquire_def pool_empty_def nth_res_def)
  then show ?thesis using assms by (auto simp: pool_free_def)
qed

lemma release_free:
  assumes "pool_free p ids" and "i < 32" and "i \<notin> set ids"
  shows "\<exists>p'. pool_release i p = Ok p' \<and> pool_free p' (i # ids)"
  using assms by (simp add: pool_free_def pool_release_def chain_update unsigned_of_nat take_bit_nat_eq_self)

section \<open>Blocks\<close>

text \<open>Exactly the blocks without a reader are free.\<close>

definition class_ok :: "cls_info \<Rightarrow> bool" where
  "class_ok info \<longleftrightarrow> (\<forall>i. 32 \<le> i \<longrightarrow> ci_cc info i = 0) \<and>
     (ci_pool info = zero_pool \<and> (\<forall>i. ci_cc info i = 0) \<or>
      (\<exists>ids. pool_free (ci_pool info) ids \<and> set ids = {i. i < 32 \<and> ci_cc info i = 0}))"

definition storage_ok :: "storages \<Rightarrow> bool" where
  "storage_ok st \<longleftrightarrow> (\<forall>cls_size. class_ok (st cls_size))"

lemma class_prepared:
  assumes "class_ok info"
  shows "\<exists>ids. pool_free (pool_prepare (ci_pool info)) ids \<and> set ids = {i. i < 32 \<and> ci_cc info i = 0}"
proof (cases "ci_pool info = zero_pool \<and> (\<forall>i. ci_cc info i = 0)")
  case True
  then show ?thesis using pool_prepare_zero by (intro exI [of _ "[0..<32]"]) auto
next
  case False
  then obtain ids where "pool_free (ci_pool info) ids" "set ids = {i. i < 32 \<and> ci_cc info i = 0}"
    using assms unfolding class_ok_def by blast
  then show ?thesis using pool_prepare_ready [of "ci_pool info" ids] by (intro exI [of _ ids]) simp
qed

lemma apply_storage_spec:
  assumes "storage_ok st" and "conn \<noteq> 0"
  shows "\<exists>b st'. apply_storage conn sz st = Ok (b, st') \<and> storage_ok st' \<and>
    (\<forall>cls i. ci_mems (st' cls) i = ci_mems (st cls) i) \<and>
    (case b of
       None \<Rightarrow> (\<forall>i < 32. ci_cc (st (calc_cls_size sz)) i \<noteq> 0) \<and> (\<forall>cls. ci_cc (st' cls) = ci_cc (st cls))
     | Some i \<Rightarrow> i < 32 \<and> ci_cc (st (calc_cls_size sz)) i = 0 \<and>
         (\<forall>cls. ci_cc (st' cls) = (if cls = calc_cls_size sz then (ci_cc (st cls))(i := conn) else ci_cc (st cls))))"
proof -
  let ?c = "calc_cls_size sz"
  have all: "class_ok (st cls)" for cls using assms(1) by (simp add: storage_ok_def)
  obtain ids where ids: "pool_free (pool_prepare (ci_pool (st ?c))) ids" "set ids = {i. i < 32 \<and> ci_cc (st ?c) i = 0}"
    using class_prepared [OF all] by blast
  show ?thesis
  proof (cases ids)
    case Nil
    then have a: "pool_acquire (pool_prepare (ci_pool (st ?c))) = Ok (None, pool_prepare (ci_pool (st ?c)))"
      using acquire_none ids(1) by simp
    let ?st = "st(?c := (st ?c)\<lparr>ci_pool := pool_prepare (ci_pool (st ?c))\<rparr>)"
    have "class_ok (?st ?c)" using ids all [of ?c] by (auto simp: class_ok_def)
    then have "storage_ok ?st" using all by (simp add: storage_ok_def)
    then show ?thesis using a assms(2) ids(2) Nil by (auto simp: apply_storage_def Let_def)
  next
    case (Cons i ids')
    obtain p' where a: "pool_acquire (pool_prepare (ci_pool (st ?c))) = Ok (Some i, p')" "pool_free p' ids'"
      using acquire_some ids(1) Cons by blast
    have i: "i < 32" "ci_cc (st ?c) i = 0" "i \<notin> set ids'" using ids Cons by (auto simp: pool_free_def)
    let ?st = "st(?c := (st ?c)\<lparr>ci_pool := p', ci_cc := (ci_cc (st ?c))(i := conn)\<rparr>)"
    have "set ids' = {j. j < 32 \<and> ((ci_cc (st ?c))(i := conn)) j = 0}" using ids(2) Cons i assms(2) by auto
    then have "class_ok (?st ?c)" using all [of ?c] a(2) i(1) by (auto simp: class_ok_def)
    then have "storage_ok ?st" using all by (simp add: storage_ok_def)
    then show ?thesis using a assms(2) i by (auto simp: apply_storage_def Let_def)
  qed
qed

lemma recycle_storage_spec:
  assumes "storage_ok st" and "ci_cc (st (calc_cls_size sz)) i \<noteq> 0"
  shows "\<exists>st'. recycle_storage i sz st = Ok st' \<and> storage_ok st' \<and>
    (\<forall>cls. ci_cc (st' cls) = (if cls = calc_cls_size sz
       then (ci_cc (st cls))(i := ci_cc (st cls) i - 1) else ci_cc (st cls)))"
proof -
  let ?c = "calc_cls_size sz"
  let ?cc = "(ci_cc (st ?c))(i := ci_cc (st ?c) i - 1)"
  have all: "class_ok (st cls)" for cls using assms(1) by (simp add: storage_ok_def)
  obtain ids where ids: "pool_free (ci_pool (st ?c)) ids" "set ids = {i. i < 32 \<and> ci_cc (st ?c) i = 0}"
    using all [of ?c] assms(2) unfolding class_ok_def by blast
  have i: "i < 32" "i \<notin> set ids" using all [of ?c] assms(2) ids(2) by (auto simp: class_ok_def not_le)
  show ?thesis
  proof (cases "1 < ci_cc (st ?c) i")
    case True
    then have n: "ci_cc (st ?c) i - 1 \<noteq> 0" by auto
    let ?st = "st(?c := (st ?c)\<lparr>ci_cc := ?cc\<rparr>)"
    have "class_ok (?st ?c)" using all [of ?c] ids i n assms(2) by (auto simp: class_ok_def)
    then have "storage_ok ?st" using all by (simp add: storage_ok_def)
    then show ?thesis using True by (auto simp: recycle_storage_def Let_def)
  next
    case False
    then have "unat (ci_cc (st ?c) i) \<le> 1" by (simp add: word_less_nat_alt)
    moreover have "unat (ci_cc (st ?c) i) \<noteq> 0" using assms(2) by (simp add: word_unat_eq_iff)
    ultimately have one: "ci_cc (st ?c) i = 1" by (simp add: word_unat_eq_iff)
    obtain p' where r: "pool_release i (ci_pool (st ?c)) = Ok p'" "pool_free p' (i # ids)"
      using release_free [OF ids(1) i] by blast
    let ?st = "st(?c := (st ?c)\<lparr>ci_cc := ?cc, ci_pool := p'\<rparr>)"
    have "set (i # ids) = {j. j < 32 \<and> ?cc j = 0}" using ids(2) i one by auto
    then have "class_ok (?st ?c)" using all [of ?c] r(2) i(1) by (auto simp: class_ok_def)
    then have "storage_ok ?st" using all by (simp add: storage_ok_def)
    then show ?thesis using False r(1) by (auto simp: recycle_storage_def Let_def)
  qed
qed

text \<open>
  Property C21: a block of shared memory belongs to one message at a time. A request gets a block
  that nobody reads, if its class has one, and leaves all blocks in use and their contents alone; when
  its reader is done with it, exactly the same blocks are in use as before. The lists of free blocks
  stay well formed throughout.
\<close>

theorem block_lifecycle:
  assumes "storage_ok st"
  shows "\<exists>b st'. apply_storage 1 sz st = Ok (b, st') \<and> storage_ok st' \<and>
    (\<forall>cls i. ci_mems (st' cls) i = ci_mems (st cls) i) \<and>
    (case b of
       None \<Rightarrow> (\<forall>i < 32. find_storage i sz st) \<and> (\<forall>i sz'. find_storage i sz' st' = find_storage i sz' st)
     | Some i \<Rightarrow> i < 32 \<and> \<not> find_storage i sz st \<and> find_storage i sz st' \<and>
         (\<forall>j sz'. find_storage j sz' st \<longrightarrow> find_storage j sz' st') \<and>
         (\<exists>st''. recycle_storage i sz st' = Ok st'' \<and> storage_ok st'' \<and>
            (\<forall>j sz'. find_storage j sz' st'' = find_storage j sz' st)))"
proof -
  obtain b st' where a: "apply_storage 1 sz st = Ok (b, st')" "storage_ok st'" "\<forall>cls i. ci_mems (st' cls) i = ci_mems (st cls) i"
    "case b of None \<Rightarrow> (\<forall>i < 32. ci_cc (st (calc_cls_size sz)) i \<noteq> 0) \<and> (\<forall>cls. ci_cc (st' cls) = ci_cc (st cls))
     | Some i \<Rightarrow> i < 32 \<and> ci_cc (st (calc_cls_size sz)) i = 0 \<and>
         (\<forall>cls. ci_cc (st' cls) = (if cls = calc_cls_size sz then (ci_cc (st cls))(i := 1) else ci_cc (st cls)))"
    using apply_storage_spec [OF assms, of 1 sz] by auto
  show ?thesis
  proof (cases b)
    case None
    then show ?thesis using a by (auto simp: find_storage_def)
  next
    case (Some i)
    note i = a(4) [unfolded Some option.case]
    have "ci_cc (st' (calc_cls_size sz)) i \<noteq> 0" using i by simp
    from recycle_storage_spec [OF a(2) this] obtain st'' where r: "recycle_storage i sz st' = Ok st''" "storage_ok st''"
      "\<forall>cls. ci_cc (st'' cls) = (if cls = calc_cls_size sz then (ci_cc (st' cls))(i := ci_cc (st' cls) i - 1) else ci_cc (st' cls))"
      by blast
    have "find_storage j sz' st'' = find_storage j sz' st" for j sz' using r(3) i by (simp add: find_storage_def)
    moreover have "find_storage i sz st'" "find_storage j sz' st \<longrightarrow> find_storage j sz' st'" for j sz'
      using i by (auto simp: find_storage_def)
    ultimately show ?thesis using a(1-3) i r(1,2) Some by (auto simp: find_storage_def [of i sz st])
  qed
qed

lemma storage_ok_fresh: "storage_ok fresh_storages"
  by (simp add: storage_ok_def class_ok_def fresh_storages_def)

theorem block_lifecycle_witness:
  "\<exists>b st'. apply_storage 1 100 fresh_storages = Ok (b, st') \<and> b \<noteq> None \<and> storage_ok st'"
  using block_lifecycle [OF storage_ok_fresh, of 100] by (auto simp: find_storage_def fresh_storages_def split: option.splits
    dest: spec [of _ 0])

section \<open>From the sender to the receiver\<close>

lemma push_all_first:
  "\<not> room (length (cn_frames ch)) \<Longrightarrow> ms \<noteq> [] \<Longrightarrow> push_all (try_push room) ms ch = (False, conn_disconnect 1 ch)"
  by (cases ms) (simp_all add: try_push_def force_push_def)

lemma fragments_not_Nil: "dat \<noteq> [] \<Longrightarrow> fragments c i dat \<noteq> []"
  using frame_count_bounds [of 0 dat] by (simp add: fragments_def)

text \<open>A long message gets a block with its contents, or is cut; a short one is never cut.\<close>

lemma send_cases:
  assumes "dat \<noteq> []" and "length dat < 2 ^ 31" and "storage_ok (cn_storages ch)" and "cn_cc ch \<noteq> 0"
  obtains (cut) st where "chan_send push ep dat ch = Ok (push_all push (fragments (ep_cc_id ep) (cn_acc ch) dat)
      (ch\<lparr>cn_acc := cn_acc ch + 1, cn_storages := st\<rparr>))"
  | (block) b st where "64 < length dat" "find_storage b (length dat) st"
      "take (length dat) (ci_mems (st (calc_cls_size (length dat))) b) = dat"
      "chan_send push ep dat ch = Ok (push (storage_msg (ep_cc_id ep) (cn_acc ch) (word_of_nat (length dat) - 64) b)
        (ch\<lparr>cn_acc := cn_acc ch + 1, cn_storages := st\<rparr>))"
proof (cases "64 < length dat")
  case False
  then show ?thesis using assms cut [of "cn_storages ch"]
    by (simp add: chan_send_def Let_def push_fragments_all large_msg_limit_def data_length_def [symmetric])
next
  case True
  let ?c = "calc_cls_size (length dat)"
  obtain b st' where a: "apply_storage (cn_cc ch) (length dat) (cn_storages ch) = Ok (b, st')"
    "case b of None \<Rightarrow> True | Some i \<Rightarrow> ci_cc (st' ?c) i = cn_cc ch"
    using apply_storage_spec [OF assms(3,4), of "length dat"] by (auto split: option.splits)
  have s: "chan_send push ep dat ch = (case b of
       Some i \<Rightarrow> Ok (push (storage_msg (ep_cc_id ep) (cn_acc ch) (word_of_nat (length dat) - 64) i)
         (ch\<lparr>cn_acc := cn_acc ch + 1, cn_storages := write_block i (length dat) dat st'\<rparr>))
     | None \<Rightarrow> Ok (push_all push (fragments (ep_cc_id ep) (cn_acc ch) dat) (ch\<lparr>cn_acc := cn_acc ch + 1, cn_storages := st'\<rparr>)))"
    using assms a(1) True by (simp add: chan_send_def Let_def push_fragments_all large_msg_limit_def) (simp add: data_length_def push_fragments_all [unfolded data_length_def] split: option.split)
  show ?thesis
  proof (cases b)
    case None
    then show ?thesis using s cut [of st'] by simp
  next
    case (Some i)
    let ?st = "write_block i (length dat) dat st'"
    have "find_storage i (length dat) ?st" using a(2) Some assms(4) by (simp add: find_storage_def write_block_def Let_def)
    moreover have "take (length dat) (ci_mems (?st ?c) i) = dat" by (simp add: write_block_def Let_def)
    ultimately show ?thesis using True s Some block [of i ?st] by simp
  qed
qed

lemma whole_fragments:
  assumes "0 < length dat" and "length dat < 2 ^ 31"
  shows "filter whole (fragments c i dat) = [frame c i dat (frame_count dat - 1)]"
proof -
  obtain n where n: "frame_count dat = Suc n" using assms(1) frame_count_bounds [of 0 dat] by (cases "frame_count dat") auto
  have w: "whole (frame c i dat k) \<longleftrightarrow> \<not> Suc k < frame_count dat" if "k < frame_count dat" for k
    using frame_last [OF assms(2), of k c i] frame_count_bounds [of k dat] frame_count_bounds [of "Suc k" dat] that
    by (auto simp: whole_def)
  have "filter whole (map (frame c i dat) [0..<n]) = []" using w n by (simp add: filter_empty_conv)
  then show ?thesis using w [of n] n by (simp add: fragments_def)
qed

lemma recv_single:
  assumes plan: "plan_ok st p" and one: "filter whole (elements p i) = [m]"
    and el: "\<And>m. m \<in> set (elements p i) \<Longrightarrow> ms_id m = i \<and> ms_conn m \<noteq> ep_cc_id ep"
    and ep: "ep_connected ep \<noteq> 0" "ep_recv_cache ep = []"
  shows "\<exists>b ep'. recv_calls (Suc (length (elements p i))) st (elements p i) ep = ([b], [], ep') \<and>
    buff_bytes st b = map Some (pl_data p i)"
proof -
  let ?ms = "elements p i"
  have "of_id j ?ms = (if j = i then ?ms else [])" for j
  proof (cases "j = i")
    case True
    then show ?thesis using el by (simp add: filter_id_conv)
  next
    case False
    then show ?thesis using el by (auto simp: filter_empty_conv)
  qed
  then have il: "interleaved p ?ms" by (simp add: interleaved_def)
  have "underway p (take k ?ms) \<subseteq> {i}" for k
  proof
    fix j
    assume "j \<in> underway p (take k ?ms)"
    then obtain m where "m \<in> set (take k ?ms)" "ms_id m = j" by (auto simp: underway_def filter_empty_conv)
    then show "j \<in> {i}" using el in_set_takeD [of m k ?ms] by auto
  qed
  then have card: "card (underway p (take k ?ms)) \<le> 1024" for k
    using card_mono [of "{i}" "underway p (take k ?ms)"] by simp
  have "recv_cache_ok p [] []" by (simp add: recv_cache_ok_def underway_def)
  from recv_all_interleaved [OF this plan, of ?ms "ep_cc_id ep"] il card el
  obtain bs rc where r: "recv_all (ep_cc_id ep) st ?ms [] = (bs, rc)"
    "map (buff_bytes st) bs = map (\<lambda>m. map Some (pl_data p (ms_id m))) (filter whole ?ms)" by auto
  have "ms_id m = i" using el one by (metis filter_eq_Cons_iff in_set_conv_decomp)
  then obtain b where "bs = [b]" "buff_bytes st b = map Some (pl_data p i)" using r(2) one by auto
  then show ?thesis using recv_calls_all [of ?ms "Suc (length ?ms)" ep st bs rc] r(1) ep by simp
qed

text \<open>
  Property C16: what is sent is received. A message of any length below two gigabytes, sent into a
  channel with room, is the one message that the other side finds there, byte for byte, whether it
  fits into an element, lies in a block of shared memory, or, when all blocks of its class are in use,
  is cut into elements.
\<close>

theorem send_recv:
  assumes "dat \<noteq> []" and "length dat < 2 ^ 31" and "storage_ok (cn_storages ch)" and "cn_cc ch \<noteq> 0"
    and "cn_frames ch = []" and "\<And>k. room k" and "ep_cc_id sender \<noteq> ep_cc_id ep"
    and "ep_connected ep \<noteq> 0" and "ep_recv_cache ep = []"
  shows "\<exists>ch' b ep'. chan_send (try_push room) sender dat ch = Ok (True, ch') \<and>
    recv_calls (Suc (length (cn_frames ch'))) (cn_storages ch') (cn_frames ch') ep = ([b], [], ep') \<and>
    buff_bytes (cn_storages ch') b = map Some dat"
proof (rule send_cases [OF assms(1-4), of "try_push room" sender], goal_cases cut block)
  case (cut st)
  let ?i = "cn_acc ch"
  define p where "p = \<lparr>pl_conn = (\<lambda>_. ep_cc_id sender), pl_data = (\<lambda>_. dat), pl_block = (\<lambda>_. None)\<rparr>"
  have el: "elements p ?i = fragments (ep_cc_id sender) ?i dat" by (simp add: elements_def p_def)
  have "\<exists>b ep'. recv_calls (Suc (length (elements p ?i))) st (elements p ?i) ep = ([b], [], ep') \<and>
    buff_bytes st b = map Some (pl_data p ?i)"
  proof (rule recv_single)
    show "filter whole (elements p ?i) = [frame (ep_cc_id sender) ?i dat (frame_count dat - 1)]"
      unfolding el by (rule whole_fragments) (use assms(1,2) in auto)
    show "plan_ok st p" using assms(1,2) by (simp add: plan_ok_def p_def)
    show "ms_id m = ?i \<and> ms_conn m \<noteq> ep_cc_id ep" if "m \<in> set (elements p ?i)" for m
      using that assms(7) by (auto simp: el fragments_def)
  qed (use assms in simp_all)
  then show ?thesis using cut push_all_room [of room] assms(5,6) unfolding el
    by (simp add: p_def del: recv_calls.simps)
next
  case (block b st)
  let ?i = "cn_acc ch" and ?m = "storage_msg (ep_cc_id sender) (cn_acc ch) (word_of_nat (length dat) - 64) b"
  define p where "p = \<lparr>pl_conn = (\<lambda>_. ep_cc_id sender), pl_data = (\<lambda>_. dat), pl_block = (\<lambda>_. Some b)\<rparr>"
  have el: "elements p ?i = [?m]" by (simp add: elements_def p_def)
  have "\<exists>b ep'. recv_calls (Suc (length (elements p ?i))) st (elements p ?i) ep = ([b], [], ep') \<and>
    buff_bytes st b = map Some (pl_data p ?i)"
  proof (rule recv_single)
    show "filter whole (elements p ?i) = [?m]" by (simp add: el whole_def msg_storage_def storage_msg_def)
    show "plan_ok st p" using assms(1,2) block by (simp add: plan_ok_def p_def)
    show "ms_id m = ?i \<and> ms_conn m \<noteq> ep_cc_id ep" if "m \<in> set (elements p ?i)" for m
      using that assms(7) by (simp add: el storage_msg_def)
  qed (use assms in simp_all)
  then show ?thesis using block(4) assms(5,6) unfolding el
    by (simp add: p_def try_push_def del: recv_calls.simps)
qed

text \<open>
  Property C36: a ring that stays full for the time of one timeout ends a channel for good. The forced
  push takes the only receiver off the count of connections, although it is still connected and does
  not connect again; the message is lost, and every later message of every sender is refused, also
  when the ring is empty again.
\<close>

theorem send_timeout_disconnects:
  assumes "dat \<noteq> []" and "length dat < 2 ^ 31" and "storage_ok (cn_storages ch)" and "cn_cc ch = 1"
    and "\<not> room (length (cn_frames ch))" and "ep_connected ep \<noteq> 0"
  shows "\<exists>ch'. chan_send (try_push room) sender dat ch = Ok (False, ch') \<and> cn_frames ch' = cn_frames ch \<and>
    connect_receiver ep ch' = (True, ep, ch') \<and>
    (\<forall>push later dat'. chan_send push later dat' ch' = Ok (False, ch'))"
proof -
  have "cn_cc ch \<noteq> 0" using assms(4) by simp
  obtain st where "chan_send (try_push room) sender dat ch =
      Ok (False, conn_disconnect 1 (ch\<lparr>cn_acc := cn_acc ch + 1, cn_storages := st\<rparr>))"
  proof (rule send_cases [OF assms(1-3) \<open>cn_cc ch \<noteq> 0\<close>, of "try_push room" sender], goal_cases cut block)
    case (cut st)
    then show ?thesis using that [of st] push_all_first [of room] assms(1,5) fragments_not_Nil by simp
  next
    case (block b st)
    then show ?thesis using that [of st] assms(5) by (simp add: try_push_def force_push_def)
  qed
  then show ?thesis using assms(4,6) by (simp add: conn_disconnect_def connect_receiver_def chan_send_def)
qed

section \<open>Examples\<close>

definition ex_channel :: channel where
  "ex_channel = \<lparr>cn_cc = 1, cn_acc = 0, cn_frames = [], cn_storages = fresh_storages\<rparr>"

definition ex_endpoint :: "uint32 \<Rightarrow> endpoint" where
  "ex_endpoint i = \<lparr>ep_cc_id = i, ep_connected = 1, ep_recv_cache = []\<rparr>"

theorem send_recv_witness:
  "\<exists>ch' b ep'. chan_send (try_push (\<lambda>_. True)) (ex_endpoint 2) (replicate 100 (CHR ''a'')) ex_channel = Ok (True, ch') \<and>
    recv_calls (Suc (length (cn_frames ch'))) (cn_storages ch') (cn_frames ch') (ex_endpoint 1) = ([b], [], ep') \<and>
    buff_bytes (cn_storages ch') b = replicate 100 (Some (CHR ''a''))"
  using send_recv [of "replicate 100 (CHR ''a'')" ex_channel "\<lambda>_. True" "ex_endpoint 2" "ex_endpoint 1"] storage_ok_fresh
  by (simp add: ex_channel_def ex_endpoint_def del: recv_calls.simps)

theorem send_timeout_disconnects_witness:
  "\<exists>ch'. chan_send (try_push (\<lambda>_. False)) (ex_endpoint 2) ''a'' ex_channel = Ok (False, ch') \<and>
    chan_send (try_push (\<lambda>_. True)) (ex_endpoint 3) ''b'' ch' = Ok (False, ch')"
  using send_timeout_disconnects [of "''a''" ex_channel "\<lambda>_. False" "ex_endpoint 1" "ex_endpoint 2"] storage_ok_fresh
  by (auto simp: ex_channel_def ex_endpoint_def)

end
