(* ===== verification/Ph_Ring.thy ===== *)
theory Ph_Ring
  imports Ph_Prelude
begin

text \<open>
  The queue under the channels of a node, \<^verbatim>\<open>common/shm-ipc/src/libipc/prod_cons.h\<close> and
  \<^verbatim>\<open>circ/elem_def.h\<close>: a ring of 256 elements in shared memory that any number of processes write
  and read without a lock. One step of a thread is one access to shared memory; all interleavings of
  the steps are considered, under a sequentially consistent memory. A weak compare-and-exchange may
  fail at any time.
\<close>

unbundle bit_operations_syntax

section \<open>The elements and the indices\<close>

record 'a elem =
  el_data :: 'a
  el_f_ct :: uint64

record 'a ring =
  ring_rd :: uint32
  ring_wt :: uint32
  ring_ct :: uint32
  ring_elems :: "uint8 \<Rightarrow> 'a elem"

definition index_of :: "uint32 \<Rightarrow> uint8" where
  "index_of c = ucast c"

text \<open>The flag that a committed ticket leaves in its element.\<close>

definition commit_flag :: "uint32 \<Rightarrow> uint64" where
  "commit_flag c = NOT (ucast c)"

definition set_data :: "uint8 \<Rightarrow> 'a \<Rightarrow> 'a ring \<Rightarrow> 'a ring" where
  "set_data i v r = r\<lparr>ring_elems := (ring_elems r)(i := (ring_elems r i)\<lparr>el_data := v\<rparr>)\<rparr>"

definition set_flag :: "uint8 \<Rightarrow> uint64 \<Rightarrow> 'a ring \<Rightarrow> 'a ring" where
  "set_flag i f r = r\<lparr>ring_elems := (ring_elems r)(i := (ring_elems r i)\<lparr>el_f_ct := f\<rparr>)\<rparr>"

section \<open>Push and pop\<close>

text \<open>Where a thread stands in \<^verbatim>\<open>push\<close>, with its local variables.\<close>

datatype 'a push_pc =
    Push_Load 'a
  | Push_Check 'a uint32
  | Push_Claim 'a uint32
  | Push_Write 'a uint32
  | Push_Flag uint32
  | Push_Cac uint32
  | Push_Wt uint32 uint64
  | Push_Cas uint32 uint64
  | Push_Adv uint32
  | Pushed bool

fun push_step :: "bool \<Rightarrow> 'a push_pc \<Rightarrow> 'a ring \<Rightarrow> 'a push_pc \<times> 'a ring" where
  "push_step weak (Push_Load v) r = (Push_Check v (ring_ct r), r)"
| "push_step weak (Push_Check v cur_ct) r =
     (if index_of (cur_ct + 1) = index_of (ring_rd r) then (Pushed False, r) else (Push_Claim v cur_ct, r))"
| "push_step weak (Push_Claim v cur_ct) r =
     (if weak \<and> ring_ct r = cur_ct then (Push_Write v cur_ct, r\<lparr>ring_ct := cur_ct + 1\<rparr>) else (Push_Load v, r))"
| "push_step weak (Push_Write v cur_ct) r = (Push_Flag cur_ct, set_data (index_of cur_ct) v r)"
| "push_step weak (Push_Flag cur_ct) r = (Push_Cac cur_ct, set_flag (index_of cur_ct) (NOT (ucast cur_ct)) r)"
| "push_step weak (Push_Cac cur_ct) r = (Push_Wt cur_ct (el_f_ct (ring_elems r (index_of cur_ct))), r)"
| "push_step weak (Push_Wt cur_ct cac_ct) r =
     (if cur_ct \<noteq> ring_wt r then (Pushed True, r)
      else if NOT cac_ct \<noteq> ucast cur_ct then (Pushed True, r)
      else (Push_Cas cur_ct cac_ct, r))"
| "push_step weak (Push_Cas cur_ct cac_ct) r =
     (if el_f_ct (ring_elems r (index_of cur_ct)) = cac_ct
      then (Push_Adv cur_ct, set_flag (index_of cur_ct) 0 r) else (Pushed True, r))"
| "push_step weak (Push_Adv cur_ct) r = (Push_Cac (cur_ct + 1), r\<lparr>ring_wt := cur_ct + 1\<rparr>)"
| "push_step weak (Pushed b) r = (Pushed b, r)"

datatype 'a pop_pc =
    Pop_Load
  | Pop_Wt uint32
  | Pop_Cac uint32
  | Pop_Cas uint32 uint64
  | Pop_Adv uint32
  | Pop_Copy uint32
  | Pop_Claim uint32 'a
  | Popped "'a option"

fun pop_step :: "bool \<Rightarrow> 'a pop_pc \<Rightarrow> 'a ring \<Rightarrow> 'a pop_pc \<times> 'a ring" where
  "pop_step weak Pop_Load r = (Pop_Wt (ring_rd r), r)"
| "pop_step weak (Pop_Wt cur_rd) r =
     (let cur_wt = ring_wt r
      in if index_of cur_rd = index_of cur_wt then (Pop_Cac cur_wt, r) else (Pop_Copy cur_rd, r))"
| "pop_step weak (Pop_Cac cur_wt) r =
     (let cac_ct = el_f_ct (ring_elems r (index_of cur_wt))
      in if NOT cac_ct \<noteq> ucast cur_wt then (Popped None, r) else (Pop_Cas cur_wt cac_ct, r))"
| "pop_step weak (Pop_Cas cur_wt cac_ct) r =
     (if weak \<and> el_f_ct (ring_elems r (index_of cur_wt)) = cac_ct
      then (Pop_Adv cur_wt, set_flag (index_of cur_wt) 0 r) else (Pop_Load, r))"
| "pop_step weak (Pop_Adv cur_wt) r = (Pop_Load, r\<lparr>ring_wt := cur_wt + 1\<rparr>)"
| "pop_step weak (Pop_Copy cur_rd) r = (Pop_Claim cur_rd (el_data (ring_elems r (index_of cur_rd))), r)"
| "pop_step weak (Pop_Claim cur_rd buff) r =
     (if weak \<and> ring_rd r = cur_rd then (Popped (Some buff), r\<lparr>ring_rd := cur_rd + 1\<rparr>) else (Pop_Load, r))"
| "pop_step weak (Popped x) r = (Popped x, r)"

section \<open>The threads together\<close>

datatype 'a thread = Idle | Pushing "'a push_pc" | Popping "'a pop_pc"

fun finished :: "'a thread \<Rightarrow> bool" where
  "finished Idle = True"
| "finished (Pushing pc) = (case pc of Pushed _ \<Rightarrow> True | _ \<Rightarrow> False)"
| "finished (Popping pc) = (case pc of Popped _ \<Rightarrow> True | _ \<Rightarrow> False)"

text \<open>
  Beside the memory and the threads, the values whose ticket has been claimed and those that have been
  taken, in the order of the claims.
\<close>

record 'a sys =
  sy_ring :: "'a ring"
  sy_threads :: "nat \<Rightarrow> 'a thread"
  sy_claimed :: "'a list"
  sy_taken :: "'a list"

fun claims :: "'a push_pc \<Rightarrow> 'a push_pc \<Rightarrow> 'a list" where
  "claims (Push_Claim v c) (Push_Write w d) = [v]"
| "claims _ _ = []"

fun takes_one :: "'a pop_pc \<Rightarrow> 'a pop_pc \<Rightarrow> 'a list" where
  "takes_one (Pop_Claim c x) (Popped (Some y)) = [x]"
| "takes_one _ _ = []"

text \<open>A step of the thread \<open>i\<close>.\<close>

inductive sys_step :: "'a sys \<Rightarrow> nat \<Rightarrow> 'a sys \<Rightarrow> bool" where
  start_push: "finished (sy_threads s i) \<Longrightarrow>
     sys_step s i (s\<lparr>sy_threads := (sy_threads s)(i := Pushing (Push_Load v))\<rparr>)"
| start_pop: "finished (sy_threads s i) \<Longrightarrow>
     sys_step s i (s\<lparr>sy_threads := (sy_threads s)(i := Popping Pop_Load)\<rparr>)"
| push: "sy_threads s i = Pushing pc \<Longrightarrow> push_step weak pc (sy_ring s) = (pc', r') \<Longrightarrow>
     sys_step s i (s\<lparr>sy_ring := r', sy_threads := (sy_threads s)(i := Pushing pc'),
                     sy_claimed := sy_claimed s @ claims pc pc'\<rparr>)"
| pop: "sy_threads s i = Popping pc \<Longrightarrow> pop_step weak pc (sy_ring s) = (pc', r') \<Longrightarrow>
     sys_step s i (s\<lparr>sy_ring := r', sy_threads := (sy_threads s)(i := Popping pc'),
                     sy_taken := sy_taken s @ takes_one pc pc'\<rparr>)"

text \<open>The shared memory starts with zeros.\<close>

definition fresh_ring :: "'a \<Rightarrow> 'a ring" where
  "fresh_ring zero = \<lparr>ring_rd = 0, ring_wt = 0, ring_ct = 0, ring_elems = (\<lambda>_. \<lparr>el_data = zero, el_f_ct = 0\<rparr>)\<rparr>"

definition fresh_sys :: "'a \<Rightarrow> 'a sys" where
  "fresh_sys zero = \<lparr>sy_ring = fresh_ring zero, sy_threads = (\<lambda>_. Idle), sy_claimed = [], sy_taken = []\<rparr>"

inductive ring_reachable :: "'a \<Rightarrow> 'a sys \<Rightarrow> bool" for zero where
  reach_init: "ring_reachable zero (fresh_sys zero)"
| reach_step: "ring_reachable zero s \<Longrightarrow> sys_step s i s' \<Longrightarrow> ring_reachable zero s'"

end
