(* ===== verification/Ph_Ring_Laws.thy ===== *)
theory Ph_Ring_Laws
  imports Ph_Ring
begin

text \<open>
  The invariant of the ring: an assertion for every point of \<^verbatim>\<open>push\<close> and \<^verbatim>\<open>pop\<close> that the steps of
  the other threads keep, and what the flags, the data and the indices have to do with each other.
\<close>

section \<open>Indices and flags\<close>

lemma unat_index_of: "unat (index_of c) = unat c mod 256"
  by (simp add: index_of_def unsigned_ucast_eq take_bit_eq_mod)

lemma index_of_Suc: "index_of (c + 1) = index_of c + 1"
proof -
  have "unat (c + 1) mod 256 = (unat c + 1) mod 256"
    using mod_mod_cancel [of 256 "2 ^ 32" "unat c + 1"] by (simp add: unat_word_ariths)
  then have "unat (index_of (c + 1)) = unat (index_of c + 1)"
    by (simp add: unat_index_of unat_word_ariths mod_Suc_eq)
  then show ?thesis by (simp add: word_unat_eq_iff)
qed

lemma mod_window:
  assumes "a mod n = b mod n" and "(lo :: nat) \<le> a" "a < lo + n" "lo \<le> b" "b < lo + n"
  shows "a = b"
proof (rule ccontr)
  assume "a \<noteq> b"
  moreover have "n dvd a - b" "n dvd b - a"
    using assms(1) by (metis mod_eq_dvd_iff_nat dvd_0_right diff_is_0_eq nat_le_linear)+
  ultimately show False using assms(2-) by (auto dest!: dvd_imp_le)
qed

text \<open>Tickets of one round of the ring have different elements.\<close>

lemma index_of_window:
  assumes "index_of c = index_of d" and "lo \<le> unat c" "unat c \<le> lo + 255" "lo \<le> unat d" "unat d \<le> lo + 255"
  shows "c = d"
proof -
  have "unat c mod 256 = unat d mod 256" using assms(1) unat_index_of by metis
  then have "unat c = unat d" using mod_window [of "unat c" 256 "unat d" lo] assms(2-) by simp
  then show ?thesis by (simp add: word_unat_eq_iff)
qed

lemma unat_ucast_64: "unat (ucast (c :: uint32) :: uint64) = unat c"
proof -
  have "unat c < 2 ^ 64" using unsigned_less [of c, where ?'a = nat] by simp
  then show ?thesis by (simp add: unsigned_ucast_eq take_bit_eq_mod)
qed

lemma commit_flag_eq [simp]: "commit_flag c = commit_flag d \<longleftrightarrow> c = d"
proof
  assume "commit_flag c = commit_flag d"
  then have "unat (ucast c :: uint64) = unat (ucast d :: uint64)" by (simp add: commit_flag_def)
  then show "c = d" by (simp add: unat_ucast_64 word_unat_eq_iff)
qed simp

lemma commit_flag_nonzero [simp]: "commit_flag c \<noteq> 0" "0 \<noteq> commit_flag c"
proof -
  show "commit_flag c \<noteq> 0"
  proof
    assume "commit_flag c = 0"
    then have "(ucast c :: uint64) = - 1" by (metis bit.double_compl bit.compl_zero commit_flag_def)
    then have "unat c = unat (- 1 :: uint64)" using unat_ucast_64 by metis
    then show False using unsigned_less [of c, where ?'a = nat] by (simp add: unsigned_minus_1_eq_mask mask_eq_exp_minus_1)
  qed
  then show "0 \<noteq> commit_flag c" by simp
qed

lemma not_flag_iff: "NOT f = ucast c \<longleftrightarrow> f = commit_flag c"
  by (metis bit.double_compl commit_flag_def)

lemma set_data_simps [simp]:
  "ring_rd (set_data i v r) = ring_rd r" "ring_wt (set_data i v r) = ring_wt r" "ring_ct (set_data i v r) = ring_ct r"
  "el_data (ring_elems (set_data i v r) j) = (if j = i then v else el_data (ring_elems r j))"
  "el_f_ct (ring_elems (set_data i v r) j) = el_f_ct (ring_elems r j)"
  by (simp_all add: set_data_def)

lemma set_flag_simps [simp]:
  "ring_rd (set_flag i f r) = ring_rd r" "ring_wt (set_flag i f r) = ring_wt r" "ring_ct (set_flag i f r) = ring_ct r"
  "el_f_ct (ring_elems (set_flag i f r) j) = (if j = i then f else el_f_ct (ring_elems r j))"
  "el_data (ring_elems (set_flag i f r) j) = el_data (ring_elems r j)"
  by (simp_all add: set_flag_def)

section \<open>The invariant\<close>

abbreviation RD :: "'a sys \<Rightarrow> nat" where "RD s \<equiv> length (sy_taken s)"
abbreviation CT :: "'a sys \<Rightarrow> nat" where "CT s \<equiv> length (sy_claimed s)"
abbreviation WT :: "'a sys \<Rightarrow> nat" where "WT s \<equiv> unat (ring_wt (sy_ring s))"
abbreviation dat :: "'a sys \<Rightarrow> uint32 \<Rightarrow> 'a" where "dat s c \<equiv> el_data (ring_elems (sy_ring s) (index_of c))"
abbreviation flg :: "'a sys \<Rightarrow> uint32 \<Rightarrow> uint64" where "flg s c \<equiv> el_f_ct (ring_elems (sy_ring s) (index_of c))"

text \<open>The ticket that a thread still has to commit, and the threads that are about to move the write index.\<close>

fun owns :: "'a thread \<Rightarrow> uint32 option" where
  "owns (Pushing (Push_Write v c)) = Some c"
| "owns (Pushing (Push_Flag c)) = Some c"
| "owns _ = None"

fun advances :: "'a thread \<Rightarrow> bool" where
  "advances (Pushing (Push_Adv c)) = True"
| "advances (Popping (Pop_Adv c)) = True"
| "advances _ = False"

text \<open>What holds at each point of the code.\<close>

fun thread_ok :: "'a sys \<Rightarrow> 'a thread \<Rightarrow> bool" where
  "thread_ok s (Pushing (Push_Check v c)) = (unat c \<le> CT s)"
| "thread_ok s (Pushing (Push_Claim v c)) = (unat c \<le> CT s \<and> (unat c = CT s \<longrightarrow> CT s < RD s + 255))"
| "thread_ok s (Pushing (Push_Write v c)) =
     (WT s \<le> unat c \<and> unat c < CT s \<and> sy_claimed s ! unat c = v \<and> flg s c \<noteq> commit_flag c)"
| "thread_ok s (Pushing (Push_Flag c)) = (WT s \<le> unat c \<and> unat c < CT s \<and> flg s c \<noteq> commit_flag c)"
| "thread_ok s (Pushing (Push_Cas c f)) = (unat c \<le> WT s \<and> f = commit_flag c)"
| "thread_ok s (Pushing (Push_Adv c)) = (unat c = WT s \<and> unat c < CT s \<and> flg s c \<noteq> commit_flag c)"
| "thread_ok s (Popping (Pop_Wt c)) = (unat c \<le> RD s)"
| "thread_ok s (Popping (Pop_Cac c)) = (unat c \<le> WT s)"
| "thread_ok s (Popping (Pop_Cas c f)) = (unat c \<le> WT s \<and> f = commit_flag c)"
| "thread_ok s (Popping (Pop_Adv c)) = (unat c = WT s \<and> unat c < CT s \<and> flg s c \<noteq> commit_flag c)"
| "thread_ok s (Popping (Pop_Copy c)) = (unat c \<le> RD s \<and> (unat c = RD s \<longrightarrow> unat c < WT s))"
| "thread_ok s (Popping (Pop_Claim c x)) =
     (unat c \<le> RD s \<and> (unat c = RD s \<longrightarrow> unat c < WT s \<and> x = sy_claimed s ! unat c))"
| "thread_ok s _ = True"

definition indices_ok :: "'a sys \<Rightarrow> bool" where
  "indices_ok s \<longleftrightarrow> ring_ct (sy_ring s) = word_of_nat (CT s) \<and> ring_rd (sy_ring s) = word_of_nat (RD s) \<and>
     CT s < 2 ^ 32 \<and> RD s \<le> WT s \<and> WT s \<le> CT s \<and> CT s \<le> RD s + 255 \<and> sy_taken s = take (RD s) (sy_claimed s)"

definition flags_ok :: "'a sys \<Rightarrow> bool" where
  "flags_ok s \<longleftrightarrow> (\<forall>i. el_f_ct (ring_elems (sy_ring s) i) = 0 \<or>
     (\<exists>c. WT s \<le> unat c \<and> unat c < CT s \<and> i = index_of c \<and> el_f_ct (ring_elems (sy_ring s) i) = commit_flag c))"

definition data_ok :: "'a sys \<Rightarrow> bool" where
  "data_ok s \<longleftrightarrow> (\<forall>c. RD s \<le> unat c \<and> unat c < CT s \<longrightarrow>
     dat s c = sy_claimed s ! unat c \<or> (\<exists>j v. sy_threads s j = Pushing (Push_Write v c)))"

text \<open>No committed ticket is forgotten.\<close>

definition pending_ok :: "'a sys \<Rightarrow> bool" where
  "pending_ok s \<longleftrightarrow> (\<forall>c. WT s \<le> unat c \<and> unat c < CT s \<longrightarrow>
     flg s c = commit_flag c \<or> (\<exists>j. owns (sy_threads s j) = Some c) \<or>
     (unat c = WT s \<and> (\<exists>j. advances (sy_threads s j))))"

definition apart :: "'a sys \<Rightarrow> 'a thread \<Rightarrow> 'a thread \<Rightarrow> bool" where
  "apart s t u \<longleftrightarrow> (owns t \<noteq> None \<longrightarrow> owns t \<noteq> owns u) \<and> \<not> (advances t \<and> advances u) \<and>
     (advances t \<longrightarrow> owns u \<noteq> Some (ring_wt (sy_ring s))) \<and> (advances u \<longrightarrow> owns t \<noteq> Some (ring_wt (sy_ring s)))"

definition threads_ok :: "'a sys \<Rightarrow> bool" where
  "threads_ok s \<longleftrightarrow> (\<forall>i. thread_ok s (sy_threads s i)) \<and>
     (\<forall>i j. i \<noteq> j \<longrightarrow> apart s (sy_threads s i) (sy_threads s j))"

definition ring_inv :: "'a sys \<Rightarrow> bool" where
  "ring_inv s \<longleftrightarrow> indices_ok s \<and> flags_ok s \<and> data_ok s \<and> pending_ok s \<and> threads_ok s"

lemma ring_inv_fresh: "ring_inv (fresh_sys zero)"
  by (simp add: ring_inv_def indices_ok_def flags_ok_def data_ok_def pending_ok_def threads_ok_def apart_def
      fresh_sys_def fresh_ring_def)

lemmas ring_inv_defs = ring_inv_def indices_ok_def flags_ok_def data_ok_def pending_ok_def threads_ok_def

abbreviation wt :: "'a sys \<Rightarrow> uint32" where "wt s \<equiv> ring_wt (sy_ring s)"

section \<open>Interference\<close>

text \<open>What a thread relies on, in a step of another one.\<close>

lemma thread_ok_stable:
  assumes "thread_ok s t" and "RD s \<le> RD s'" and "WT s \<le> WT s'" and "CT s \<le> CT s'" and "WT s \<le> CT s"
    and "\<And>n. n < CT s \<Longrightarrow> sy_claimed s' ! n = sy_claimed s ! n"
    and "\<And>c. owns t = Some c \<Longrightarrow> WT s' \<le> unat c \<and> flg s' c \<noteq> commit_flag c"
    and "advances t \<Longrightarrow> wt s' = wt s \<and> flg s' (wt s) \<noteq> commit_flag (wt s)"
  shows "thread_ok s' t"
  using assms by (cases "(s, t)" rule: thread_ok.cases) (auto simp: word_unat_eq_iff [symmetric])

lemma owner_facts:
  assumes "ring_inv s" and "owns (sy_threads s j) = Some c"
  shows "WT s \<le> unat c \<and> unat c < CT s \<and> flg s c \<noteq> commit_flag c"
proof -
  have "thread_ok s (sy_threads s j)" using assms(1) by (simp add: ring_inv_def threads_ok_def)
  then show ?thesis using assms(2) by (cases "sy_threads s j" rule: owns.cases) auto
qed

lemma advancer_facts:
  assumes "ring_inv s" and "advances (sy_threads s j)"
  shows "WT s < CT s \<and> flg s (wt s) \<noteq> commit_flag (wt s)"
proof -
  have "thread_ok s (sy_threads s j)" using assms(1) by (simp add: ring_inv_def threads_ok_def)
  then show ?thesis using assms(2)
    by (cases "sy_threads s j" rule: advances.cases) (auto simp: word_unat_eq_iff [symmetric])
qed

lemma ring_inv_step:
  assumes inv: "ring_inv s" and th: "sy_threads s' = (sy_threads s)(i := t)"
    and grow: "RD s \<le> RD s'" "WT s \<le> WT s'" "CT s \<le> CT s'" "\<And>n. n < CT s \<Longrightarrow> sy_claimed s' ! n = sy_claimed s ! n"
    and ok': "indices_ok s'" "flags_ok s'" "data_ok s'" "pending_ok s'" "thread_ok s' t"
    and move: "wt s' = wt s \<or> advances (sy_threads s i)"
    and own: "\<And>j c. j \<noteq> i \<Longrightarrow> owns (sy_threads s j) = Some c \<Longrightarrow> WT s' \<le> unat c \<and> flg s' c \<noteq> commit_flag c"
    and adv: "\<And>j. j \<noteq> i \<Longrightarrow> advances (sy_threads s j) \<Longrightarrow> flg s' (wt s) \<noteq> commit_flag (wt s)"
    and new: "\<And>j. j \<noteq> i \<Longrightarrow> apart s' t (sy_threads s j)"
  shows "ring_inv s'"
proof -
  have apart: "apart s (sy_threads s i) (sy_threads s j)" if "i \<noteq> j" for i j
    using inv that by (simp add: ring_inv_def threads_ok_def)
  have ok: "thread_ok s (sy_threads s j)" for j using inv by (simp add: ring_inv_def threads_ok_def)
  have le: "WT s \<le> CT s" using inv by (simp add: ring_inv_def indices_ok_def)
  have alone: "wt s' = wt s" if "j \<noteq> i" "advances (sy_threads s j)" for j
    using move apart [OF that(1)] that(2) by (auto simp: apart_def)
  have "thread_ok s' (sy_threads s j)" if "j \<noteq> i" for j
    by (rule thread_ok_stable [OF ok grow(1,2,3) le grow(4) own [OF that]]) (use alone adv that in auto)
  moreover have "apart s' (sy_threads s j) (sy_threads s k)" if "j \<noteq> i" "k \<noteq> i" "j \<noteq> k" for j k
    using apart [OF that(3)] alone [OF that(1)] alone [OF that(2)] by (auto simp: apart_def)
  moreover have "apart s' (sy_threads s j) t" if "j \<noteq> i" for j using new [OF that] by (auto simp: apart_def)
  ultimately have "threads_ok s'" using ok'(5) new by (auto simp: threads_ok_def th)
  then show ?thesis using ok' by (simp add: ring_inv_def)
qed

text \<open>A step that leaves the memory alone, of a thread that has no ticket.\<close>

lemma local_step:
  assumes "ring_inv s" and "owns (sy_threads s i) = None" and "\<not> advances (sy_threads s i)"
    and "owns t = None" and "\<not> advances t" and "thread_ok s t"
  shows "ring_inv (s\<lparr>sy_threads := (sy_threads s)(i := t)\<rparr>)"
proof -
  let ?s' = "s\<lparr>sy_threads := (sy_threads s)(i := t)\<rparr>"
  have "data_ok ?s'"
    using assms(1,2) unfolding ring_inv_def data_ok_def by (auto, metis option.distinct(1) owns.simps(1))
  moreover have "pending_ok ?s'"
    using assms(1-3) unfolding ring_inv_def pending_ok_def by (auto, (metis option.distinct(1))+)
  moreover have "thread_ok ?s' t"
    by (rule thread_ok_stable [OF assms(6)]) (use assms in \<open>auto simp: ring_inv_def indices_ok_def\<close>)
  moreover have "apart ?s' t (sy_threads s j)" for j using assms(4,5) by (simp add: apart_def)
  moreover note owner_facts [OF assms(1)] advancer_facts [OF assms(1)]
  ultimately show ?thesis
    by (intro ring_inv_step [OF assms(1)]) (use assms(1) in \<open>simp_all add: ring_inv_def indices_ok_def flags_ok_def\<close>)
qed

section \<open>Steps that change the memory\<close>

lemma inv_indices:
  assumes "ring_inv s"
  shows "ring_ct (sy_ring s) = word_of_nat (CT s)" "ring_rd (sy_ring s) = word_of_nat (RD s)" "CT s < 2 ^ 32"
    "RD s \<le> WT s" "WT s \<le> CT s" "CT s \<le> RD s + 255" "sy_taken s = take (RD s) (sy_claimed s)"
    "unat (ring_ct (sy_ring s)) = CT s" "unat (ring_rd (sy_ring s)) = RD s"
proof -
  show *: "ring_ct (sy_ring s) = word_of_nat (CT s)" "ring_rd (sy_ring s) = word_of_nat (RD s)" "CT s < 2 ^ 32"
    "RD s \<le> WT s" "WT s \<le> CT s" "CT s \<le> RD s + 255" "sy_taken s = take (RD s) (sy_claimed s)"
    using assms by (simp_all add: ring_inv_def indices_ok_def)
  from *(3-5) have "RD s < 2 ^ 32" by simp
  then show "unat (ring_ct (sy_ring s)) = CT s" "unat (ring_rd (sy_ring s)) = RD s"
    using *(1-3) by (simp_all add: unsigned_of_nat take_bit_nat_eq_self)
qed

lemma inv_thread: "ring_inv s \<Longrightarrow> thread_ok s (sy_threads s i)"
  by (simp add: ring_inv_def threads_ok_def)

lemma inv_apart: "ring_inv s \<Longrightarrow> i \<noteq> j \<Longrightarrow> apart s (sy_threads s i) (sy_threads s j)"
  by (simp add: ring_inv_def threads_ok_def)

text \<open>Two tickets between the indices that share an element are the same.\<close>

lemma inv_window:
  assumes "ring_inv s" and "index_of c = index_of d" and "RD s \<le> unat c" "unat c < CT s" "RD s \<le> unat d" "unat d < CT s"
  shows "c = d"
  by (rule index_of_window [OF assms(2), of "RD s"]) (use assms inv_indices(6) [OF assms(1)] in auto)

lemma inv_flag:
  assumes "ring_inv s" and "flg s c = commit_flag d"
  shows "WT s \<le> unat d" "unat d < CT s"
  using assms unfolding ring_inv_def flags_ok_def by (metis commit_flag_eq commit_flag_nonzero(1))+

text \<open>The data and the pending tickets, when one thread moves.\<close>

lemma data_ok_step:
  assumes "data_ok s" and "sy_threads s' = (sy_threads s)(i := t)" and "RD s \<le> RD s'"
    and "\<And>c. RD s' \<le> unat c \<Longrightarrow> unat c < CT s' \<Longrightarrow>
      dat s' c = sy_claimed s' ! unat c \<or> (\<exists>v. t = Pushing (Push_Write v c)) \<or>
      (unat c < CT s \<and> dat s' c = dat s c \<and> sy_claimed s' ! unat c = sy_claimed s ! unat c \<and>
       (\<forall>v. sy_threads s i \<noteq> Pushing (Push_Write v c)))"
  shows "data_ok s'"
  unfolding data_ok_def
proof (intro allI impI)
  fix c :: uint32
  assume c: "RD s' \<le> unat c \<and> unat c < CT s'"
  from assms(4) [of c] c consider (data) "dat s' c = sy_claimed s' ! unat c" | (new) v where "t = Pushing (Push_Write v c)"
    | (old) "unat c < CT s" "dat s' c = dat s c" "sy_claimed s' ! unat c = sy_claimed s ! unat c"
      "\<forall>v. sy_threads s i \<noteq> Pushing (Push_Write v c)"
    by blast
  then show "dat s' c = sy_claimed s' ! unat c \<or> (\<exists>j v. sy_threads s' j = Pushing (Push_Write v c))"
  proof cases
    case new
    then have "sy_threads s' i = Pushing (Push_Write v c)" by (simp add: assms(2))
    then show ?thesis by blast
  next
    case old
    have "dat s c = sy_claimed s ! unat c \<or> (\<exists>j v. sy_threads s j = Pushing (Push_Write v c))"
      using assms(1,3) c old(1) by (auto simp: data_ok_def)
    then show ?thesis
    proof
      assume "\<exists>j v. sy_threads s j = Pushing (Push_Write v c)"
      then obtain j v where j: "sy_threads s j = Pushing (Push_Write v c)" by blast
      with old(4) have "sy_threads s' j = Pushing (Push_Write v c)" by (auto simp: assms(2))
      then show ?thesis by blast
    qed (use old in simp)
  qed simp
qed

lemma pending_ok_step:
  assumes "pending_ok s" and "sy_threads s' = (sy_threads s)(i := t)" and "WT s \<le> WT s'"
    and "\<And>c. WT s' \<le> unat c \<Longrightarrow> unat c < CT s' \<Longrightarrow>
      flg s' c = commit_flag c \<or> owns t = Some c \<or> (unat c = WT s' \<and> advances t) \<or>
      (unat c < CT s \<and> flg s' c = flg s c \<and> owns (sy_threads s i) \<noteq> Some c \<and>
       (unat c = WT s \<longrightarrow> WT s' = WT s \<and> \<not> advances (sy_threads s i)))"
  shows "pending_ok s'"
  unfolding pending_ok_def
proof (intro allI impI)
  fix c :: uint32
  assume c: "WT s' \<le> unat c \<and> unat c < CT s'"
  from assms(4) [of c] c consider (flag) "flg s' c = commit_flag c" | (new) "owns t = Some c"
    | (adv) "unat c = WT s'" "advances t"
    | (old) "unat c < CT s" "flg s' c = flg s c" "owns (sy_threads s i) \<noteq> Some c"
      "unat c = WT s \<longrightarrow> WT s' = WT s \<and> \<not> advances (sy_threads s i)"
    by blast
  then show "flg s' c = commit_flag c \<or> (\<exists>j. owns (sy_threads s' j) = Some c) \<or>
    (unat c = WT s' \<and> (\<exists>j. advances (sy_threads s' j)))"
  proof cases
    case old
    have "flg s c = commit_flag c \<or> (\<exists>j. owns (sy_threads s j) = Some c) \<or> (unat c = WT s \<and> (\<exists>j. advances (sy_threads s j)))"
      using assms(1,3) c old(1) by (auto simp: pending_ok_def)
    moreover have "owns (sy_threads s' j) = Some c" if "owns (sy_threads s j) = Some c" for j
      using that old(3) by (auto simp: assms(2))
    moreover have "advances (sy_threads s' j)" if "advances (sy_threads s j)" "unat c = WT s" for j
      using that old(4) by (auto simp: assms(2))
    ultimately show ?thesis using old(2,4) by auto
  qed (auto simp: assms(2))
qed

lemma claim_step:
  assumes inv: "ring_inv s" and th: "sy_threads s i = Pushing (Push_Claim v c)" and ct: "ring_ct (sy_ring s) = c"
    and bound: "CT s + 1 < 2 ^ 32"
    and s': "s' = s\<lparr>sy_ring := (sy_ring s)\<lparr>ring_ct := c + 1\<rparr>, sy_threads := (sy_threads s)(i := Pushing (Push_Write v c)),
      sy_claimed := sy_claimed s @ [v]\<rparr>"
  shows "ring_inv s'"
proof -
  note ix = inv_indices [OF inv]
  have c: "unat c = CT s" using ix(8) ct by simp
  have room: "CT s < RD s + 255" using inv_thread [OF inv, of i] by (simp add: th c)
  have noflag: "flg s c \<noteq> commit_flag c" using inv_flag(2) [OF inv, of c c] c by auto
  have lt: "unat d < CT s \<or> d = c" if "unat d < Suc (CT s)" for d
    using that c by (auto simp: word_unat_eq_iff)
  show ?thesis
  proof (rule ring_inv_step [OF inv, of s' i "Pushing (Push_Write v c)"])
    show "indices_ok s'" using ix room bound ct by (simp add: s' indices_ok_def)
    show "flags_ok s'" using inv unfolding ring_inv_def flags_ok_def s' by (simp, meson less_SucI)
    show "data_ok s'"
      by (rule data_ok_step [of s _ i]) (use inv th in \<open>auto simp: s' ring_inv_def nth_append dest: lt\<close>)
    show "pending_ok s'"
      by (rule pending_ok_step [of s _ i]) (use inv th in \<open>auto simp: s' ring_inv_def nth_append dest: lt\<close>)
    show "apart s' (Pushing (Push_Write v c)) (sy_threads s j)" for j
    proof -
      have "owns (sy_threads s j) \<noteq> Some c" using owner_facts [OF inv, of j c] c by auto
      moreover have "c \<noteq> wt s" if "advances (sy_threads s j)" using advancer_facts [OF inv that] c by auto
      ultimately show ?thesis by (auto simp: apart_def s')
    qed
  qed (use ix c noflag owner_facts [OF inv] advancer_facts [OF inv] in \<open>auto simp: s' nth_append\<close>)
qed

lemma write_step:
  assumes inv: "ring_inv s" and th: "sy_threads s i = Pushing (Push_Write v c)"
    and s': "s' = s\<lparr>sy_ring := set_data (index_of c) v (sy_ring s), sy_threads := (sy_threads s)(i := Pushing (Push_Flag c))\<rparr>"
  shows "ring_inv s'"
proof -
  note ix = inv_indices [OF inv] and me = owner_facts [OF inv, of i c]
  have v: "sy_claimed s ! unat c = v" using inv_thread [OF inv, of i] by (simp add: th)
  have win: "d = c" if "index_of d = index_of c" "RD s \<le> unat d" "unat d < CT s" for d
    using inv_window [OF inv that(1)] that me ix(4) th by simp
  show ?thesis
  proof (rule ring_inv_step [OF inv, of s' i "Pushing (Push_Flag c)"])
    show "indices_ok s'" using ix by (simp add: s' indices_ok_def)
    show "flags_ok s'" using inv by (simp add: s' ring_inv_def flags_ok_def)
    show "data_ok s'"
      by (rule data_ok_step [of s _ i]) (use inv th v in \<open>auto simp: s' ring_inv_def dest: win\<close>)
    show "pending_ok s'"
      by (rule pending_ok_step [of s _ i]) (use inv th in \<open>auto simp: s' ring_inv_def\<close>)
    show "apart s' (Pushing (Push_Flag c)) (sy_threads s j)" if "j \<noteq> i" for j
      using inv_apart [OF inv that [symmetric]] by (simp add: th s' apart_def)
  qed (use me th owner_facts [OF inv] advancer_facts [OF inv] in \<open>auto simp: s'\<close>)
qed

lemma flag_step:
  assumes inv: "ring_inv s" and th: "sy_threads s i = Pushing (Push_Flag c)"
    and s': "s' = s\<lparr>sy_ring := set_flag (index_of c) (commit_flag c) (sy_ring s),
      sy_threads := (sy_threads s)(i := Pushing (Push_Cac c))\<rparr>"
  shows "ring_inv s'"
proof -
  note ix = inv_indices [OF inv] and me = owner_facts [OF inv, of i c]
  have win: "d = c" if "index_of d = index_of c" "WT s \<le> unat d" "unat d < CT s" for d
    using inv_window [OF inv that(1)] that me ix(4) th by simp
  have other: "d \<noteq> c" if "j \<noteq> i" "owns (sy_threads s j) = Some d" for j d
    using inv_apart [OF inv that(1) [symmetric]] that(2) th by (auto simp: apart_def)
  have noadv: "wt s \<noteq> c" if "j \<noteq> i" "advances (sy_threads s j)" for j
    using inv_apart [OF inv that(1) [symmetric]] that(2) th by (auto simp: apart_def)
  show ?thesis
  proof (rule ring_inv_step [OF inv, of s' i "Pushing (Push_Cac c)"])
    show "indices_ok s'" using ix by (simp add: s' indices_ok_def)
    show "flags_ok s'" using inv me th by (auto simp: s' ring_inv_def flags_ok_def)
    show "data_ok s'"
      by (rule data_ok_step [of s _ i]) (use inv th in \<open>auto simp: s' ring_inv_def\<close>)
    show "pending_ok s'"
      by (rule pending_ok_step [of s _ i]) (use inv th in \<open>auto simp: s' ring_inv_def dest: win\<close>)
    show "WT s' \<le> unat d \<and> flg s' d \<noteq> commit_flag d" if "j \<noteq> i" "owns (sy_threads s j) = Some d" for j d
      using owner_facts [OF inv that(2)] other [OF that] by (auto simp: s')
    show "flg s' (wt s) \<noteq> commit_flag (wt s)" if "j \<noteq> i" "advances (sy_threads s j)" for j
      using advancer_facts [OF inv that(2)] noadv [OF that] by (auto simp: s')
  qed (auto simp: s' apart_def)
qed

text \<open>A set flag belongs to the ticket at the write index or a later one; who clears it may move the index.\<close>

lemma clear_step:
  assumes inv: "ring_inv s" and no: "owns (sy_threads s i) = None" "\<not> advances (sy_threads s i)"
    and c: "unat c \<le> WT s" and set: "flg s c = commit_flag c"
    and t: "t = Pushing (Push_Adv c) \<or> t = Popping (Pop_Adv c)"
    and s': "s' = s\<lparr>sy_ring := set_flag (index_of c) 0 (sy_ring s), sy_threads := (sy_threads s)(i := t)\<rparr>"
  shows "ring_inv s'"
proof -
  note ix = inv_indices [OF inv] and f = inv_flag [OF inv set]
  have wt: "wt s = c" using c f by (simp add: word_unat_eq_iff)
  have win: "d = wt s" if "index_of d = index_of (wt s)" "WT s \<le> unat d" "unat d < CT s" for d
    using inv_window [OF inv that(1)] that ix(4) f wt by simp
  have noadv: "\<not> advances (sy_threads s j)" for j using advancer_facts [OF inv] set wt by blast
  have noown: "owns (sy_threads s j) \<noteq> Some c" for j using owner_facts [OF inv] set by blast
  show ?thesis
  proof (rule ring_inv_step [OF inv, of s' i t])
    show "indices_ok s'" using ix by (simp add: s' indices_ok_def)
    show "flags_ok s'" using inv by (auto simp: s' ring_inv_def flags_ok_def)
    show "data_ok s'"
      by (rule data_ok_step [of s _ i]) (use inv no t in \<open>auto simp: s' ring_inv_def\<close>)
    show "pending_ok s'"
      by (rule pending_ok_step [of s _ i]) (use inv no t wt in \<open>auto simp: s' ring_inv_def dest: win\<close>)
    show "thread_ok s' t" using t f wt by (auto simp: s')
    show "apart s' t (sy_threads s j)" for j using t noadv noown wt by (auto simp: s' apart_def)
  qed (use owner_facts [OF inv] noadv in \<open>auto simp: s'\<close>)
qed

lemma advance_step:
  assumes inv: "ring_inv s" and th: "sy_threads s i = Pushing (Push_Adv c) \<or> sy_threads s i = Popping (Pop_Adv c)"
    and t: "owns t = None" "\<not> advances t" "\<And>s. thread_ok s t"
    and s': "s' = s\<lparr>sy_ring := (sy_ring s)\<lparr>ring_wt := c + 1\<rparr>, sy_threads := (sy_threads s)(i := t)\<rparr>"
  shows "ring_inv s'"
proof -
  note ix = inv_indices [OF inv]
  have adv: "advances (sy_threads s i)" and no: "owns (sy_threads s i) = None" using th by auto
  have c: "c = wt s" "unat c < CT s" using inv_thread [OF inv, of i] th by (auto simp: word_unat_eq_iff)
  have wt': "unat (c + 1) = Suc (unat c)"
    using c ix(3) by (simp add: unat_word_ariths)
  note f = advancer_facts [OF inv adv]
  have noadv: "\<not> advances (sy_threads s j)" and noown: "owns (sy_threads s j) \<noteq> Some c" if "j \<noteq> i" for j
    using inv_apart [OF inv that [symmetric]] adv c by (auto simp: apart_def)
  have le: "Suc (WT s) \<le> unat d" if "WT s \<le> unat d" "d \<noteq> c" for d
    using that c by (auto simp: Suc_le_eq le_less word_unat_eq_iff)
  show ?thesis
  proof (rule ring_inv_step [OF inv, of s' i t])
    show "indices_ok s'" using ix wt' c by (simp add: s' indices_ok_def)
    show "flags_ok s'" unfolding flags_ok_def
    proof
      fix k
      from inv consider "el_f_ct (ring_elems (sy_ring s) k) = 0"
        | d where "WT s \<le> unat d" "unat d < CT s" "k = index_of d" "el_f_ct (ring_elems (sy_ring s) k) = commit_flag d"
        unfolding ring_inv_def flags_ok_def by blast
      then show "el_f_ct (ring_elems (sy_ring s') k) = 0 \<or> (\<exists>c. WT s' \<le> unat c \<and> unat c < CT s' \<and>
          k = index_of c \<and> el_f_ct (ring_elems (sy_ring s') k) = commit_flag c)"
      proof cases
        case 2
        then have "d \<noteq> c" using f c by auto
        then show ?thesis using 2 le wt' c by (auto simp: s')
      qed (simp add: s')
    qed
    show "data_ok s'"
      by (rule data_ok_step [of s _ i]) (use inv no t in \<open>auto simp: s' ring_inv_def\<close>)
    show "pending_ok s'"
      by (rule pending_ok_step [of s _ i]) (use inv no t wt' c in \<open>auto simp: s' ring_inv_def\<close>)
    show "WT s' \<le> unat d \<and> flg s' d \<noteq> commit_flag d" if "j \<noteq> i" "owns (sy_threads s j) = Some d" for j d
      using owner_facts [OF inv that(2)] noown [OF that(1)] that(2) le [of d] wt' c by (auto simp: s')
  qed (use adv noadv t wt' c in \<open>auto simp: s' apart_def\<close>)
qed

lemma take_step:
  assumes inv: "ring_inv s" and th: "sy_threads s i = Popping (Pop_Claim c x)" and rd: "ring_rd (sy_ring s) = c"
    and s': "s' = s\<lparr>sy_ring := (sy_ring s)\<lparr>ring_rd := c + 1\<rparr>, sy_threads := (sy_threads s)(i := Popping (Popped (Some x))),
      sy_taken := sy_taken s @ [x]\<rparr>"
  shows "ring_inv s'"
proof -
  note ix = inv_indices [OF inv]
  have c: "unat c = RD s" "RD s < WT s" "x = sy_claimed s ! RD s"
    using inv_thread [OF inv, of i] ix(9) rd by (auto simp: th)
  show ?thesis
  proof (rule ring_inv_step [OF inv, of s' i "Popping (Popped (Some x))"])
    have "sy_taken s @ [x] = take (Suc (RD s)) (sy_claimed s)"
      using ix(5,7) c by (simp add: take_Suc_conv_app_nth)
    then show "indices_ok s'" using ix c rd by (simp add: s' indices_ok_def)
    show "flags_ok s'" using inv by (simp add: s' ring_inv_def flags_ok_def)
    show "data_ok s'"
      by (rule data_ok_step [of s _ i]) (use inv th in \<open>auto simp: s' ring_inv_def\<close>)
    show "pending_ok s'"
      by (rule pending_ok_step [of s _ i]) (use inv th in \<open>auto simp: s' ring_inv_def\<close>)
  qed (use owner_facts [OF inv] advancer_facts [OF inv] in \<open>auto simp: s' apart_def\<close>)
qed

text \<open>Below the write index the data is there.\<close>

lemma written_data:
  assumes inv: "ring_inv s" and "RD s \<le> unat c" and "unat c < WT s"
  shows "dat s c = sy_claimed s ! unat c"
proof -
  have "\<not> (\<exists>j v. sy_threads s j = Pushing (Push_Write v c))"
    using owner_facts [OF inv, of _ c] assms(3) by (metis owns.simps(1) not_le)
  moreover have "unat c < CT s" using inv_indices(5) [OF inv] assms(3) by simp
  ultimately show ?thesis using inv assms(2) unfolding ring_inv_def data_ok_def by blast
qed

section \<open>Every step\<close>

lemma push_keeps_inv:
  assumes inv: "ring_inv s" and th: "sy_threads s i = Pushing pc" and step: "push_step weak pc (sy_ring s) = (pc', r')"
    and s': "s' = s\<lparr>sy_ring := r', sy_threads := (sy_threads s)(i := Pushing pc'), sy_claimed := sy_claimed s @ claims pc pc'\<rparr>"
    and bound: "CT s' < 2 ^ 32"
  shows "ring_inv s'"
proof -
  note ix = inv_indices [OF inv] and me = inv_thread [OF inv, of i, unfolded th]
  have local: "ring_inv s'" if "r' = sy_ring s" "claims pc pc' = []" "owns (Pushing pc) = None" "\<not> advances (Pushing pc)"
    "owns (Pushing pc') = None" "\<not> advances (Pushing pc')" "thread_ok s (Pushing pc')"
    using local_step [OF inv, of i "Pushing pc'"] that by (simp add: s' th)
  show ?thesis
  proof (cases pc)
    case (Push_Check v c)
    have "CT s < RD s + 255" if "index_of (c + 1) \<noteq> index_of (ring_rd (sy_ring s))" "unat c = CT s"
    proof (rule ccontr)
      assume "\<not> CT s < RD s + 255"
      then have "unat c = RD s + 255" using that(2) ix(6) by simp
      then have "unat (index_of (c + 1)) = unat (index_of (ring_rd (sy_ring s)))"
        unfolding index_of_Suc using ix(9) by (simp add: unat_word_ariths unat_index_of mod_simps)
      then show False using that(1) by (simp add: word_unat_eq_iff)
    qed
    then show ?thesis using step me Push_Check by (intro local) (auto split: if_splits)
  next
    case (Push_Claim v c)
    show ?thesis
    proof (cases "weak \<and> ring_ct (sy_ring s) = c")
      case True
      with step Push_Claim have "pc' = Push_Write v c" "r' = (sy_ring s)\<lparr>ring_ct := c + 1\<rparr>" by auto
      with True bound show ?thesis by (intro claim_step [OF inv, of i v c]) (simp_all add: th Push_Claim s')
    next
      case False
      then show ?thesis using step Push_Claim by (intro local) (auto split: if_splits)
    qed
  next
    case (Push_Write v c)
    then show ?thesis using step by (intro write_step [OF inv, of i v c]) (auto simp: th s')
  next
    case (Push_Flag c)
    then show ?thesis using step by (intro flag_step [OF inv, of i c]) (auto simp: th s' commit_flag_def)
  next
    case (Push_Wt c f)
    then show ?thesis using step by (intro local) (auto simp: not_flag_iff split: if_splits)
  next
    case (Push_Cas c f)
    show ?thesis
    proof (cases "flg s c = f")
      case True
      then show ?thesis using step me Push_Cas
        by (intro clear_step [OF inv, of i c "Pushing (Push_Adv c)"]) (auto simp: th s')
    next
      case False
      then show ?thesis using step Push_Cas by (intro local) auto
    qed
  next
    case (Push_Adv c)
    then show ?thesis using step by (intro advance_step [OF inv, of i c "Pushing (Push_Cac (c + 1))"]) (auto simp: th s')
  qed (use step ix in \<open>intro local; auto\<close>)+
qed

lemma pop_keeps_inv:
  assumes inv: "ring_inv s" and th: "sy_threads s i = Popping pc" and step: "pop_step weak pc (sy_ring s) = (pc', r')"
    and s': "s' = s\<lparr>sy_ring := r', sy_threads := (sy_threads s)(i := Popping pc'), sy_taken := sy_taken s @ takes_one pc pc'\<rparr>"
  shows "ring_inv s'"
proof -
  note ix = inv_indices [OF inv] and me = inv_thread [OF inv, of i, unfolded th]
  have local: "ring_inv s'" if "r' = sy_ring s" "takes_one pc pc' = []" "owns (Popping pc) = None" "\<not> advances (Popping pc)"
    "owns (Popping pc') = None" "\<not> advances (Popping pc')" "thread_ok s (Popping pc')"
    using local_step [OF inv, of i "Popping pc'"] that by (simp add: s' th)
  show ?thesis
  proof (cases pc)
    case (Pop_Wt c)
    have "unat c < WT s" if "index_of c \<noteq> index_of (wt s)" "unat c = RD s"
      using that ix(4) by (auto simp: le_less word_unat_eq_iff [symmetric])
    then show ?thesis using step me Pop_Wt by (intro local) (auto simp: Let_def split: if_splits)
  next
    case (Pop_Cac c)
    then show ?thesis using step me by (intro local) (auto simp: Let_def not_flag_iff split: if_splits)
  next
    case (Pop_Cas c f)
    show ?thesis
    proof (cases "weak \<and> flg s c = f")
      case True
      then show ?thesis using step me Pop_Cas
        by (intro clear_step [OF inv, of i c "Popping (Pop_Adv c)"]) (auto simp: th s')
    next
      case False
      then show ?thesis using step Pop_Cas by (intro local) auto
    qed
  next
    case (Pop_Adv c)
    then show ?thesis using step by (intro advance_step [OF inv, of i c "Popping Pop_Load"]) (auto simp: th s')
  next
    case (Pop_Copy c)
    have "dat s c = sy_claimed s ! unat c" if "unat c = RD s" "unat c < WT s"
      using written_data [OF inv] that by simp
    then show ?thesis using step me Pop_Copy by (intro local) auto
  next
    case (Pop_Claim c x)
    show ?thesis
    proof (cases "weak \<and> ring_rd (sy_ring s) = c")
      case True
      with step Pop_Claim have "pc' = Popped (Some x)" "r' = (sy_ring s)\<lparr>ring_rd := c + 1\<rparr>" by auto
      with True show ?thesis by (intro take_step [OF inv, of i c x]) (simp_all add: th Pop_Claim s')
    next
      case False
      then show ?thesis using step Pop_Claim by (intro local) (auto split: if_splits)
    qed
  qed (use step ix in \<open>intro local; auto\<close>)+
qed

lemma finished_no_ticket: "finished t \<Longrightarrow> owns t = None \<and> \<not> advances t"
  by (cases t rule: owns.cases; cases t rule: advances.cases) auto

lemma sys_step_keeps_inv: "sys_step s i s' \<Longrightarrow> ring_inv s \<Longrightarrow> CT s' < 2 ^ 32 \<Longrightarrow> ring_inv s'"
proof (induction rule: sys_step.induct)
  case (start_push s i v)
  then show ?case by (intro local_step) (simp_all add: finished_no_ticket)
next
  case (start_pop s i)
  then show ?case by (intro local_step) (simp_all add: finished_no_ticket)
next
  case (push s i pc weak pc' r')
  then show ?case using push_keeps_inv [OF push.prems(1) push.hyps refl] by simp
next
  case (pop s i pc weak pc' r')
  then show ?case using pop_keeps_inv [OF pop.prems(1) pop.hyps refl] by simp
qed

lemma claimed_grows: "sys_step s i s' \<Longrightarrow> CT s \<le> CT s'"
  by (induction rule: sys_step.induct) auto

lemma reachable_inv: "ring_reachable zero s \<Longrightarrow> CT s < 2 ^ 32 \<Longrightarrow> ring_inv s"
proof (induction rule: ring_reachable.induct)
  case (reach_step s i s')
  then have "CT s < 2 ^ 32" using claimed_grows [OF reach_step.hyps(2)] by simp
  then show ?case using reach_step sys_step_keeps_inv by blast
qed (rule ring_inv_fresh)

end
