(* ===== verification/Ph_Ring_Queue.thy ===== *)
theory Ph_Ring_Queue
  imports Ph_Ring_Laws
begin

text \<open>
  The ring is a queue of at most 255 values, whatever the interleaving of the threads: a simulation
  from the invariant, and that calls return.
\<close>

section \<open>The queue\<close>

text \<open>What the ring holds, and what a step does to it: a bounded queue, changed where a ticket is claimed.\<close>

definition queue_of :: "'a sys \<Rightarrow> 'a list" where
  "queue_of s = drop (RD s) (sy_claimed s)"

datatype 'a event = Internal | Enqueued 'a | Dequeued 'a

fun event_of :: "'a thread \<Rightarrow> 'a thread \<Rightarrow> 'a event" where
  "event_of (Pushing (Push_Claim v c)) (Pushing (Push_Write w d)) = Enqueued w"
| "event_of (Popping (Pop_Claim c x)) (Popping (Popped (Some y))) = Dequeued y"
| "event_of _ _ = Internal"

fun queue_step :: "'a list \<Rightarrow> 'a event \<Rightarrow> 'a list \<Rightarrow> bool" where
  "queue_step q Internal q' = (q' = q)"
| "queue_step q (Enqueued v) q' = (length q < 255 \<and> q' = q @ [v])"
| "queue_step q (Dequeued x) q' = (q = x # q')"

lemma push_queue_step:
  assumes inv: "ring_inv s" and th: "sy_threads s i = Pushing pc" and step: "push_step weak pc (sy_ring s) = (pc', r')"
  shows "queue_step (drop (RD s) (sy_claimed s)) (event_of (Pushing pc) (Pushing pc')) (drop (RD s) (sy_claimed s @ claims pc pc'))"
proof (cases "claims pc pc' = []")
  case True
  then have "event_of (Pushing pc) (Pushing pc') = Internal"
    by (cases "(Pushing pc, Pushing pc')" rule: event_of.cases) auto
  with True show ?thesis by simp
next
  case False
  then obtain v c w d where pc: "pc = Push_Claim v c" "pc' = Push_Write w d"
    by (cases "(pc, pc')" rule: claims.cases) auto
  with step have eq: "w = v" "ring_ct (sy_ring s) = c" by (auto split: if_splits)
  have "CT s < RD s + 255" using inv_thread [OF inv, of i] inv_indices(8) [OF inv] eq th by (simp add: pc)
  then show ?thesis using inv_indices(4,5) [OF inv] by (simp add: pc eq)
qed

lemma pop_queue_step:
  assumes inv: "ring_inv s" and th: "sy_threads s i = Popping pc" and step: "pop_step weak pc (sy_ring s) = (pc', r')"
  shows "queue_step (drop (RD s) (sy_claimed s)) (event_of (Popping pc) (Popping pc'))
    (drop (RD s + length (takes_one pc pc')) (sy_claimed s))"
proof (cases "takes_one pc pc' = []")
  case True
  then have "event_of (Popping pc) (Popping pc') = Internal"
    by (cases "(Popping pc, Popping pc')" rule: event_of.cases) auto
  with True show ?thesis by simp
next
  case False
  then obtain c x y where pc: "pc = Pop_Claim c x" "pc' = Popped (Some y)"
    by (cases "(pc, pc')" rule: takes_one.cases) auto
  with step have eq: "y = x" "ring_rd (sy_ring s) = c" by (auto split: if_splits)
  have "RD s < WT s" "x = sy_claimed s ! RD s"
    using inv_thread [OF inv, of i] inv_indices(9) [OF inv] eq th by (auto simp: pc)
  then show ?thesis using inv_indices(5) [OF inv] by (simp add: pc eq Cons_nth_drop_Suc)
qed

text \<open>
  Property C1: the ring refines a queue of at most 255 values. Whatever the threads do, and however
  their accesses to the shared memory interleave, each step of a thread is a step of the queue: a
  push adds its value at the end, where there is room, at the one step that claims a ticket; a pop
  that returns a value takes it from the front; all other steps change nothing. The bound on the
  number of pushes is that of the 32-bit tickets.
\<close>

theorem ring_refines_queue:
  assumes "ring_reachable zero s" and "sys_step s i s'" and "length (sy_claimed s') < 2 ^ 32"
  shows "queue_step (queue_of s) (event_of (sy_threads s i) (sy_threads s' i)) (queue_of s')"
proof -
  have "CT s < 2 ^ 32" using claimed_grows [OF assms(2)] assms(3) by simp
  then have inv: "ring_inv s" by (rule reachable_inv [OF assms(1)])
  from assms(2) show ?thesis
  proof cases
    case (start_push v)
    then show ?thesis by (cases "(sy_threads s i, Pushing (Push_Load v))" rule: event_of.cases) (auto simp: queue_of_def)
  next
    case start_pop
    then show ?thesis by (cases "(sy_threads s i, Popping Pop_Load :: 'a thread)" rule: event_of.cases) (auto simp: queue_of_def)
  next
    case (push pc weak pc' r')
    then show ?thesis using push_queue_step [OF inv push(2,3)] by (simp add: queue_of_def)
  next
    case (pop pc weak pc' r')
    then show ?thesis using pop_queue_step [OF inv pop(2,3)] by (simp add: queue_of_def)
  qed
qed

text \<open>
  No value is lost, made twice or overtaken, and none is overwritten before it is taken.
  The values taken so far are the first ones of those that were pushed, at most 255 are underway, and
  the elements between the read and the write index hold the next ones.
\<close>

lemma reachable_contents:
  assumes "ring_reachable zero s" and "length (sy_claimed s) < 2 ^ 32"
  shows "sy_taken s @ queue_of s = sy_claimed s \<and> length (queue_of s) \<le> 255 \<and>
    map (\<lambda>n. el_data (ring_elems (sy_ring s) (index_of (word_of_nat n))))
      [unat (ring_rd (sy_ring s))..<unat (ring_wt (sy_ring s))] = take (WT s - RD s) (queue_of s)"
proof -
  have inv: "ring_inv s" by (rule reachable_inv [OF assms])
  note ix = inv_indices [OF inv]
  have "dat s (word_of_nat n) = sy_claimed s ! n" if "RD s \<le> n" "n < WT s" for n
  proof -
    have n: "unat (word_of_nat n :: uint32) = n" using that ix(3,5) by (simp add: unsigned_of_nat take_bit_nat_eq_self)
    then show ?thesis using written_data [OF inv, of "word_of_nat n"] that by simp
  qed
  then have "map (\<lambda>n. dat s (word_of_nat n)) [RD s..<WT s] = map (\<lambda>n. sy_claimed s ! n) [RD s..<WT s]" by simp
  also have "\<dots> = take (WT s - RD s) (queue_of s)"
    by (rule nth_equalityI) (use ix(4,5) in \<open>auto simp: queue_of_def\<close>)
  finally have "map (\<lambda>n. dat s (word_of_nat n)) [RD s..<WT s] = take (WT s - RD s) (queue_of s)" .
  moreover have "sy_taken s @ queue_of s = sy_claimed s"
    unfolding queue_of_def by (subst ix(7)) (simp add: append_take_drop_id)
  moreover have "length (queue_of s) \<le> 255" using ix(6) by (simp add: queue_of_def)
  ultimately show ?thesis by (simp add: ix(9))
qed

section \<open>Calls that run alone\<close>

definition run_push :: "nat \<Rightarrow> 'a push_pc \<Rightarrow> 'a ring \<Rightarrow> 'a push_pc \<times> 'a ring" where
  "run_push n pc r = ((\<lambda>(pc, r). push_step True pc r) ^^ n) (pc, r)"

definition run_pop :: "nat \<Rightarrow> 'a pop_pc \<Rightarrow> 'a ring \<Rightarrow> 'a pop_pc \<times> 'a ring" where
  "run_pop n pc r = ((\<lambda>(pc, r). pop_step True pc r) ^^ n) (pc, r)"

lemma run_push_Suc: "run_push (Suc n) pc r = (case push_step True pc r of (pc', r') \<Rightarrow> run_push n pc' r')"
  by (simp add: run_push_def funpow_Suc_right split: prod.split del: funpow.simps)

lemma run_pop_Suc: "run_pop (Suc n) pc r = (case pop_step True pc r of (pc', r') \<Rightarrow> run_pop n pc' r')"
  by (simp add: run_pop_def funpow_Suc_right split: prod.split del: funpow.simps)

lemma run_0 [simp]: "run_push 0 pc r = (pc, r)" "run_pop 0 pc' r = (pc', r)"
  by (simp_all add: run_push_def run_pop_def)

lemma run_done [simp]: "run_push n (Pushed b) r = (Pushed b, r)" "run_pop n (Popped x) r = (Popped x, r)"
  by (induction n) (simp_all add: run_push_Suc run_pop_Suc)

text \<open>With all threads at rest, every ticket from the write index on has its flag.\<close>

lemma rest_flags:
  assumes inv: "ring_inv s" and rest: "\<And>i. finished (sy_threads s i)"
  shows "flg s c = commit_flag c \<longleftrightarrow> WT s \<le> unat c \<and> unat c < CT s"
proof
  assume "WT s \<le> unat c \<and> unat c < CT s"
  moreover have "owns (sy_threads s j) \<noteq> Some c" "\<not> advances (sy_threads s j)" for j
    using finished_no_ticket [OF rest] by simp_all
  ultimately show "flg s c = commit_flag c" using inv unfolding ring_inv_def pending_ok_def by blast
qed (use inv_flag [OF inv] in blast)

lemma rest_data:
  assumes inv: "ring_inv s" and rest: "\<And>i. finished (sy_threads s i)" and "RD s \<le> unat c" and "unat c < CT s"
  shows "dat s c = sy_claimed s ! unat c"
proof -
  have "sy_threads s j \<noteq> Pushing (Push_Write v c)" for j v using rest [of j] by auto
  then show ?thesis using inv assms(3,4) unfolding ring_inv_def data_ok_def by blast
qed

lemma pop_alone:
  assumes inv: "ring_inv s" and rest: "\<And>i. finished (sy_threads s i)"
  shows "fst (run_pop 9 Pop_Load (sy_ring s)) = Popped (case queue_of s of [] \<Rightarrow> None | x # _ \<Rightarrow> Some x)"
proof -
  note ix = inv_indices [OF inv] and fl = rest_flags [OF assms]
  let ?rd = "ring_rd (sy_ring s)"
  have hd: "queue_of s = sy_claimed s ! RD s # drop (Suc (RD s)) (sy_claimed s)" if "RD s < CT s"
    using that by (simp add: queue_of_def Cons_nth_drop_Suc)
  have nine: "(9 :: nat) = Suc (Suc (Suc (Suc (Suc (Suc (Suc (Suc (Suc 0))))))))" by simp
  have ne: "index_of c \<noteq> index_of d" if "RD s \<le> unat c" "unat c < unat d" "unat d \<le> RD s + 255" for c d
    using index_of_window [of c d "RD s"] that by auto
  consider (empty) "WT s = RD s" "CT s = RD s" | (ready) "RD s < WT s" | (flagged) "WT s = RD s" "RD s < CT s"
    using ix(4,5) by linarith
  then show ?thesis
  proof cases
    case empty
    then have "wt s = ?rd" by (simp add: word_unat_eq_iff ix(9))
    moreover have "flg s (wt s) \<noteq> commit_flag (wt s)" using fl empty by simp
    ultimately show ?thesis using empty by (simp add: nine run_pop_Suc not_flag_iff queue_of_def)
  next
    case ready
    have "index_of ?rd \<noteq> index_of (wt s)" by (rule ne) (use ready ix in auto)
    moreover have "dat s ?rd = sy_claimed s ! RD s" using written_data [OF inv, of ?rd] ready ix(9) by simp
    ultimately show ?thesis using hd ready ix(5) by (simp add: nine run_pop_Suc)
  next
    case flagged
    then have wt: "wt s = ?rd" by (simp add: word_unat_eq_iff ix(9))
    have f: "flg s ?rd = commit_flag ?rd" using fl flagged ix(9) by simp
    have "unat (?rd + 1) = Suc (RD s)" using flagged ix(3,9) by (simp add: unat_word_ariths)
    then have n: "index_of ?rd \<noteq> index_of (?rd + 1)" by (intro ne) (use ix(9) in auto)
    have "dat s ?rd = sy_claimed s ! RD s" using rest_data [OF assms, of ?rd] flagged ix(9) by simp
    then show ?thesis using hd flagged f wt n
      by (simp add: nine run_pop_Suc not_flag_iff)
  qed
qed

lemma run_push_add: "run_push (m + n) pc r = (case run_push m pc r of (pc', r') \<Rightarrow> run_push n pc' r')"
  by (induction m arbitrary: pc r) (auto simp: run_push_Suc split: prod.split)

text \<open>From the claim to the flag; and the end of \<^verbatim>\<open>push\<close> with the write index at the ticket, or not.\<close>

lemma push_commits:
  assumes "index_of (ring_ct r + 1) \<noteq> index_of (ring_rd r)"
  shows "run_push 5 (Push_Load v) r = (Push_Cac (ring_ct r), set_flag (index_of (ring_ct r)) (commit_flag (ring_ct r))
    (set_data (index_of (ring_ct r)) v (r\<lparr>ring_ct := ring_ct r + 1\<rparr>)))"
  using assms by (simp add: eval_nat_numeral run_push_Suc commit_flag_def)

lemma push_leaves: "c \<noteq> ring_wt r \<or> el_f_ct (ring_elems r (index_of c)) \<noteq> commit_flag c \<Longrightarrow>
  run_push 2 (Push_Cac c) r = (Pushed True, r)"
  by (auto simp: eval_nat_numeral run_push_Suc not_flag_iff)

lemma push_advances: "c = ring_wt r \<Longrightarrow> el_f_ct (ring_elems r (index_of c)) = commit_flag c \<Longrightarrow>
  run_push 4 (Push_Cac c) r = (Push_Cac (c + 1), (set_flag (index_of c) 0 r)\<lparr>ring_wt := c + 1\<rparr>)"
  by (simp add: eval_nat_numeral run_push_Suc not_flag_iff)

lemma push_alone:
  assumes inv: "ring_inv s" and rest: "\<And>i. finished (sy_threads s i)"
  shows "fst (run_push 11 (Push_Load v) (sy_ring s)) = Pushed (length (queue_of s) < 255)"
proof -
  note ix = inv_indices [OF inv] and fl = rest_flags [OF assms]
  let ?ct = "ring_ct (sy_ring s)" and ?rd = "ring_rd (sy_ring s)"
  have "unat (index_of (?ct + 1)) = (CT s + 1) mod 256" "unat (index_of ?rd) = RD s mod 256"
    unfolding index_of_Suc using ix(8,9) by (simp_all add: unat_word_ariths unat_index_of mod_simps)
  moreover have "(CT s + 1) mod 256 = RD s mod 256 \<longleftrightarrow> CT s = RD s + 255"
    using mod_window [of "CT s + 1" 256 "RD s + 256" "RD s + 1"] ix(4-6) by auto
  ultimately have full: "index_of (?ct + 1) = index_of ?rd \<longleftrightarrow> \<not> length (queue_of s) < 255"
    using ix(4-6) by (auto simp: word_unat_eq_iff queue_of_def)
  show ?thesis
  proof (cases "length (queue_of s) < 255")
    case False
    then have "run_push 2 (Push_Load v) (sy_ring s) = (Pushed False, sy_ring s)"
      using full by (simp add: eval_nat_numeral run_push_Suc)
    then show ?thesis using False run_push_add [of 2 9 "Push_Load v"] by simp
  next
    case True
    let ?r1 = "set_flag (index_of ?ct) (commit_flag ?ct) (set_data (index_of ?ct) v ((sy_ring s)\<lparr>ring_ct := ?ct + 1\<rparr>))"
    let ?r2 = "(set_flag (index_of ?ct) 0 ?r1)\<lparr>ring_wt := ?ct + 1\<rparr>"
    have 5: "run_push 5 (Push_Load v) (sy_ring s) = (Push_Cac ?ct, ?r1)" using True full by (intro push_commits) simp
    have "fst (run_push 6 (Push_Cac ?ct) ?r1) = Pushed True"
    proof (cases "wt s = ?ct")
      case True
      have "index_of (?ct + 1) \<noteq> index_of ?ct" by (simp add: index_of_Suc)
      moreover have "flg s (?ct + 1) \<noteq> commit_flag (?ct + 1)"
        using True ix(3,8) by (simp add: fl unat_word_ariths mod_Suc)
      ultimately have "run_push 2 (Push_Cac (?ct + 1)) ?r2 = (Pushed True, ?r2)" by (intro push_leaves) simp
      moreover have "run_push 4 (Push_Cac ?ct) ?r1 = (Push_Cac (?ct + 1), ?r2)"
        using True by (intro push_advances) simp_all
      ultimately show ?thesis using run_push_add [of 4 2 "Push_Cac ?ct" ?r1] by simp
    next
      case False
      then have "run_push 2 (Push_Cac ?ct) ?r1 = (Pushed True, ?r1)" by (intro push_leaves) auto
      then show ?thesis using run_push_add [of 2 4 "Push_Cac ?ct" ?r1] by simp
    qed
    then show ?thesis using 5 True run_push_add [of 5 6 "Push_Load v" "sy_ring s"] by simp
  qed
qed

text \<open>
  Property C22: a push or a pop that is not disturbed returns, after at most eleven accesses to the
  shared memory, with the right answer, in every state in which all earlier calls have returned. The
  push fails exactly on a full ring; the pop returns the value at the front, and nothing exactly when
  there is none. No earlier interleaving can leave the ring stuck.
\<close>

theorem ring_calls_return:
  assumes "ring_reachable zero s" and "length (sy_claimed s) < 2 ^ 32" and "\<And>i. finished (sy_threads s i)"
  shows "fst (run_push 11 (Push_Load v) (sy_ring s)) = Pushed (length (queue_of s) < 255) \<and>
    fst (run_pop 9 Pop_Load (sy_ring s)) = Popped (case queue_of s of [] \<Rightarrow> None | x # _ \<Rightarrow> Some x)"
  by (intro conjI push_alone pop_alone reachable_inv [of zero] assms)

section \<open>An execution\<close>

text \<open>One thread pushes a value into the empty ring, and takes it out.\<close>

definition ex_sys :: "'a thread \<Rightarrow> 'a ring \<Rightarrow> 'a list \<Rightarrow> 'a list \<Rightarrow> 'a sys" where
  "ex_sys t r claimed taken = \<lparr>sy_ring = r, sy_threads = (\<lambda>_. Idle)(0 := t), sy_claimed = claimed, sy_taken = taken\<rparr>"

definition ex_ring :: "'a \<Rightarrow> 'a \<Rightarrow> 'a ring" where
  "ex_ring zero v = set_flag 0 0 (set_flag 0 (commit_flag 0) (set_data 0 v ((fresh_ring zero)\<lparr>ring_ct := 1\<rparr>)))\<lparr>ring_wt := 1\<rparr>"

lemma ex_start: "ring_reachable zero (ex_sys (Pushing (Push_Load v)) (fresh_ring zero) [] [])"
proof -
  have "sys_step (fresh_sys zero) 0 (ex_sys (Pushing (Push_Load v)) (fresh_ring zero) [] [])"
    using start_push [of "fresh_sys zero" 0 v] by (simp add: fresh_sys_def ex_sys_def)
  then show ?thesis by (rule reach_step [OF reach_init])
qed

lemma ex_push_step:
  assumes "push_step True pc r = (pc', r')"
  shows "sys_step (ex_sys (Pushing pc) r q t) 0 (ex_sys (Pushing pc') r' (q @ claims pc pc') t)"
  using push [of "ex_sys (Pushing pc) r q t" 0 pc True pc' r'] assms by (simp add: ex_sys_def)

lemma ex_push_reach:
  assumes "ring_reachable zero (ex_sys (Pushing pc) r q t)"
  shows "ring_reachable zero (ex_sys (Pushing (fst (push_step True pc r))) (snd (push_step True pc r))
    (q @ claims pc (fst (push_step True pc r))) t)"
  by (rule reach_step [OF assms ex_push_step]) simp

lemma ex_pop_reach:
  assumes "ring_reachable zero (ex_sys (Popping pc) r q t)"
  shows "ring_reachable zero (ex_sys (Popping (fst (pop_step True pc r))) (snd (pop_step True pc r)) q
    (t @ takes_one pc (fst (pop_step True pc r))))"
proof (rule reach_step [OF assms])
  show "sys_step (ex_sys (Popping pc) r q t) 0 (ex_sys (Popping (fst (pop_step True pc r))) (snd (pop_step True pc r)) q
    (t @ takes_one pc (fst (pop_step True pc r))))"
    using pop [of "ex_sys (Popping pc) r q t" 0 pc True "fst (pop_step True pc r)" "snd (pop_step True pc r)"]
    by (simp add: ex_sys_def)
qed

lemma ex_claim_reach: "ring_reachable zero (ex_sys (Pushing (Push_Claim v 0)) (fresh_ring zero) [] [])"
  using ex_push_reach [OF ex_push_reach [OF ex_start]] by (simp add: fresh_ring_def index_of_def)

lemma ex_pushed_reach: "ring_reachable zero (ex_sys (Pushing (Pushed True)) (ex_ring zero v) [v] [])"
proof -
  let ?r = "set_flag 0 (commit_flag 0) (set_data 0 v ((fresh_ring zero)\<lparr>ring_ct := 1\<rparr>))"
  have 0: "index_of 0 = 0" "index_of 1 = 1" by (simp_all add: index_of_def)
  have 1: "ring_reachable zero (ex_sys (Pushing (Push_Cac 0)) ?r [v] [])"
    using ex_claim_reach [of zero v, THEN ex_push_reach, THEN ex_push_reach, THEN ex_push_reach]
    by (simp add: 0 fresh_ring_def commit_flag_def)
  have "NOT (commit_flag 0) = 0" using not_flag_iff [of "commit_flag 0" 0] by simp
  then have 2: "ring_reachable zero (ex_sys (Pushing (Push_Cas 0 (commit_flag 0))) ?r [v] [])"
    using 1 [THEN ex_push_reach, THEN ex_push_reach] by (simp add: 0 fresh_ring_def not_flag_iff)
  have 3: "ring_reachable zero (ex_sys (Pushing (Push_Cac 1)) (ex_ring zero v) [v] [])"
    using 2 [THEN ex_push_reach, THEN ex_push_reach] by (simp add: 0 ex_ring_def)
  have "(NOT 0 :: uint64) \<noteq> 1" using not_flag_iff [of 0 1] by simp
  then show ?thesis
    using 3 [THEN ex_push_reach, THEN ex_push_reach] by (simp add: 0 ex_ring_def fresh_ring_def)
qed

lemma ex_popped_reach:
  "ring_reachable zero (ex_sys (Popping (Popped (Some v))) ((ex_ring zero v)\<lparr>ring_rd := 1\<rparr>) [v] [v])"
proof -
  have "sys_step (ex_sys (Pushing (Pushed True)) (ex_ring zero v) [v] []) 0 (ex_sys (Popping Pop_Load) (ex_ring zero v) [v] [])"
    using start_pop [of "ex_sys (Pushing (Pushed True)) (ex_ring zero v) [v] []" 0] by (simp add: ex_sys_def)
  then have "ring_reachable zero (ex_sys (Popping Pop_Load) (ex_ring zero v) [v] [])"
    by (rule reach_step [OF ex_pushed_reach])
  from this [THEN ex_pop_reach, THEN ex_pop_reach, THEN ex_pop_reach, THEN ex_pop_reach] show ?thesis
    by (simp add: ex_ring_def fresh_ring_def index_of_def)
qed

theorem ring_refines_queue_witness:
  "queue_step (queue_of (ex_sys (Pushing (Push_Claim 7 0)) (fresh_ring 0) [] [])) (Enqueued (7 :: nat))
     (queue_of (ex_sys (Pushing (Push_Write 7 0)) ((fresh_ring 0)\<lparr>ring_ct := 1\<rparr>) [7] []))"
proof -
  have "sys_step (ex_sys (Pushing (Push_Claim 7 0)) (fresh_ring 0) [] []) 0
      (ex_sys (Pushing (Push_Write 7 0)) ((fresh_ring (0 :: nat))\<lparr>ring_ct := 1\<rparr>) [7] [])"
    using ex_push_step [of "Push_Claim 7 0" "fresh_ring (0 :: nat)" "Push_Write 7 0" "(fresh_ring 0)\<lparr>ring_ct := 1\<rparr>" "[]" "[]"]
    by (simp add: fresh_ring_def)
  from ring_refines_queue [OF ex_claim_reach this] show ?thesis by (simp add: ex_sys_def)
qed

theorem ring_calls_return_witness:
  "fst (run_push 11 (Push_Load 8) (ex_ring 0 (7 :: nat))) = Pushed True \<and>
   fst (run_pop 9 Pop_Load (ex_ring 0 7)) = Popped (Some (7 :: nat))"
proof -
  let ?s = "ex_sys (Pushing (Pushed True)) (ex_ring 0 7) [7 :: nat] []"
  have "length (sy_claimed ?s) < 2 ^ 32" "finished (sy_threads ?s i)" "sy_ring ?s = ex_ring 0 7" "queue_of ?s = [7]" for i
    by (simp_all add: ex_sys_def queue_of_def)
  then show ?thesis using ring_calls_return [OF ex_pushed_reach [of "0 :: nat" 7], of 8] by simp
qed

end
