(* ===== verification/Ph_Channel_Ring.thy ===== *)
theory Ph_Channel_Ring
  imports Ph_Channel_Blocks Ph_Ring_Queue
begin

text \<open>
  A channel on its ring. What the receiver relies on is that the elements come out of the queue in the
  order in which they went in; the ring provides that for every interleaving of its threads.
\<close>

locale message_queue =
  fixes pushed popped :: "'s \<Rightarrow> msg_t list" and valid :: "'s \<Rightarrow> bool"
  assumes fifo: "valid s \<Longrightarrow> prefix (popped s) (pushed s)"
begin

lemma delivers:
  assumes "valid s" and "interleaved p (pushed s)" and "plan_ok st p"
    and "\<And>k. card (underway p (take k (pushed s))) \<le> 1024"
    and "\<And>m. m \<in> set (pushed s) \<Longrightarrow> ms_conn m \<noteq> ep_cc_id ep" and "ep_connected ep \<noteq> 0" and "ep_recv_cache ep = []"
  shows "\<exists>bs ep'. recv_calls (Suc (length (popped s))) st (popped s) ep = (bs, [], ep') \<and>
    map (buff_bytes st) bs = map (\<lambda>m. map Some (pl_data p (ms_id m))) (filter whole (popped s))"
proof -
  obtain rest where rest: "pushed s = popped s @ rest" using fifo [OF assms(1)] by (auto simp: prefix_def)
  have "interleaved p (popped s)" by (rule interleaved_append [of p _ rest]) (use assms(2) rest in simp)
  moreover have "card (underway p (take k (popped s))) \<le> 1024" for k
    using assms(4) [of "min k (length (popped s))"] by (simp add: rest min_def split: if_splits)
  ultimately show ?thesis using assms(3,5-) rest by (intro recv_calls_interleaved) auto
qed

end

interpretation ring_queue: message_queue sy_claimed sy_taken
  "\<lambda>s. ring_reachable zero s \<and> length (sy_claimed s) < 2 ^ 32" for zero
proof
  fix s
  assume a: "ring_reachable zero s \<and> length (sy_claimed s) < 2 ^ 32"
  have "sy_taken s @ queue_of s = sy_claimed s"
    by (rule reachable_contents [THEN conjunct1, OF a [THEN conjunct1] a [THEN conjunct2]])
  then show "prefix (sy_taken s) (sy_claimed s)" by (metis prefixI)
qed

text \<open>
  Property C2: messages come out of a channel whole and unchanged, each one exactly once, in the order
  of their last elements. The threads of all senders and receivers may be interrupted at any access
  to the shared memory, and the elements of different senders may be mixed in any way; of a message of
  which a part is still missing nothing is seen. This holds for messages of up to two gigabytes, with
  at most 1024 of them underway at a time, cut into elements or in blocks of shared memory.
\<close>

theorem channel_delivers:
  assumes "ring_reachable zero s" and "length (sy_claimed s) < 2 ^ 32"
    and "interleaved p (sy_claimed s)" and "plan_ok st p"
    and "\<And>k. card (underway p (take k (sy_claimed s))) \<le> 1024"
    and "\<And>m. m \<in> set (sy_claimed s) \<Longrightarrow> ms_conn m \<noteq> ep_cc_id ep"
    and "ep_connected ep \<noteq> 0" and "ep_recv_cache ep = []"
  shows "\<exists>bs ep'. recv_calls (Suc (length (sy_taken s))) st (sy_taken s) ep = (bs, [], ep') \<and>
    map (buff_bytes st) bs = map (\<lambda>m. map Some (pl_data p (ms_id m))) (filter whole (sy_taken s))"
  by (rule ring_queue.delivers [of zero s p st ep]) (simp_all only: assms not_False_eq_True simp_thms)

text \<open>A message of one element has gone through the ring.\<close>

definition ex_plan :: plan where
  "ex_plan = \<lparr>pl_conn = (\<lambda>_. 1), pl_data = (\<lambda>_. ''hello''), pl_block = (\<lambda>_. None)\<rparr>"

theorem channel_delivers_witness:
  "\<exists>bs ep'. recv_calls 2 fresh_storages [frame 1 0 ''hello'' 0] (ex_endpoint 2) = (bs, [], ep') \<and>
     map (buff_bytes fresh_storages) bs = [map Some ''hello'']"
proof -
  let ?f = "frame 1 0 ''hello'' 0"
  let ?s = "ex_sys (Popping (Popped (Some ?f))) ((ex_ring ?f ?f)\<lparr>ring_rd := 1\<rparr>) [?f] [?f]"
  have s: "sy_claimed ?s = [?f]" "sy_taken ?s = [?f]" by (simp_all add: ex_sys_def)
  have el: "elements ex_plan i = [frame 1 i ''hello'' 0]" for i
    by (simp add: elements_def ex_plan_def fragments_def frame_count_def)
  have il: "interleaved ex_plan (sy_claimed ?s)" unfolding interleaved_def el s by simp
  have plan: "plan_ok fresh_storages ex_plan" by (simp add: plan_ok_def ex_plan_def)
  have "underway ex_plan fs = {}" for fs unfolding underway_def el by simp
  then have card: "card (underway ex_plan (take k (sy_claimed ?s))) \<le> 1024" for k by simp
  have "whole ?f" using frame_last [of "''hello''" 0 1 0] by (simp add: whole_def)
  then have "map (\<lambda>m. map Some (pl_data ex_plan (ms_id m))) (filter whole [?f]) = [map Some ''hello'']"
    by (simp add: ex_plan_def)
  moreover have "Suc (length [?f]) = 2" "length [?f] < 2 ^ 32" "ep_connected (ex_endpoint 2) \<noteq> 0" "ep_recv_cache (ex_endpoint 2) = []"
    "\<And>m. m \<in> set [?f] \<Longrightarrow> ms_conn m \<noteq> ep_cc_id (ex_endpoint 2)"
    by (simp_all add: ex_endpoint_def)
  ultimately show ?thesis
    using channel_delivers [OF ex_popped_reach _ il plan card, of "ex_endpoint 2"] unfolding s by metis
qed

end
