(* ===== verification/Ph_Client.thy ===== *)
theory Ph_Client
  imports Ph_Coord_Ops Ph_Manager
begin

text \<open>
  The Python client, \<^verbatim>\<open>client/pheromone/client.py\<close> with \<^verbatim>\<open>utils.py\<close>: how it finds the coordinator of
  an application, and the messages by which it manages buckets and triggers, registers applications
  and calls functions. An operation that waits for an answer is split there: one definition gives the
  message, another handles what the socket delivers. The answer of the manager is a function of the query.
  Python exceptions are faults. Strings are ASCII.
\<close>

section \<open>Python values\<close>

datatype py_val =
    PyNone | PyInt int | PyStr string | PyList "py_val list" | PyTuple "py_val list" | PyDict "(string \<times> py_val) list"

definition int_str :: "int \<Rightarrow> string" where
  "int_str i = (if i < 0 then CHR ''-'' # to_string (nat (- i)) else to_string (nat i))"

text \<open>The text of a value other than a number or a string is a parameter.\<close>

definition py_str :: "(py_val \<Rightarrow> string) \<Rightarrow> py_val \<Rightarrow> string" where
  "py_str repr v = (case v of PyInt i \<Rightarrow> int_str i | PyStr s \<Rightarrow> s | _ \<Rightarrow> repr v)"

text \<open>What a field of a message accepts.\<close>

definition as_string :: "py_val \<Rightarrow> string res" where
  "as_string v = (case v of PyStr s \<Rightarrow> Ok s | _ \<Rightarrow> Fault Type_Error)"

definition as_uint32 :: "py_val \<Rightarrow> uint32 res" where
  "as_uint32 v =
     (case v of PyInt i \<Rightarrow> if 0 \<le> i \<and> i < 2 ^ 32 then Ok (word_of_int i) else Fault Value_Error | _ \<Rightarrow> Fault Type_Error)"

definition py_item :: "(string \<times> py_val) list \<Rightarrow> string \<Rightarrow> py_val res" where
  "py_item d key = (case map_of d key of None \<Rightarrow> Fault Key_Error | Some v \<Rightarrow> Ok v)"

definition py_iter :: "py_val \<Rightarrow> py_val list res" where
  "py_iter v =
     (case v of
        PyList xs \<Rightarrow> Ok xs | PyTuple xs \<Rightarrow> Ok xs | PyStr s \<Rightarrow> Ok (map (\<lambda>c. PyStr [c]) s)
      | PyDict d \<Rightarrow> Ok (map (\<lambda>(key, _). PyStr key) d) | _ \<Rightarrow> Fault Type_Error)"

text \<open>The elements of a value that is indexed by a number.\<close>

definition py_elems :: "py_val \<Rightarrow> py_val list res" where
  "py_elems v =
     (case v of
        PyList xs \<Rightarrow> Ok xs | PyTuple xs \<Rightarrow> Ok xs | PyStr s \<Rightarrow> Ok (map (\<lambda>c. PyStr [c]) s)
      | PyDict d \<Rightarrow> Fault Key_Error | _ \<Rightarrow> Fault Type_Error)"

section \<open>Addresses\<close>

record PyThread =
  py_ip :: string
  py_tid :: int

datatype py_service = FUNC_CREATE | APP_REGIST | FUNC_CALL | COORD_QUERY | BUCKET_OP | TRIGGER_OP | BUCKET_REQ | TRIGGER_REQ

fun py_port :: "py_service \<Rightarrow> int" where
  "py_port FUNC_CREATE = 5000"
| "py_port APP_REGIST = 5020"
| "py_port FUNC_CALL = 5050"
| "py_port COORD_QUERY = 6002"
| "py_port BUCKET_OP = 7800"
| "py_port TRIGGER_OP = 7900"
| "py_port BUCKET_REQ = 12070"
| "py_port TRIGGER_REQ = 12170"

text \<open>The member functions of \<^verbatim>\<open>OperationThread\<close> and \<^verbatim>\<open>OperationRequestThread\<close>, by service.\<close>

definition py_connect_address :: "py_service \<Rightarrow> PyThread \<Rightarrow> Address" where
  "py_connect_address service th = ''tcp://'' @ py_ip th @ '':'' @ int_str (py_tid th + py_port service)"

definition py_bind_address :: "py_service \<Rightarrow> PyThread \<Rightarrow> Address" where
  "py_bind_address service th = ''tcp://*:'' @ int_str (py_tid th + py_port service)"

section \<open>The client\<close>

record PheromoneClient =
  pc_ort :: PyThread
  pc_app_coords :: "string \<rightharpoonup> PyThread"
  pc_response_address :: Address
  pc_rid :: int

text \<open>
  The given ip may be missing. The host is then looked up for the sockets of requests, but the address
  for responses is put together from the missing ip.
\<close>

definition new_PheromoneClient :: "string \<Rightarrow> string option \<Rightarrow> int \<Rightarrow> PheromoneClient res" where
  "new_PheromoneClient host ip thread_id =
     (case ip of
        None \<Rightarrow> Fault Type_Error
      | Some a \<Rightarrow>
          Ok \<lparr>pc_ort = \<lparr>py_ip = (if a = [] then host else a), py_tid = thread_id\<rparr>, pc_app_coords = Map.empty,
              pc_response_address = ''tcp://'' @ a @ '':'' @ int_str (9000 + thread_id), pc_rid = 0\<rparr>)"

definition client_request_id :: "PheromoneClient \<Rightarrow> string \<times> PheromoneClient" where
  "client_request_id c = (int_str (pc_rid c + 1), c\<lparr>pc_rid := pc_rid c + 1\<rparr>)"

definition try_get_app_coord ::
  "(CoordQuery \<Rightarrow> CoordResponse) \<Rightarrow> string \<Rightarrow> PheromoneClient \<Rightarrow> PyThread \<times> PheromoneClient" where
  "try_get_app_coord ask app_name c =
     (case pc_app_coords c app_name of
        Some th \<Rightarrow> (th, c)
      | None \<Rightarrow>
          (case client_request_id c of
             (rid, c1) \<Rightarrow>
               (let r = ask \<lparr>cq_application = app_name, cq_request_id = rid\<rparr>;
                    th = \<lparr>py_ip = cr_coord_ip r, py_tid = uint (cr_thread_id r)\<rparr>
                in (th, c1\<lparr>pc_app_coords := (pc_app_coords c1)(app_name \<mapsto> th)\<rparr>))))"

text \<open>
  Messages are taken from the socket until as many as there are ids have one of the ids; \<open>None\<close> is
  waiting. With a single id that is the first answer to it.
\<close>

fun recv_responses :: "('r \<Rightarrow> string) \<Rightarrow> string list \<Rightarrow> nat \<Rightarrow> 'r list \<Rightarrow> 'r list option" where
  "recv_responses response_id req_ids 0 msgs = Some []"
| "recv_responses response_id req_ids (Suc n) [] = None"
| "recv_responses response_id req_ids (Suc n) (msg # msgs) =
     (if response_id msg \<in> set req_ids
      then map_option ((#) msg) (recv_responses response_id req_ids n msgs)
      else recv_responses response_id req_ids (Suc n) msgs)"

definition recv_response :: "('r \<Rightarrow> string) \<Rightarrow> string list \<Rightarrow> 'r list \<Rightarrow> 'r list option" where
  "recv_response response_id req_ids msgs = recv_responses response_id req_ids (length req_ids) msgs"

section \<open>Buckets\<close>

definition bucket_request ::
  "BucketOperationType \<Rightarrow> (CoordQuery \<Rightarrow> CoordResponse) \<Rightarrow> string \<Rightarrow> string \<Rightarrow> PheromoneClient \<Rightarrow>
   send \<times> string \<times> PheromoneClient" where
  "bucket_request op ask app_name bucket_name c =
     (case try_get_app_coord ask app_name c of
        (coord_thread, c1) \<Rightarrow>
          (case client_request_id c1 of
             (rid, c2) \<Rightarrow>
               (Send (py_connect_address BUCKET_OP coord_thread) (Bucket_Request_Msg
                  \<lparr>bor_operation_type = op, bor_app_name = app_name, bor_bucket_name = bucket_name,
                   bor_request_id = rid, bor_response_address = py_connect_address BUCKET_REQ (pc_ort c2)\<rparr>),
                rid, c2)))"

definition client_create_bucket ::
  "(CoordQuery \<Rightarrow> CoordResponse) \<Rightarrow> string \<Rightarrow> string \<Rightarrow> PheromoneClient \<Rightarrow> send \<times> string \<times> PheromoneClient" where
  "client_create_bucket = bucket_request CREATE_BUCKET"

definition client_delete_bucket ::
  "(CoordQuery \<Rightarrow> CoordResponse) \<Rightarrow> string \<Rightarrow> string \<Rightarrow> PheromoneClient \<Rightarrow> send \<times> string \<times> PheromoneClient" where
  "client_delete_bucket = bucket_request DELETE_BUCKET"

definition bucket_result :: "string \<Rightarrow> BucketOperationResponse list \<Rightarrow> bool option" where
  "bucket_result rid msgs = map_option (\<lambda>rs. bop_error (rs ! 0) = SUCCESS) (recv_response bop_response_id [rid] msgs)"

section \<open>Triggers\<close>

record py_env =
  pe_repr :: "py_val \<Rightarrow> string"
  pe_codec :: prim_codec

text \<open>
  The serialized primitive. For \<open>REDUNDANT\<close> the number of the dictionary under \<^verbatim>\<open>k\<close> becomes the field
  \<^verbatim>\<open>n\<close>, and the one under \<^verbatim>\<open>n\<close> the field \<^verbatim>\<open>k\<close>. An unknown type leaves the variable without a value.
\<close>

definition primitive_bytes :: "py_env \<Rightarrow> PrimitiveType \<Rightarrow> (string \<times> py_val) list \<Rightarrow> string res" where
  "primitive_bytes env primitive_type primitive =
     (let function = res_bind (py_item primitive ''function'') as_string;
          str_item = (\<lambda>key. res_bind (py_item primitive key) as_string);
          num_item = (\<lambda>key. res_bind (py_item primitive key) as_uint32);
          items = (\<lambda>key. res_bind (py_item primitive key) py_iter)
      in case primitive_type of
           IMMEDIATE \<Rightarrow> res_bind function (\<lambda>f. Ok (ser_Immediate (pe_codec env) f))
         | BY_NAME \<Rightarrow> res_bind function (\<lambda>f. res_bind (str_item ''key_name'') (\<lambda>key_name.
                        Ok (ser_ByName (pe_codec env) (f, key_name))))
         | BY_BATCH_SIZE \<Rightarrow> res_bind function (\<lambda>f. res_bind (num_item ''count'') (\<lambda>cnt.
                              Ok (ser_ByBatchSize (pe_codec env) (f, cnt))))
         | BY_SET \<Rightarrow> res_bind function (\<lambda>f. res_bind (items ''key_set'') (\<lambda>keys.
                       Ok (ser_BySet (pe_codec env) (f, map (py_str (pe_repr env)) keys))))
         | DYNAMIC_GROUP \<Rightarrow> res_bind function (\<lambda>f. res_bind (items ''control_group'') (\<lambda>keys.
                              res_bind (res_map as_string keys) (\<lambda>ks. Ok (ser_DynamicGroup (pe_codec env) (f, ks)))))
         | REDUNDANT \<Rightarrow> res_bind function (\<lambda>f. res_bind (num_item ''k'') (\<lambda>n. res_bind (num_item ''n'') (\<lambda>k.
                          Ok (ser_Redundant (pe_codec env) (f, k, n)))))
         | BY_TIME \<Rightarrow> res_bind function (\<lambda>f. res_bind (num_item ''time_window'') (\<lambda>time_window.
                        Ok (ser_ByTime (pe_codec env) (f, time_window))))
         | UNKNOWN_PRIMITIVE _ \<Rightarrow> Fault Name_Error)"

text \<open>A hint without a timeout gets \<^verbatim>\<open>default_rerun_timeout\<close>, which is 3000.\<close>

definition parse_hint :: "py_val \<Rightarrow> RerunHint res" where
  "parse_hint hint =
     res_bind (py_elems hint) (\<lambda>elems.
     res_bind (res_bind (nth_res elems 0) as_string) (\<lambda>source_function.
     res_bind (nth_res elems 1) (\<lambda>key.
     res_bind (if key = PyNone then Ok [] else as_string key) (\<lambda>source_key.
     res_bind (if 2 < length elems then res_bind (nth_res elems 2) as_uint32 else Ok 3000) (\<lambda>timeout.
     Ok \<lparr>rh_source_function = source_function, rh_source_key = source_key, rh_timeout = timeout\<rparr>)))))"

text \<open>\<open>None\<close> if the hints are not recognized; the operation then ends without a message.\<close>

definition parse_hints :: "py_val \<Rightarrow> RerunHint list option res" where
  "parse_hints hints =
     (case hints of
        PyNone \<Rightarrow> Ok (Some [])
      | PyTuple _ \<Rightarrow> res_bind (parse_hint hints) (\<lambda>h. Ok (Some [h]))
      | PyList hs \<Rightarrow> res_bind (res_map parse_hint hs) (\<lambda>hs'. Ok (Some hs'))
      | _ \<Rightarrow> Ok None)"

definition client_add_trigger ::
  "py_env \<Rightarrow> (CoordQuery \<Rightarrow> CoordResponse) \<Rightarrow> string \<Rightarrow> string \<Rightarrow> string \<Rightarrow> PrimitiveType \<Rightarrow>
   (string \<times> py_val) list \<Rightarrow> int \<Rightarrow> py_val \<Rightarrow> PheromoneClient \<Rightarrow> ((send \<times> string) option \<times> PheromoneClient) res" where
  "client_add_trigger env ask app_name bucket_name name primitive_type primitive option hints c =
     (case try_get_app_coord ask app_name c of
        (coord_thread, c1) \<Rightarrow>
          (case client_request_id c1 of
             (rid, c2) \<Rightarrow>
               res_bind (as_uint32 (PyInt option)) (\<lambda>opt.
               res_bind (primitive_bytes env primitive_type primitive) (\<lambda>prm.
               res_bind (parse_hints hints) (\<lambda>hs.
               Ok (map_option (\<lambda>hs.
                     (Send (py_connect_address TRIGGER_OP coord_thread) (Trigger_Request_Msg
                        \<lparr>tor_operation_type = ADD_TRIGGER, tor_app_name = app_name, tor_bucket_name = bucket_name,
                         tor_trigger_name = name, tor_trigger_option = opt, tor_primitive_type = primitive_type,
                         tor_primitive = prm, tor_request_id = rid,
                         tor_response_address = py_connect_address TRIGGER_REQ (pc_ort c2), tor_hints = hs\<rparr>), rid)) hs,
                   c2))))))"

text \<open>The request to delete a trigger does not name the application.\<close>

definition client_delete_trigger ::
  "(CoordQuery \<Rightarrow> CoordResponse) \<Rightarrow> string \<Rightarrow> string \<Rightarrow> string \<Rightarrow> PheromoneClient \<Rightarrow> send \<times> string \<times> PheromoneClient" where
  "client_delete_trigger ask app_name bucket_name name c =
     (case try_get_app_coord ask app_name c of
        (coord_thread, c1) \<Rightarrow>
          (case client_request_id c1 of
             (rid, c2) \<Rightarrow>
               (Send (py_connect_address TRIGGER_OP coord_thread) (Trigger_Request_Msg
                  \<lparr>tor_operation_type = DELETE_TRIGGER, tor_app_name = [], tor_bucket_name = bucket_name,
                   tor_trigger_name = name, tor_trigger_option = 0, tor_primitive_type = IMMEDIATE,
                   tor_primitive = [], tor_request_id = rid,
                   tor_response_address = py_connect_address TRIGGER_REQ (pc_ort c2), tor_hints = []\<rparr>), rid, c2)))"

definition trigger_result :: "string \<Rightarrow> TriggerOperationResponse list \<Rightarrow> bool option" where
  "trigger_result rid msgs = map_option (\<lambda>rs. top_error (rs ! 0) = SUCCESS) (recv_response top_response_id [rid] msgs)"

section \<open>Applications\<close>

text \<open>
  A dependency: source and target functions, type and, possibly, a description. \<open>None\<close> if the
  description does not fit; the application is then not registered.
\<close>

type_synonym py_dependency = "string list \<times> string list \<times> DependencyType \<times> py_val option"

definition dependency_description :: "(py_val \<Rightarrow> string) \<Rightarrow> DependencyType \<Rightarrow> py_val option \<Rightarrow> string option" where
  "dependency_description repr type description =
     (case description of
        None \<Rightarrow> Some []
      | Some d \<Rightarrow>
          (case type of
             K_OUT_OF_N \<Rightarrow>
               (case d of
                  PyDict m \<Rightarrow>
                    (case (map_of m ''k'', map_of m ''n'') of
                       (Some k, Some n) \<Rightarrow> Some (py_str repr k @ '','' @ py_str repr n)
                     | _ \<Rightarrow> None)
                | _ \<Rightarrow> None)
           | PERIODIC \<Rightarrow> (case d of PyInt i \<Rightarrow> Some (int_str i) | _ \<Rightarrow> None)
           | _ \<Rightarrow> Some []))"

fun dependency_messages :: "(py_val \<Rightarrow> string) \<Rightarrow> py_dependency list \<Rightarrow> DataDependency list option" where
  "dependency_messages repr [] = Some []"
| "dependency_messages repr ((srcs, tgts, type, description) # deps) =
     (case dependency_description repr type description of
        None \<Rightarrow> None
      | Some descr \<Rightarrow>
          map_option ((#) \<lparr>dd_type = type, dd_src_functions = srcs, dd_tgt_functions = tgts, dd_description = descr\<rparr>)
            (dependency_messages repr deps))"

definition client_register_app ::
  "py_env \<Rightarrow> (CoordQuery \<Rightarrow> CoordResponse) \<Rightarrow> string \<Rightarrow> string list \<Rightarrow> py_dependency list \<Rightarrow> PheromoneClient \<Rightarrow>
   send option \<times> PheromoneClient" where
  "client_register_app env ask app_name functions dependencies c =
     (case try_get_app_coord ask app_name c of
        (coord_thread, c1) \<Rightarrow>
          (map_option (\<lambda>deps. Send (py_connect_address APP_REGIST coord_thread) (App_Msg
             \<lparr>apr_app_name = app_name, apr_functions = functions, apr_dependencies = deps\<rparr>))
             (dependency_messages (pe_repr env) dependencies), c1))"

definition client_call_app ::
  "py_env \<Rightarrow> (CoordQuery \<Rightarrow> CoordResponse) \<Rightarrow> string \<Rightarrow> (string \<times> py_val list) list \<Rightarrow> bool \<Rightarrow> PheromoneClient \<Rightarrow>
   send \<times> PheromoneClient" where
  "client_call_app env ask app_name func_args synchronous c =
     (case try_get_app_coord ask app_name c of
        (coord_thread, c1) \<Rightarrow>
          (case client_request_id c1 of
             (rid, c2) \<Rightarrow>
               (Send (py_connect_address FUNC_CALL coord_thread) (Call_Msg (empty_call\<lparr>fc_app_name := app_name, fc_request_id := rid,
                  fc_requests := map (\<lambda>(func, args). \<lparr>fr_name = func, fr_arguments =
                    map (\<lambda>arg. empty_argument\<lparr>ar_body := py_str (pe_repr env) arg\<rparr>) args\<rparr>) func_args,
                  fc_resp_address := if synchronous then pc_response_address c2 else []\<rparr>)), c2)))"

text \<open>
  A synchronous call waits for responses and timeouts (\<open>None\<close>). The result has how often the call is
  sent again, and the output. Whether a response belongs to this call is not looked at.
\<close>

fun await_call :: "int \<Rightarrow> FunctionCallResponse option list \<Rightarrow> (nat \<times> string option) option" where
  "await_call retry [] = None"
| "await_call retry (Some r # rest) = Some (0, if fcr_error_no r = 0 then Some (fcr_output r) else None)"
| "await_call retry (None # rest) =
     (if 0 < retry then map_option (\<lambda>(n, result). (Suc n, result)) (await_call (retry - 1) rest)
      else Some (0, None))"

end
