(* ===== verification/Ph_Client_Laws.thy ===== *)
theory Ph_Client_Laws
  imports Ph_Client Ph_Coordinator_Laws
begin

text \<open>
  The Python client and the servers it talks to: its messages go to sockets that coordinators have
  bound, and the triggers and dependencies it asks for are those that the coordinator installs, but for
  the two numbers of a redundant trigger.
\<close>

section \<open>Numbers as text\<close>

lemma int_str_no: "c \<in> set (int_str i) \<Longrightarrow> c = CHR ''-'' \<or> is_digit c"
  using to_string_digits by (auto simp: int_str_def split: if_splits)

lemma stoi_neg: "ds \<noteq> [] \<Longrightarrow> (\<And>c. c \<in> set ds \<Longrightarrow> is_digit c) \<Longrightarrow> digits_val ds \<le> 2 ^ 31 \<Longrightarrow>
  stoi (CHR ''-'' # ds) = Ok (- int (digits_val ds))"
  by (simp add: stoi_def stoi_sign_def is_space_def takeWhile_eq_all_conv [THEN iffD2] Let_def)

lemma stoi_int_str [simp]: "- (2 ^ 31) \<le> i \<Longrightarrow> i < 2 ^ 31 \<Longrightarrow> stoi (int_str i) = Ok i"
  using stoi_neg [of "to_string (nat (- i))"] to_string_digits by (auto simp: int_str_def)

lemma int_str_not_Nil [simp]: "int_str i \<noteq> []"
  by (simp add: int_str_def)

lemma int_str_uint32: "0 \<le> i \<Longrightarrow> int_str i = to_string (nat i)"
  by (simp add: int_str_def)

section \<open>Addresses\<close>

lemma res_run_snoc:
  "res_run step s xs = Ok (out, s1) \<Longrightarrow> res_run step s (xs @ [x]) =
     res_bind (step s1 x) (\<lambda>(o', s'). Ok (out @ o', s'))"
proof (induction xs arbitrary: s out)
  case (Cons y ys)
  from Cons.prems obtain o1 s2 o2 where "step s y = Ok (o1, s2)" "res_run step s2 ys = Ok (o2, s1)" "out = o1 @ o2"
    by (rule res_run_ConsE)
  then show ?case using Cons.IH [of s2 o2] by (cases "step s1 x") auto
qed (cases "step s x"; auto)


lemma list_all2_last: "list_all2 P (xs @ [x]) (ys @ [y]) \<Longrightarrow> P x y"
  using list_all2_rev [of P "xs @ [x]" "ys @ [y]"] by simp

lemma service_bound:
  assumes "service \<in> {APP_REGIST, FUNC_CALL, BUCKET_OP, TRIGGER_OP}"
  shows "\<exists>n < 10000. py_port service = int n \<and>
    bind_address (new_thread private_ip tid) (word_of_nat n) \<in> set (coordinator_binds private_ip tid)"
proof -
  have "bind_address (new_thread private_ip tid) (op_port port) \<in> set (coordinator_binds private_ip tid)"
    if "port \<in> {appRegistPort, funcCallPort, oBucketPort, oTriggerPort}" for port
    using that by (auto simp: coordinator_binds_def Let_def app_regist_bind_address_def func_call_bind_address_def
        bucket_op_bind_address_def trigger_op_bind_address_def)
  note this [of appRegistPort] this [of funcCallPort] this [of oBucketPort] this [of oTriggerPort]
  then show ?thesis using assms
    by (elim insertE emptyE; intro exI [of _ "nat (py_port service)"]) (simp_all add: op_port.simps)
qed

lemma py_connect_bound:
  assumes "service \<in> {APP_REGIST, FUNC_CALL, BUCKET_OP, TRIGGER_OP}" and "unat tid + 10000 < 2 ^ 32"
  shows "\<exists>p. py_connect_address service \<lparr>py_ip = ip, py_tid = uint tid\<rparr> = ''tcp://'' @ ip @ '':'' @ p \<and>
    kBindBase @ p \<in> set (coordinator_binds private_ip tid)"
proof -
  obtain n where n: "n < 10000" "py_port service = int n"
    and b: "bind_address (new_thread private_ip tid) (word_of_nat n) \<in> set (coordinator_binds private_ip tid)"
    using service_bound [OF assms(1)] by blast
  have "unat (word_of_nat n :: uint32) = n" using n(1) by (simp add: unsigned_of_nat take_bit_nat_eq_self)
  then have "unat (tid + word_of_nat n) = unat tid + n"
    using assms(2) n(1) by (simp add: unat_word_ariths)
  then have "int_str (uint tid + int n) = to_string (unat (tid + word_of_nat n))"
    using uint_ge_0 [of tid] by (simp add: int_str_uint32 nat_add_distrib)
  then show ?thesis using b by (simp add: py_connect_address_def n(2) bind_address_def new_thread_def)
qed

text \<open>
  Property C13: the client finds a coordinator. When the manager answers its query, all operations of the
  client for the application go to sockets that a coordinator thread which has announced itself has
  bound: those for buckets, triggers, applications and calls. The manager is asked only once.
\<close>

theorem client_reaches_coordinator:
  assumes "manager_run rnd ext (init_manager seed) inputs = Ok (resps, m)" and "pc_app_coords c app = None"
    and "\<And>q. coord_query rnd ext q m = Ok (ask q, next q)" and "try_get_app_coord ask app c = (th, c')"
    and "\<And>ci. ci \<in> set (syncs inputs) \<Longrightarrow> unat (ci_thread_id ci) + 10000 < 2 ^ 32"
  shows "\<exists>ci \<in> set (syncs inputs). \<forall>service \<in> {APP_REGIST, FUNC_CALL, BUCKET_OP, TRIGGER_OP}. \<exists>p.
      py_connect_address service th = ''tcp://'' @ ip_to_send ext ci @ '':'' @ p \<and>
      kBindBase @ p \<in> set (coordinator_binds (ci_private_ip ci) (ci_thread_id ci)) \<and>
      try_get_app_coord ask' app c' = (th, c')"
proof -
  define q where "q = \<lparr>cq_application = app, cq_request_id = fst (client_request_id c)\<rparr>"
  have "manager_run rnd ext (init_manager seed) (inputs @ [In_Coord_Query q]) = Ok (resps @ [ask q], next q)"
    using assms(1,3) by (simp add: res_run_snoc)
  note all = manager_answers [OF this]
  have io: "syncs (inputs @ [In_Coord_Query q]) = syncs inputs" "queries (inputs @ [In_Coord_Query q]) = queries inputs @ [q]"
    by (induction inputs rule: syncs.induct) auto
  from list_all2_last [OF all [unfolded io]]
  obtain ci where ci: "ci \<in> set (syncs inputs)" "cr_coord_ip (ask q) = ip_to_send ext ci"
      "cr_thread_id (ask q) = ci_thread_id ci" by blast
  have th: "th = \<lparr>py_ip = ip_to_send ext ci, py_tid = uint (ci_thread_id ci)\<rparr>" "pc_app_coords c' app = Some th"
    using assms(2,4) ci(2,3) by (auto simp: try_get_app_coord_def q_def client_request_id_def Let_def)
  show ?thesis
    using ci(1) py_connect_bound [OF _ assms(5) [OF ci(1)]] th(2) unfolding th(1)
    by (intro bexI [of _ ci] ballI) (simp_all add: try_get_app_coord_def)
qed

definition ex_client :: PheromoneClient where
  "ex_client = \<lparr>pc_ort = \<lparr>py_ip = ''10.0.0.2'', py_tid = 0\<rparr>, pc_app_coords = Map.empty,
                pc_response_address = ''tcp://10.0.0.2:9000'', pc_rid = 0\<rparr>"

theorem client_reaches_coordinator_witness:
  "\<exists>th c'. try_get_app_coord (\<lambda>q. \<lparr>cr_coord_ip = ''10.0.0.9'', cr_thread_id = 3, cr_request_id = cq_request_id q\<rparr>) ''app'' ex_client =
      (th, c') \<and>
    (\<exists>p. py_connect_address BUCKET_OP th = ''tcp://10.0.0.9:'' @ p \<and> kBindBase @ p \<in> set (coordinator_binds ''10.0.0.9'' 3))"
proof -
  let ?sync = "\<lparr>cs_public_ip = [], cs_private_ip = ''10.0.0.9'', cs_thread_id = 3, cs_workload = 0\<rparr>"
  let ?rnd = "\<lambda>seed :: uint32. (0 :: nat, seed)"
  let ?ask = "\<lambda>q. \<lparr>cr_coord_ip = ''10.0.0.9'', cr_thread_id = 3, cr_request_id = cq_request_id q\<rparr>"
  obtain m where m: "manager_run ?rnd False (init_manager 0) [In_Sync ?sync] = Ok ([], m)"
    and st: "mg_coord_ips m = [CoordIp_of ?sync]" "mg_app_coord_map m = Map.empty"
    by (simp add: coord_sync_def init_manager_def uset_insert_def)
  have ask: "coord_query ?rnd False q m = Ok (?ask q, m\<lparr>mg_app_coord_map := [cq_application q \<mapsto> (''10.0.0.9'', 3)],
      mg_seed := mg_seed m\<rparr>)" for q
    by (simp add: coord_query_def assign_coord_def pick_coord_def st ip_to_send_def CoordIp_of_def Let_def)
  obtain th c' where th: "try_get_app_coord ?ask ''app'' ex_client = (th, c')" by fastforce
  have "\<exists>ci \<in> set (syncs [In_Sync ?sync]). \<forall>service \<in> {APP_REGIST, FUNC_CALL, BUCKET_OP, TRIGGER_OP}. \<exists>p.
      py_connect_address service th = ''tcp://'' @ ip_to_send False ci @ '':'' @ p \<and>
      kBindBase @ p \<in> set (coordinator_binds (ci_private_ip ci) (ci_thread_id ci)) \<and>
      try_get_app_coord ?ask ''app'' c' = (th, c')"
    by (rule client_reaches_coordinator [OF m _ ask th]) (simp_all add: ex_client_def CoordIp_of_def)
  then show ?thesis using th by (auto simp: CoordIp_of_def ip_to_send_def)
qed

section \<open>Triggers\<close>

text \<open>What a dictionary has under a name: a text, a number, or a list of texts.\<close>

definition text_at :: "(string \<times> py_val) list \<Rightarrow> string \<Rightarrow> string" where
  "text_at d key = (case map_of d key of Some (PyStr s) \<Rightarrow> s | _ \<Rightarrow> [])"

definition number_at :: "(string \<times> py_val) list \<Rightarrow> string \<Rightarrow> uint32" where
  "number_at d key = (case map_of d key of Some (PyInt i) \<Rightarrow> word_of_int i | _ \<Rightarrow> 0)"

definition texts_at :: "(py_val \<Rightarrow> string) \<Rightarrow> (string \<times> py_val) list \<Rightarrow> string \<Rightarrow> string list" where
  "texts_at repr d key = (case map_of d key of Some v \<Rightarrow> (case py_iter v of Ok xs \<Rightarrow> map (py_str repr) xs | _ \<Rightarrow> []) | None \<Rightarrow> [])"

text \<open>The trigger that a dictionary describes.\<close>

definition described_trigger ::
  "(py_val \<Rightarrow> string) \<Rightarrow> time \<Rightarrow> string \<Rightarrow> PrimitiveType \<Rightarrow> (string \<times> py_val) list \<Rightarrow> Trigger" where
  "described_trigger repr now name type d =
     (let f = text_at d ''function''
      in case type of
           IMMEDIATE \<Rightarrow> new_Immediate f name
         | BY_NAME \<Rightarrow> new_ByName f name (text_at d ''key_name'')
         | BY_BATCH_SIZE \<Rightarrow> new_ByBatchSize f name (number_at d ''count'')
         | BY_SET \<Rightarrow> new_BySet f name (uset_of (texts_at repr d ''key_set''))
         | DYNAMIC_GROUP \<Rightarrow> new_DynamicGroup f name (uset_of (texts_at repr d ''control_group''))
         | REDUNDANT \<Rightarrow> new_Redundant f name (number_at d ''k'') (number_at d ''n'')
         | _ \<Rightarrow> new_ByTime now f name (number_at d ''time_window''))"

lemma as_string_Ok: "as_string v = Ok s \<longleftrightarrow> v = PyStr s"
  by (cases v) (auto simp: as_string_def)

lemma as_uint32_Ok: "as_uint32 v = Ok w \<longleftrightarrow> (\<exists>i. v = PyInt i \<and> 0 \<le> i \<and> i < 2 ^ 32 \<and> w = word_of_int i)"
  by (cases v) (auto simp: as_uint32_def)

lemma py_item_Ok: "py_item d key = Ok v \<longleftrightarrow> map_of d key = Some v"
  by (auto simp: py_item_def split: option.splits)

lemma res_map_as_string: "res_map as_string xs = Ok ys \<Longrightarrow> ys = map (py_str repr) xs"
proof (induction xs arbitrary: ys)
  case (Cons x xs)
  then show ?case by (auto simp: as_string_Ok py_str_def elim!: res_bind_OkE)
qed simp

lemma primitive_read:
  assumes "codec_inverse pb" and "pe_codec env = pb" and "primitive_bytes env type d = Ok prm"
  shows "gen_trigger_pointer pb now type name prm =
    Some (if type = REDUNDANT then new_Redundant (text_at d ''function'') name (number_at d ''n'') (number_at d ''k'')
          else described_trigger (pe_repr env) now name type d)"
  using assms
  by (cases type)
    (auto simp: primitive_bytes_def Let_def py_item_Ok as_string_Ok as_uint32_Ok gen_trigger_pointer_def codec_inverse_def
      described_trigger_def text_at_def number_at_def texts_at_def dest: res_map_as_string [of _ _ "pe_repr env"] elim!: res_bind_OkE)

lemma recv_response_single:
  assumes "\<And>m. m \<in> set others \<Longrightarrow> response_id m \<noteq> rid" and "response_id msg = rid"
  shows "recv_response response_id [rid] (others @ msg # rest) = Some [msg]"
  using assms by (induction others) (auto simp: recv_response_def)

text \<open>
  Property C12: a trigger that the client adds is the one the coordinator installs. If the bucket exists, the
  coordinator appends to its triggers the trigger that the dictionary of the client describes, with the
  option of the client, answers under the id of the request, and the client returns success, whatever
  answers to other requests it receives before. For a redundant trigger the two numbers are exchanged:
  a trigger that should fire after \<open>k\<close> out of \<open>n\<close> objects waits for all \<open>n\<close>.
\<close>

theorem client_trigger_installed:
  assumes "client_add_trigger env ask app bucket name type d opt hints c =
      Ok (Some (Send addr (Trigger_Request_Msg request), rid), c')"
    and "pe_codec env = ce_codec cenv" and "codec_inverse (ce_codec cenv)" and "co_bucket_app s bucket \<noteq> None"
    and "\<And>m. m \<in> set others \<Longrightarrow> top_response_id m \<noteq> rid"
  shows "\<exists>response out s'. trigger_op_handler cenv request s =
      Ok (Send (tor_response_address request) (Trigger_Response_Msg response) # out, s') \<and>
    trigger_result rid (others @ [response]) = Some True \<and>
    map_at [] (co_triggers s') bucket = map_at [] (co_triggers s) bucket @
      [set_trigger_option (sint (word_of_int opt :: uint32))
        (if type = REDUNDANT then new_Redundant (text_at d ''function'') name (number_at d ''n'') (number_at d ''k'')
         else described_trigger (pe_repr env) (ce_now cenv) name type d)]"
proof -
  let ?tr = "if type = REDUNDANT then new_Redundant (text_at d ''function'') name (number_at d ''n'') (number_at d ''k'')
    else described_trigger (pe_repr env) (ce_now cenv) name type d"
  obtain prm where prm: "primitive_bytes env type d = Ok prm"
    and req: "tor_operation_type request = ADD_TRIGGER" "tor_bucket_name request = bucket" "tor_trigger_name request = name"
      "tor_primitive_type request = type" "tor_primitive request = prm" "tor_request_id request = rid"
      "tor_trigger_option request = word_of_int opt"
    using assms(1) by (auto simp: client_add_trigger_def as_uint32_Ok split: prod.splits elim!: res_bind_OkE)
  obtain es where "add_trigger cenv request s = Ok (es, push_trigger bucket (set_trigger_option (sint (word_of_int opt :: uint32)) ?tr) s)"
    using primitive_read [OF assms(3,2) prm, of "ce_now cenv" name] by (simp add: add_trigger_def req Let_def)
  then show ?thesis
    using assms(4,5) recv_response_single [of others top_response_id rid _ "[]"]
    by (auto simp: trigger_op_handler_def req Let_def trigger_result_def push_trigger_def map_at_def)
qed

definition ex_py_env :: py_env where
  "ex_py_env = \<lparr>pe_repr = (\<lambda>_. []), pe_codec = item_codec\<rparr>"

definition ex_ask :: "CoordQuery \<Rightarrow> CoordResponse" where
  "ex_ask q = \<lparr>cr_coord_ip = ''10.0.0.9'', cr_thread_id = 0, cr_request_id = cq_request_id q\<rparr>"

theorem client_trigger_installed_witness:
  "\<exists>addr request rid c' sends s'.
     client_add_trigger ex_py_env ex_ask ''app'' ''b'' ''t'' REDUNDANT [(''function'', PyStr ''f''), (''k'', PyInt 2), (''n'', PyInt 5)] 1
       PyNone ex_client = Ok (Some (Send addr (Trigger_Request_Msg request), rid), c') \<and>
     trigger_op_handler (ex_env\<lparr>ce_codec := item_codec\<rparr>) request ((init_coord 7)\<lparr>co_bucket_app := [''b'' \<mapsto> ''app'']\<rparr>) =
       Ok (sends, s') \<and>
     map_at [] (co_triggers s') ''b'' = [set_trigger_option 1 (new_Redundant ''f'' ''t'' 5 2)]"
proof -
  let ?d = "[(''function'', PyStr ''f''), (''k'', PyInt 2), (''n'', PyInt 5)]"
  let ?s = "(init_coord 7)\<lparr>co_bucket_app := [''b'' \<mapsto> ''app'']\<rparr>"
  obtain addr request rid c' where add: "client_add_trigger ex_py_env ex_ask ''app'' ''b'' ''t'' REDUNDANT ?d 1 PyNone ex_client =
      Ok (Some (Send addr (Trigger_Request_Msg request), rid), c')"
    by (simp add: client_add_trigger_def try_get_app_coord_def client_request_id_def ex_client_def as_uint32_def
        primitive_bytes_def py_item_def as_string_def parse_hints_def Let_def)
  have c: "pe_codec ex_py_env = ce_codec (ex_env\<lparr>ce_codec := item_codec\<rparr>)" "codec_inverse (ce_codec (ex_env\<lparr>ce_codec := item_codec\<rparr>))"
    "co_bucket_app ?s ''b'' \<noteq> None" "map_at [] (co_triggers ?s) ''b'' = []"
    by (simp_all add: ex_py_env_def item_codec_inverse init_coord_def)
  from client_trigger_installed [OF add c(1-3), of "[]"] c(4) add show ?thesis
    by (fastforce simp: text_at_def number_at_def)
qed

section \<open>Dependencies\<close>

text \<open>
  Property C14: a dependency that the client registers becomes the trigger it stands for. A function that
  depends on \<open>k\<close> out of \<open>n\<close> results, or on what arrives in a period, gets a bucket with a redundant trigger
  with these numbers, or a trigger by time with this window: the coordinator reads the numbers out of
  the text that the client has made of them.
\<close>

theorem client_dependency_installed:
  assumes "client_register_app env ask app funcs [(srcs, [tgt], type, Some descr)] c = (Some (Send addr (App_Msg msg)), c')"
    and "type = K_OUT_OF_N \<and> descr = PyDict d \<and> map_of d ''k'' = Some (PyInt k) \<and> map_of d ''n'' = Some (PyInt n) \<and>
        k \<in> {- (2 ^ 31) ..< 2 ^ 31} \<and> n \<in> {- (2 ^ 31) ..< 2 ^ 31} \<and>
        tr = new_Redundant tgt (dependency_trigger_name 2 tgt) (word_of_int k) (word_of_int n) \<or>
      type = PERIODIC \<and> descr = PyInt k \<and> k \<in> {- (2 ^ 31) ..< 2 ^ 31} \<and>
        tr = new_ByTime (ce_now cenv) tgt (dependency_trigger_name 3 tgt) (word_of_int k)"
  shows "\<exists>out s'. app_register_handler cenv msg s = Ok (out, s') \<and> co_bucket_app s' (''b_'' @ tgt) = Some app \<and>
    map_at [] (co_triggers s') (''b_'' @ tgt) = map_at [] (co_triggers s) (''b_'' @ tgt) @ [tr]"
proof -
  define descr' where "descr' = (if type = PERIODIC then int_str k else int_str k @ '','' @ int_str n)"
  let ?dep = "\<lparr>dd_type = type, dd_src_functions = srcs, dd_tgt_functions = [tgt], dd_description = descr'\<rparr>"
  have "dependency_description (pe_repr env) type (Some descr) = Some descr'"
    using assms(2) by (auto simp: dependency_description_def py_str_def descr'_def)
  then have msg: "msg = \<lparr>apr_app_name = app, apr_functions = funcs, apr_dependencies = [?dep]\<rparr>"
    using assms(1) by (auto simp: client_register_app_def split: prod.splits)
  have no_comma: "CHR '','' \<notin> set (int_str i)" for i
    using int_str_no [of "CHR '',''" i] by (auto simp: is_digit_def)
  have "split (int_str k @ CHR '','' # int_str n) CHR '','' = [int_str k, int_str n]"
    using split_item [OF no_comma, of k "int_str n"] split_no_delim [OF _ no_comma, of n] by simp
  then obtain e s' where "register_dependency cenv app ?dep s = Ok (e, s')"
      "co_bucket_app s' (''b_'' @ tgt) = Some app"
      "map_at [] (co_triggers s') (''b_'' @ tgt) = map_at [] (co_triggers s) (''b_'' @ tgt) @ [tr]"
    using assms(2) by (auto simp: register_dependency_def create_bucket_def push_trigger_def descr'_def nth_res_def Let_def)
  then show ?thesis using assms(2) by (auto simp: msg app_register_handler_def app_dependency_def Let_def)
qed

theorem client_dependency_installed_witness:
  "\<exists>addr msg c' out s'.
     client_register_app ex_py_env ex_ask ''app'' [''g''] [([''f''], [''g''], K_OUT_OF_N, Some (PyDict [(''k'', PyInt 2), (''n'', PyInt 5)]))]
       ex_client = (Some (Send addr (App_Msg msg)), c') \<and>
     app_register_handler ex_env msg (init_coord 7) = Ok (out, s') \<and>
     map_at [] (co_triggers s') ''b_g'' = [new_Redundant ''g'' (dependency_trigger_name 2 ''g'') 2 5]"
proof -
  let ?d = "[(''k'', PyInt 2), (''n'', PyInt 5)]"
  obtain addr msg c' where reg: "client_register_app ex_py_env ex_ask ''app'' [''g''] [([''f''], [''g''], K_OUT_OF_N, Some (PyDict ?d))]
      ex_client = (Some (Send addr (App_Msg msg)), c')"
    by (simp add: client_register_app_def try_get_app_coord_def client_request_id_def ex_client_def dependency_description_def Let_def)
  have "map_at [] (co_triggers (init_coord 7)) (''b_'' @ ''g'') = []" by (simp add: init_coord_def)
  with client_dependency_installed [OF reg, of ?d 2 5 "new_Redundant ''g'' (dependency_trigger_name 2 ''g'') 2 5" ex_env "init_coord 7"]
    reg show ?thesis by fastforce
qed

end
