(* ===== verification/Ph_Py_Lattice.thy ===== *)
theory Ph_Py_Lattice
  imports Ph_Lattice_Codec Ph_Kvs_Client
begin

text \<open>
  The lattices of the Python client of the key-value store, \<^verbatim>\<open>client/anna_client/anna/lattices.py\<close>,
  and their conversion to and from stored values, \<^verbatim>\<open>base_client.py\<close>. An object is a value of the
  type \<open>py_lattice\<close> by its class. A set of bytes is a list without repetitions in iteration order.
  Methods that have a wrong type, name or argument raise an exception, which is a fault here; statements
  behind such a point are not modelled. The protocol-buffer library is the parameter \<open>value_codec\<close>.
\<close>

section \<open>Ordered sets\<close>

text \<open>The binary search: the position of a value and whether it is there.\<close>

function py_index_of :: "'a::linorder list \<Rightarrow> 'a \<Rightarrow> nat \<Rightarrow> nat \<Rightarrow> nat \<times> bool" where
  "py_index_of lst value low high =
     (if low < high
      then let middle = low + (high - low) div 2; pivot = lst ! middle
           in if value = pivot then (middle, True)
              else if value < pivot then py_index_of lst value low middle
              else py_index_of lst value (middle + 1) high
      else (low, False))"
  by pat_completeness auto

termination
  by (relation "measure (\<lambda>(lst, value, low, high). high - low)") auto

declare py_index_of.simps [simp del]

definition py_insert :: "'a::linorder \<Rightarrow> 'a list \<Rightarrow> 'a list" where
  "py_insert value lst =
     (if length lst = 0 then lst @ [value]
      else if last lst < value then lst @ [value]
      else case py_index_of lst value 0 (length lst) of
             (idx, present) \<Rightarrow> if present then lst else take idx lst @ value # drop idx lst)"

definition ListBasedOrderedSet :: "'a::linorder list \<Rightarrow> 'a list" where
  "ListBasedOrderedSet iterable = fold py_insert iterable []"

section \<open>Lattices\<close>

datatype 'p py_lattice =
    LWWPairLattice int string
  | SetLattice "string list"
  | OrderedSetLattice "string list"
  | MaxIntLattice int
  | MapLattice "(string \<times> 'p py_lattice) list"
  | PyVectorClock "(string \<times> int) list"
  | SingleKeyCausalLattice "(string \<times> int) list" "string list"
  | MultiKeyCausalLattice "(string \<times> int) list" "(string \<times> 'p py_lattice) list" "string list"
  | PriorityLattice 'p string

text \<open>What \<^verbatim>\<open>merge\<close> returns, and the object after it.\<close>

type_synonym 'p merged = "('p py_lattice option \<times> 'p py_lattice) res"

definition py_lww_merge :: "int \<Rightarrow> string \<Rightarrow> 'p py_lattice \<Rightarrow> 'p merged" where
  "py_lww_merge ts val other =
     (case other of
        LWWPairLattice ts' val' \<Rightarrow> Ok (Some (if ts < ts' then other else LWWPairLattice ts val), LWWPairLattice ts val)
      | _ \<Rightarrow> Fault Attribute_Error)"

text \<open>A Python set has no method \<^verbatim>\<open>insert\<close>; only two empty sets never need it.\<close>

definition py_set_merge :: "string list \<Rightarrow> 'p py_lattice \<Rightarrow> 'p merged" where
  "py_set_merge val other =
     (case other of
        SetLattice val' \<Rightarrow> if val' = [] \<and> val = [] then Ok (Some (SetLattice []), SetLattice val) else Fault Attribute_Error
      | _ \<Rightarrow> Fault Value_Error)"

text \<open>\<^verbatim>\<open>reveal\<close> already returns the list, which has no attribute \<^verbatim>\<open>lst\<close>.\<close>

definition py_ordered_set_merge :: "string list \<Rightarrow> 'p py_lattice \<Rightarrow> 'p merged" where
  "py_ordered_set_merge val other = (case other of OrderedSetLattice _ \<Rightarrow> Fault Attribute_Error | _ \<Rightarrow> Fault Value_Error)"

definition py_max_merge :: "int \<Rightarrow> 'p py_lattice \<Rightarrow> 'p merged" where
  "py_max_merge val other =
     (case other of
        MaxIntLattice val' \<Rightarrow> Ok (None, MaxIntLattice (if val < val' then val' else val))
      | _ \<Rightarrow> Fault Value_Error)"

text \<open>
  Also of \<^verbatim>\<open>VectorClock\<close>, which inherits it. The method \<^verbatim>\<open>keys\<close> is iterated instead of its result. A
  vector clock is not of the type \<^verbatim>\<open>MapLattice\<close> itself.
\<close>

definition py_map_merge :: "'p py_lattice \<Rightarrow> 'p merged" where
  "py_map_merge other = (case other of MapLattice _ \<Rightarrow> Fault Type_Error | _ \<Rightarrow> Fault Value_Error)"

definition py_single_key_merge :: "'p py_lattice \<Rightarrow> 'p merged" where
  "py_single_key_merge other =
     (case other of
        SingleKeyCausalLattice clock _ \<Rightarrow> py_map_merge (PyVectorClock clock)
      | _ \<Rightarrow> Fault Value_Error)"

definition py_multi_key_merge :: "'p py_lattice \<Rightarrow> 'p merged" where
  "py_multi_key_merge other =
     (case other of
        MultiKeyCausalLattice clock _ _ \<Rightarrow> py_map_merge (PyVectorClock clock)
      | _ \<Rightarrow> Fault Value_Error)"

definition py_priority_merge :: "'p::linorder \<Rightarrow> string \<Rightarrow> 'p py_lattice \<Rightarrow> 'p merged" where
  "py_priority_merge priority val other =
     (case other of
        PriorityLattice priority' val' \<Rightarrow>
          Ok (Some (if priority' < priority then other else PriorityLattice priority val), PriorityLattice priority val)
      | _ \<Rightarrow> Fault Attribute_Error)"

fun py_merge :: "'p::linorder py_lattice \<Rightarrow> 'p py_lattice \<Rightarrow> 'p merged" where
  "py_merge (LWWPairLattice ts val) other = py_lww_merge ts val other"
| "py_merge (SetLattice val) other = py_set_merge val other"
| "py_merge (OrderedSetLattice val) other = py_ordered_set_merge val other"
| "py_merge (MaxIntLattice val) other = py_max_merge val other"
| "py_merge (MapLattice _) other = py_map_merge other"
| "py_merge (PyVectorClock _) other = py_map_merge other"
| "py_merge (SingleKeyCausalLattice _ _) other = py_single_key_merge other"
| "py_merge (MultiKeyCausalLattice _ _ _) other = py_multi_key_merge other"
| "py_merge (PriorityLattice priority val) other = py_priority_merge priority val other"

section \<open>Stored values\<close>

text \<open>
  A field that is assigned has a range; a vector clock is written entry by entry. A set or map lattice is not
  iterable, so the causal lattices end behind their clock.
\<close>

type_synonym serialized = "(string \<times> LatticeType) res"

definition py_lww_serialize :: "'p value_codec \<Rightarrow> int \<Rightarrow> string \<Rightarrow> serialized" where
  "py_lww_serialize pb ts val =
     (if 0 \<le> ts \<and> ts < 2 ^ 64 then Ok (ser_LWW pb \<lparr>lv_timestamp = word_of_int ts, lv_value = val\<rparr>, LWW)
      else Fault Value_Error)"

definition py_set_serialize :: "'p value_codec \<Rightarrow> string list \<Rightarrow> serialized" where
  "py_set_serialize pb val = Ok (ser_Set pb \<lparr>sv_values = fold (\<lambda>v values. values @ [v]) val []\<rparr>, SET)"

definition py_ordered_set_serialize :: "'p value_codec \<Rightarrow> string list \<Rightarrow> serialized" where
  "py_ordered_set_serialize pb val = Ok (ser_Set pb \<lparr>sv_values = [] @ val\<rparr>, ORDERED_SET)"

definition py_clock_serialize :: "(string \<times> int) list \<Rightarrow> VectorClock \<Rightarrow> VectorClock res" where
  "py_clock_serialize mp pobj =
     res_fold (\<lambda>(key, n) pobj. if 0 \<le> n \<and> n < 2 ^ 32 then Ok (AList.update key (word_of_int n) pobj) else Fault Value_Error) mp pobj"

definition py_causal_serialize :: "(string \<times> int) list \<Rightarrow> serialized" where
  "py_causal_serialize clock = res_bind (py_clock_serialize clock []) (\<lambda>_. Fault Type_Error)"

definition py_priority_serialize :: "'p value_codec \<Rightarrow> 'p \<Rightarrow> string \<Rightarrow> serialized" where
  "py_priority_serialize pb priority val = Ok (ser_Priority pb \<lparr>prv_priority = priority, prv_value = val\<rparr>, PRIORITY)"

text \<open>The classes without a method \<^verbatim>\<open>serialize\<close>, and the vector clock, whose method has another parameter, fail.\<close>

fun py_serialize :: "'p value_codec \<Rightarrow> 'p py_lattice \<Rightarrow> serialized" where
  "py_serialize pb (LWWPairLattice ts val) = py_lww_serialize pb ts val"
| "py_serialize pb (SetLattice val) = py_set_serialize pb val"
| "py_serialize pb (OrderedSetLattice val) = py_ordered_set_serialize pb val"
| "py_serialize pb (MaxIntLattice _) = Fault Not_Implemented"
| "py_serialize pb (MapLattice _) = Fault Not_Implemented"
| "py_serialize pb (PyVectorClock _) = Fault Type_Error"
| "py_serialize pb (SingleKeyCausalLattice clock _) = py_causal_serialize clock"
| "py_serialize pb (MultiKeyCausalLattice clock _ _) = py_causal_serialize clock"
| "py_serialize pb (PriorityLattice priority val) = py_priority_serialize pb priority val"

text \<open>The map in a message of a causal value is not a dictionary, and \<^verbatim>\<open>VectorClock\<close> refuses it.\<close>

definition py_deserialize :: "'p value_codec \<Rightarrow> LatticeType \<Rightarrow> string \<Rightarrow> 'p py_lattice res" where
  "py_deserialize pb lattice_type payload =
     (case lattice_type of
        LWW \<Rightarrow> Ok (LWWPairLattice (uint (lv_timestamp (parse_LWW pb payload))) (lv_value (parse_LWW pb payload)))
      | SET \<Rightarrow> Ok (SetLattice (fold uset_insert (sv_values (parse_Set pb payload)) []))
      | ORDERED_SET \<Rightarrow> Ok (OrderedSetLattice (fold py_insert (sv_values (parse_Set pb payload)) []))
      | SINGLE_CAUSAL \<Rightarrow> Fault Value_Error
      | MULTI_CAUSAL \<Rightarrow> Fault Value_Error
      | PRIORITY \<Rightarrow> Ok (PriorityLattice (prv_priority (parse_Priority pb payload)) (prv_value (parse_Priority pb payload)))
      | _ \<Rightarrow> Fault Value_Error)"

section \<open>Laws\<close>

text \<open>What the search finds between two positions of a sorted list.\<close>

definition search_result :: "'a::linorder list \<Rightarrow> 'a \<Rightarrow> nat \<times> bool \<Rightarrow> bool" where
  "search_result lst v r = (case r of (idx, present) \<Rightarrow>
     if present then idx < length lst \<and> lst ! idx = v
     else idx \<le> length lst \<and> (\<forall>i < idx. lst ! i < v) \<and> (\<forall>i < length lst. idx \<le> i \<longrightarrow> v < lst ! i))"

lemma py_index_of_search:
  assumes "sorted lst" and "low \<le> high" and "high \<le> length lst"
    and "\<forall>i < low. lst ! i < v" and "\<forall>i < length lst. high \<le> i \<longrightarrow> v < lst ! i"
  shows "search_result lst v (py_index_of lst v low high)"
  using assms
proof (induction lst v low high rule: py_index_of.induct)
  case (1 lst v low high)
  let ?middle = "low + (high - low) div 2"
  show ?case
  proof (cases "low < high")
    case True
    then have m: "low \<le> ?middle" "?middle < high" "?middle < length lst"
      using "1.prems"(3) by auto
    have step: "py_index_of lst v low high =
        (if v = lst ! ?middle then (?middle, True)
         else if v < lst ! ?middle then py_index_of lst v low ?middle
         else py_index_of lst v (?middle + 1) high)"
      using True by (subst py_index_of.simps) (simp add: Let_def)
    consider "v = lst ! ?middle" | "v < lst ! ?middle" | "lst ! ?middle < v" by fastforce
    then show ?thesis
    proof cases
      case 1
      with m show ?thesis unfolding step by (simp add: search_result_def)
    next
      case 2
      have "\<forall>i < length lst. ?middle \<le> i \<longrightarrow> v < lst ! i"
        using 2 sorted_nth_mono [OF "1.prems"(1)] by (metis less_le_trans)
      moreover have "v \<noteq> lst ! ?middle" using 2 by simp
      ultimately show ?thesis using True m 2 "1.IH"(1) [OF True refl refl] "1.prems"
        unfolding step by simp
    next
      case 3
      have "\<forall>i < ?middle + 1. lst ! i < v"
        using 3 m sorted_nth_mono [OF "1.prems"(1), of _ ?middle]
        by (metis Suc_eq_plus1 less_Suc_eq_le le_less_trans)
      moreover have "v \<noteq> lst ! ?middle" "\<not> v < lst ! ?middle" using 3 by auto
      ultimately show ?thesis using True m 3 "1.IH"(2) [OF True refl refl] "1.prems"
        unfolding step by simp
    qed
  next
    case False
    with "1.prems" have "low = high" by simp
    then have "py_index_of lst v low high = (low, False)" by (subst py_index_of.simps) simp
    with "1.prems" \<open>low = high\<close> show ?thesis by (simp add: search_result_def)
  qed
qed

text \<open>An element put between the smaller and the larger ones of a sorted list.\<close>

lemma insort_between:
  assumes "\<forall>x \<in> set xs. x < v" and "\<forall>x \<in> set ys. v < x"
  shows "insort v (xs @ ys) = xs @ v # ys"
proof -
  have "insort v ys = v # ys" using assms(2) by (cases ys) auto
  with assms(1) show ?thesis by (induction xs) auto
qed

lemma py_insert_eq:
  assumes "sorted lst"
  shows "py_insert v lst = oset_insert v lst"
proof (cases "lst = [] \<or> last lst < v")
  case True
  have "x < v" if "x \<in> set lst" for x
  proof -
    from that have ne: "lst \<noteq> []" by auto
    then have "sorted (butlast lst @ [last lst])" using assms by simp
    moreover have "x \<in> set (butlast lst @ [last lst])" using that ne by simp
    ultimately have "x \<le> last lst" by (auto simp: sorted_append)
    with True ne show ?thesis by auto
  qed
  then have less: "\<forall>x \<in> set lst. x < v" and "v \<notin> set lst" by auto
  moreover from less have "insort v (lst @ []) = lst @ [v]" by (intro insort_between) auto
  ultimately show ?thesis using True by (auto simp: py_insert_def oset_insert_def)
next
  case False
  obtain idx present where r: "py_index_of lst v 0 (length lst) = (idx, present)" by fastforce
  have s: "search_result lst v (idx, present)"
    using py_index_of_search [OF assms, of 0 "length lst" v] by (simp add: r)
  show ?thesis
  proof (cases present)
    case True
    with s False r show ?thesis by (auto simp: py_insert_def oset_insert_def search_result_def)
  next
    case absent: False
    have lo: "\<forall>x \<in> set (take idx lst). x < v" and hi: "\<forall>x \<in> set (drop idx lst). v < x"
      using s absent by (auto simp: search_result_def in_set_conv_nth)
    then have "v \<notin> set (take idx lst @ drop idx lst)" unfolding set_append by auto
    moreover have "insort v (take idx lst @ drop idx lst) = take idx lst @ v # drop idx lst"
      by (rule insort_between [OF lo hi])
    ultimately show ?thesis using False r absent by (simp add: py_insert_def oset_insert_def)
  qed
qed

lemma fold_py_insert: "sorted acc \<Longrightarrow> fold py_insert xs acc = fold oset_insert xs acc"
  by (induction xs arbitrary: acc) (simp_all add: py_insert_eq oset_insert_def sorted_insort)

lemma fold_oset_insert_ok:
  "sorted acc \<Longrightarrow> distinct acc \<Longrightarrow>
   sorted (fold oset_insert xs acc) \<and> distinct (fold oset_insert xs acc) \<and> set (fold oset_insert xs acc) = set acc \<union> set xs"
  by (induction xs arbitrary: acc) auto

lemma ListBasedOrderedSet_eq: "ListBasedOrderedSet iterable = fold oset_insert iterable []"
  by (simp add: ListBasedOrderedSet_def fold_py_insert)

text \<open>
  Property C33: the list-based ordered set. For a sorted list the binary search ends with the position of the
  value, or with the one behind all smaller and before all larger elements. Made from a sequence without
  repetitions in ascending order, as its comment demands, and then changed by any insertions, the set is the
  sorted list of all elements without repetitions.
\<close>

theorem ordered_set_from_iterable:
  assumes "sorted iterable" and "distinct iterable"
  shows "(\<forall>v. case py_index_of iterable v 0 (length iterable) of (idx, present) \<Rightarrow>
      (present \<longleftrightarrow> v \<in> set iterable) \<and> (present \<longrightarrow> iterable ! idx = v) \<and>
      (\<forall>i < length iterable. i < idx \<longrightarrow> iterable ! i < v) \<and> (\<forall>i < length iterable. idx < i \<longrightarrow> v < iterable ! i)) \<and>
    fold py_insert added (ListBasedOrderedSet iterable) = sorted_list_of_set (set iterable \<union> set added)"
proof (intro conjI allI)
  have "ListBasedOrderedSet iterable = iterable"
    using oset_insert_sorted [of "[]" iterable] assms by (simp add: ListBasedOrderedSet_eq)
  then show "fold py_insert added (ListBasedOrderedSet iterable) = sorted_list_of_set (set iterable \<union> set added)"
    using fold_oset_insert_ok [OF assms, of added] assms(1)
      sorted_list_of_set.idem_if_sorted_distinct [of "fold oset_insert added iterable"]
    by (simp add: fold_py_insert)
  fix v
  obtain idx present where r: "py_index_of iterable v 0 (length iterable) = (idx, present)" by fastforce
  then have found: "search_result iterable v (idx, present)"
    using py_index_of_search [OF assms(1), of 0 "length iterable" v] by simp
  have lt: "iterable ! i < iterable ! j" if "i < j" "j < length iterable" for i j
    using that assms sorted_nth_mono [of iterable i j] nth_eq_iff_index_eq [of iterable i j] by force
  show "case py_index_of iterable v 0 (length iterable) of (idx, present) \<Rightarrow>
      (present \<longleftrightarrow> v \<in> set iterable) \<and> (present \<longrightarrow> iterable ! idx = v) \<and>
      (\<forall>i < length iterable. i < idx \<longrightarrow> iterable ! i < v) \<and> (\<forall>i < length iterable. idx < i \<longrightarrow> v < iterable ! i)"
  proof (cases present)
    case True
    with found have "idx < length iterable" "iterable ! idx = v" by (simp_all add: search_result_def)
    with True lt r show ?thesis by auto
  next
    case False
    with found have "\<forall>i < idx. iterable ! i < v" "\<forall>i < length iterable. idx \<le> i \<longrightarrow> v < iterable ! i"
      by (simp_all add: search_result_def)
    moreover from this have "v \<notin> set iterable" by (metis in_set_conv_nth less_irrefl not_le_imp_less)
    ultimately show ?thesis using False r by auto
  qed
qed

theorem ordered_set_from_iterable_witness:
  "fold py_insert [5, 1] (ListBasedOrderedSet [1 :: nat, 3]) = [1, 3, 5]"
  using ordered_set_from_iterable [of "[1 :: nat, 3]" "[5, 1]"] by simp

text \<open>
  Property C32: the Python client and the C++ processes exchange values. What C++ has stored is read by Python, and
  what Python has stored is read by C++, as the same value: pairs with a timestamp or a priority,
  ordered sets, and unordered sets, which each side iterates in an order of its own, as the same set. Causal
  values are not exchanged: Python raises an exception both when it reads and when it writes them.
\<close>

theorem python_values_agree:
  assumes "value_codec_ok pb" and "sorted os" and "distinct os"
  shows "py_deserialize pb LWW (serialize_lww pb l) = Ok (LWWPairLattice (uint (tv_timestamp l)) (tv_value l)) \<and>
    py_deserialize pb PRIORITY (serialize_priority pb p) = Ok (PriorityLattice (pv_priority p) (pv_value p)) \<and>
    py_deserialize pb ORDERED_SET (serialize_ordered_set pb os) = Ok (OrderedSetLattice os) \<and>
    (\<exists>r. py_deserialize pb SET (serialize_set pb s) = Ok (SetLattice r) \<and> set r = set s) \<and>
    (\<exists>b. py_serialize pb (LWWPairLattice (uint ts) val) = Ok (b, LWW) \<and>
       deserialize_lww pb b = \<lparr>tv_timestamp = ts, tv_value = val\<rparr>) \<and>
    (\<exists>b. py_serialize pb (PriorityLattice prio val) = Ok (b, PRIORITY) \<and>
       deserialize_priority pb b = \<lparr>pv_priority = prio, pv_value = val\<rparr>) \<and>
    (\<exists>b. py_serialize pb (OrderedSetLattice os) = Ok (b, ORDERED_SET) \<and> deserialize_ordered_set pb b = os) \<and>
    (\<exists>b. py_serialize pb (SetLattice r) = Ok (b, SET) \<and> set (deserialize_set pb b) = set r) \<and>
    (\<forall>t \<in> {SINGLE_CAUSAL, MULTI_CAUSAL}. \<exists>e. py_deserialize pb t payload = Fault e) \<and>
    (\<exists>e. py_serialize pb (SingleKeyCausalLattice clock r) = Fault e) \<and>
    (\<exists>e. py_serialize pb (MultiKeyCausalLattice clock deps r) = Fault e)"
proof -
  have codec: "parse_LWW pb (ser_LWW pb m) = m" "parse_Priority pb (ser_Priority pb q) = q" "parse_Set pb (ser_Set pb v) = v"
    for m q v using assms(1) by (simp_all add: value_codec_ok_def)
  have os: "fold oset_insert os [] = os" using oset_insert_sorted [of "[]" os] assms(2,3) by simp
  have range: "uint ts < 2 ^ 64" using uint_bounded [of ts] by simp
  have causal: "\<exists>e. py_causal_serialize clock = Fault e"
    by (cases "py_clock_serialize clock []") (simp_all add: py_causal_serialize_def)
  have snoc: "fold (\<lambda>v values. values @ [v]) r [] = r" using fold_snoc [of id r "[]"] by simp
  show ?thesis
    using causal os range
    by (simp add: codec py_deserialize_def serialize_lww_def serialize_priority_def serialize_ordered_set_def serialize_set_def
        py_lww_serialize_def py_priority_serialize_def py_ordered_set_serialize_def py_set_serialize_def snoc
        deserialize_lww_def deserialize_priority_def deserialize_ordered_set_def deserialize_set_def
        fold_py_insert set_fold_uset_insert Let_def)
qed

theorem python_values_agree_witness:
  "(\<exists>r. py_deserialize item_value_codec SET (serialize_set item_value_codec [''y'', ''x'']) = Ok (SetLattice r) \<and> set r = {''x'', ''y''}) \<and>
   py_deserialize item_value_codec ORDERED_SET (serialize_ordered_set item_value_codec [''x'', ''y'']) = Ok (OrderedSetLattice [''x'', ''y''])"
proof -
  have sorted: "sorted [''x'', ''y'']" "distinct [''x'', ''y'']"
    by (simp_all add: less_list_code less_eq_list_code less_eq_char_def)
  show ?thesis
    using python_values_agree [OF item_value_codec_ok sorted, where s = "[''y'', ''x'']"] by (auto simp: insert_commute)
qed

text \<open>
  Merging in Python. Pairs with a timestamp give the pair that C++ keeps unless the timestamps are
  equal, when Python keeps its own and C++ takes the other; priority values always agree. Sets that are not
  both empty, ordered sets, maps, vector clocks and causal values cannot be merged at all.
\<close>

lemma python_merge_agrees:
  "py_merge (LWWPairLattice (uint ts) val) (LWWPairLattice (uint ts') val') =
     Ok (Some (let m = if ts = ts' then \<lparr>tv_timestamp = ts, tv_value = val\<rparr>
                       else lww_merge \<lparr>tv_timestamp = ts, tv_value = val\<rparr> \<lparr>tv_timestamp = ts', tv_value = val'\<rparr>
               in LWWPairLattice (uint (tv_timestamp m)) (tv_value m)), LWWPairLattice (uint ts) val) \<and>
   lww_merge \<lparr>tv_timestamp = ts, tv_value = val\<rparr> \<lparr>tv_timestamp = ts, tv_value = val'\<rparr> = \<lparr>tv_timestamp = ts, tv_value = val'\<rparr> \<and>
   py_merge (PriorityLattice p val) (PriorityLattice p' val') =
     Ok (Some (let m = priority_merge \<lparr>pv_priority = p, pv_value = val\<rparr> \<lparr>pv_priority = p', pv_value = val'\<rparr>
               in PriorityLattice (pv_priority m) (pv_value m)), PriorityLattice p val) \<and>
   py_merge (SetLattice s) (SetLattice s') =
     (if s = [] \<and> s' = [] then Ok (Some (SetLattice []), SetLattice s) else Fault Attribute_Error) \<and>
   py_merge (OrderedSetLattice s) (OrderedSetLattice s') = Fault Attribute_Error \<and>
   py_merge (MapLattice m) (MapLattice m') = Fault Type_Error \<and>
   py_merge (PyVectorClock vc) (PyVectorClock vc') = Fault Value_Error \<and>
   py_merge (SingleKeyCausalLattice vc s) (SingleKeyCausalLattice vc' s') = Fault Value_Error \<and>
   py_merge (MultiKeyCausalLattice vc d s) (MultiKeyCausalLattice vc' d' s') = Fault Value_Error"
  by (simp add: py_lww_merge_def py_priority_merge_def py_set_merge_def py_ordered_set_merge_def py_map_merge_def
      py_single_key_merge_def py_multi_key_merge_def lww_merge_def priority_merge_def word_less_def word_le_def word_uint_eq_iff
      Let_def)

end
