(* ===== verification/Spec2Isabelle.thy ===== *)
theory Spec2Isabelle
  imports Ph_Coordinator_Laws Ph_Kvs_Laws Ph_Manager Ph_Requests Ph_Exec_Laws Ph_Sched_Wait Ph_Sched_Inv Ph_Channel_Ring
    Ph_Client_Laws Ph_Py_Lattice
begin

text \<open>
  Pheromone, a serverless platform in which data triggers functions (\<^verbatim>\<open>README.md\<close>; paths are
  relative to the root of the repository). A function
  writes objects into buckets; a bucket has triggers, and a trigger that has seen the objects it waits
  for calls its target function with them.

  \<^bold>\<open>The parts and how they interact.\<close> A \<^emph>\<open>client\<close> registers applications, buckets and triggers and calls
  functions. A \<^emph>\<open>manager\<close> tells it which \<^emph>\<open>coordinator\<close> thread is responsible for an application. The
  coordinator holds the registry of applications, buckets and triggers, knows which node has which
  object, distributes calls over the nodes and runs the triggers that need objects of several nodes. On
  each node a \<^emph>\<open>scheduler\<close> passes calls to its \<^emph>\<open>executors\<close>, runs the triggers it can decide by itself, and
  talks to coordinators, to the schedulers of other nodes and to the Anna key-value store through a
  \<^emph>\<open>communication helper\<close>. Executors run user functions; the library linked to these creates, sends and
  gets objects. Scheduler and executors share objects in shared memory and exchange messages through
  \<^emph>\<open>channels\<close>: a lock-free ring of small elements, with blocks of shared memory for long messages.

  \<^bold>\<open>Conventions.\<close> Each operation is a function on an explicit state record. What the code throws, a null
  pointer it dereferences, an uninitialised value it reads, an index out of range, a division by zero and
  a loop that never ends is a \<open>Fault\<close> of the result type \<open>res\<close> (\<open>Ph_Prelude\<close>). What an operation sends is
  part of its result, in order; what it receives, the clock, the random generator, generated
  protocol-buffer code, user functions and the loader of shared libraries are arguments (the records
  \<open>coord_env\<close>, \<open>helper_env\<close>, \<open>exec_env\<close>, \<open>prim_codec\<close>, \<open>value_codec\<close>). A property that needs generated code
  to read back what it wrote says so (\<open>codec_inverse\<close>, \<open>value_codec_ok\<close>). Machine integers are words of their width, so
  overflow and the 8-bit fields of messages are those of the code; signed counters of executors are
  integers, with the wrap-around of their 32-bit sum written out (\<open>wrap_int\<close>); time is a number of
  nanoseconds. An unordered container that is iterated is a list in iteration order, one that is only looked up is a map.

  \<^bold>\<open>Theories and sources.\<close>

  \<^item> \<open>Ph_Prelude\<close>, \<open>Ph_Strings\<close>: faults, containers, the locale \<open>simulation\<close>; \<^verbatim>\<open>getline\<close>, \<^verbatim>\<open>stoi\<close>,
    \<^verbatim>\<open>to_string\<close>, null-terminated strings.
  \<^item> \<open>Ph_Common\<close>: \<^verbatim>\<open>common/include/common.hpp\<close>, names of objects, \<^verbatim>\<open>BucketKey\<close>, timestamps.
  \<^item> \<open>Ph_Trigger\<close> with \<open>Ph_Trigger_Laws\<close> and \<open>Ph_Trigger_Rerun\<close>: \<^verbatim>\<open>common/include/trigger.hpp\<close>. A trigger
    object is a record with the common fields and one body per class; a virtual call is a case
    distinction on the body. The locale \<open>conserving_trigger\<close> has the laws of buffering triggers; set
    triggers refine a specification per session and dynamic groups one of their control group; re-execution metadata lives from the start of a source
    function to the arrival of its object.
  \<^item> \<open>Ph_Threads\<close>: ports and addresses, \<^verbatim>\<open>common/include/kvs_threads.hpp\<close>, \<^verbatim>\<open>anna_threads.hpp\<close>,
    \<^verbatim>\<open>op_threads.hpp\<close>; up to which number of threads all bound addresses differ.
  \<^item> \<open>Ph_Protocol\<close>: the messages, \<^verbatim>\<open>common/proto/\<close>.
  \<^item> \<open>Ph_Lattice_Base\<close>, \<open>Ph_Lattice_Laws\<close>, \<open>Ph_Lattice_Codec\<close>: \<^verbatim>\<open>common/include/lattices/\<close> and the
    serialization in \<^verbatim>\<open>common.hpp\<close>. The locale \<open>merge_lattice\<close> gives convergence under reordering and
    repetition and is interpreted on each lattice that has it; causal merges do not. Serialized values of all lattices are
    read back.
  \<^item> \<open>Ph_Coord_State\<close>, \<open>Ph_Coord_Ops\<close>, \<open>Ph_Coord_Calls\<close>, \<open>Ph_Coord_Notify\<close>, \<open>Ph_Coordinator\<close>: \<^verbatim>\<open>src/coordinator/\<close>,
    the handlers and the event loop of a coordinator thread. \<open>Ph_Coord_Keys\<close>, \<open>Ph_Coord_Inv\<close>,
    \<open>Ph_Coord_Calls_Laws\<close>, \<open>Ph_Coordinator_Laws\<close>: its invariant over all reachable states, that every
    handler returns, how calls are split and where triggered calls go.
  \<^item> \<open>Ph_Manager\<close>: \<^verbatim>\<open>src/manager/manager_server.cpp\<close>.
  \<^item> \<open>Ph_Requests\<close>: \<^verbatim>\<open>common/include/requests.hpp\<close>, waiting for answers.
  \<^item> \<open>Ph_Kvs_Client\<close> with \<open>Ph_Kvs_Inv\<close>, \<open>Ph_Kvs_Open\<close>, \<open>Ph_Kvs_Laws\<close>: \<^verbatim>\<open>common/include/anna_client/\<close>, the
    asynchronous client of the key-value store; no request is lost over answers, retries and timeouts.
  \<^item> \<open>Ph_Shm\<close>: \<^verbatim>\<open>common/shm-ipc/src/libipc/platform/shm_linux.cpp\<close> and the copying of objects in
    \<^verbatim>\<open>comm_helper.hpp\<close>; the locale \<open>object_store\<close> is what its clients rely on.
  \<^item> \<open>Ph_Comm_Helper\<close>, \<open>Ph_Comm_Laws\<close>: \<^verbatim>\<open>include/scheduler/comm_helper.hpp\<close>; objects move unchanged between
    nodes, the registry that coordinators fill stays consistent.
  \<^item> \<open>Ph_Scheduler\<close>: \<^verbatim>\<open>src/scheduler/scheduler_server.cpp\<close> and \<^verbatim>\<open>object_handlers.cpp\<close>; one turn of the event
    loop is \<open>scheduler_step\<close>. \<open>Ph_Sched_Laws\<close>, \<open>Ph_Sched_Wait\<close>, \<open>Ph_Sched_Inv\<close>: where a call goes,
    re-execution checks, delayed calls, and the well-formedness every turn keeps; calls that wait for objects
    refine the specifications \<open>spec_call_by_name\<close> and \<open>object_arrives\<close>.
  \<^item> \<open>Ph_Executor\<close>: \<^verbatim>\<open>src/executor/executor_server.cpp\<close> and \<^verbatim>\<open>include/executor/function_lib.hpp\<close>.
    \<open>Ph_Exec_Laws\<close>: what a scheduler and an executor write is what the other side reads.
  \<^item> \<open>Ph_Ring\<close>, \<open>Ph_Ring_Laws\<close>, \<open>Ph_Ring_Queue\<close>: \<^verbatim>\<open>common/shm-ipc/src/libipc/prod_cons.h\<close> and \<^verbatim>\<open>circ/\<close>, one step
    per access to shared memory; in every interleaving the ring is a queue, and undisturbed calls return.
  \<^item> \<open>Ph_Channel\<close>, \<open>Ph_Channel_Laws\<close>, \<open>Ph_Channel_Blocks\<close>, \<open>Ph_Channel_Ring\<close>: \<^verbatim>\<open>common/shm-ipc/src/ipc.cpp\<close>
    with \<^verbatim>\<open>id_pool.h\<close>; cutting and reassembly, blocks for long messages, timeouts. The locale
    \<open>message_queue\<close> is what a channel relies on, interpreted on the ring.
  \<^item> \<open>Ph_Client\<close>, \<open>Ph_Client_Laws\<close>: \<^verbatim>\<open>client/pheromone/client.py\<close> and \<^verbatim>\<open>utils.py\<close>, the Python client: the requests
    it builds, where they go and how it waits for answers. Dynamically typed arguments are the type
    \<open>py_val\<close>, exceptions are faults. Its requests reach the coordinator that the manager names, and what the
    coordinator installs for them is stated for every kind of trigger and dependency.
  \<^item> \<open>Ph_Py_Lattice\<close>: \<^verbatim>\<open>client/anna_client/anna/lattices.py\<close> and the conversions in \<^verbatim>\<open>base_client.py\<close>; its ordered
    set, found by binary search, is sorted without repetitions, and values are exchanged with C++.
  \<^item> This theory: properties of several parts together. A trigger added at the coordinator is the trigger
    the nodes install; a deleted trigger by time makes them fault; an announced object is found.

  \<^bold>\<open>Bounds.\<close> Loops of the code that may not end are defined with \<^verbatim>\<open>partial_function\<close> on \<open>option\<close>:
  \<open>timestamp_pow\<close>, \<open>next_avail\<close> (the search for a node with a free executor) and \<open>rerun_check\<close>. That they
  return is proved, for \<open>timestamp_pow\<close> with thread ids below \<open>10 ^ 9\<close>, beyond which its power of ten
  overflows. Loops over received messages recurse over what the sockets hold. The runs of
  receive calls and of single accesses to the ring take a number: \<open>recv_calls\<close> one more than the elements
  that are there, since each call but the last takes one; \<open>run_push\<close> 11 and \<open>run_pop\<close> 9, the accesses on
  their longest undisturbed paths. The properties of the ring are for fewer than \<open>2 ^ 32\<close> pushes, the
  range of its tickets; it holds 255 elements, one less than its positions. A channel reassembles messages
  of less than 2 GB, because the remaining length is a signed 32-bit number, with at most 1024 of them
  underway at a time, because a receiver then starts to drop unfinished ones. Names of objects have at most
  255 bytes where a message holds their length in one byte.

  \<^bold>\<open>Assumptions.\<close> The ring is modelled with sequentially consistent memory, although the code uses
  acquire and release operations. A turn of an event loop reads the clock once; the
  scheduler reads it a second time behind the delayed calls. Checks of the priority queue that are due at the same time
  are made in the order in which they were entered, which the library leaves open. The blocks of shared memory in a
  history of a channel are given with it (\<open>plan_ok\<close>). The channel is connected
  before messages are sent. Default entries that \<^verbatim>\<open>operator[]\<close> leaves in maps that are only indexed are
  not recorded.

  \<^bold>\<open>Not modelled.\<close> Sockets, the socket cache and logging (\<^verbatim>\<open>common/include/zmq/\<close>): input and output.
  Generated protocol-buffer code, the C library and user functions are parameters. The waiters, spin
  locks, thread-local storage and memory pools of the ipc library (\<^verbatim>\<open>waiter.h\<close>, \<^verbatim>\<open>mem/\<close>, \<^verbatim>\<open>tls_*\<close>): waiting
  appears as the argument that says whether a wait timed out, and allocation has no visible effect.
  \<^verbatim>\<open>clear_storage\<close> and the rings for broadcast, for one writer or for one reader are not used by the
  system, which instantiates one kind of channel. \<^verbatim>\<open>MapLattice::intersect\<close> cannot be instantiated. Reading
  the configuration and starting the threads in \<^verbatim>\<open>main\<close>; the mutex wrapper \<^verbatim>\<open>safe_ptr.hpp\<close>. Of the Python
  client, the requests of the Anna client over sockets (\<^verbatim>\<open>client/anna_client/anna/client.py\<close>), which follow
  those of the C++ client, the timestamp from floating-point time, and the methods of lattices that check a
  type and store a field. The client test program (\<^verbatim>\<open>src/client/\<close>), the benchmarks and the map-reduce helper in
  \<^verbatim>\<open>client/pheromone/\<close>, the user functions in \<^verbatim>\<open>examples/\<close>, the deployment scripts, and the tests and
  demonstrations that come with the ipc library are not part of the
  running system.
\<close>

section \<open>Triggers: from the coordinator to the nodes\<close>

lemma generated_trigger:
  assumes "gen_trigger_pointer pb now type name serialized = Some tr"
  shows "trigger_type tr = type" and "trigger_name tr = name" and "trigger_option tr = 0"
    and "type \<noteq> BY_TIME \<Longrightarrow> fresh_body t (trigger_body tr) = trigger_body tr"
  using assms
  by (auto simp: gen_trigger_pointer_def new_Immediate_def new_ByName_def new_ByBatchSize_def new_BySet_def
      new_DynamicGroup_def new_Redundant_def new_ByTime_def new_trigger_def fresh_body_def split: PrimitiveType.splits prod.splits)

lemma trigger_with_option:
  "trigger_wf (set_trigger_option opt tr) = trigger_wf tr"
  "trigger_type (set_trigger_option opt tr) = trigger_type tr"
  "trigger_name (set_trigger_option opt tr) = trigger_name tr"
  by (cases "trigger_body tr"; simp add: set_trigger_option_def trigger_wf_def)+

text \<open>A generated trigger, written by the coordinator and built again by a node.\<close>

lemma synchronized_trigger:
  assumes "gen_trigger_pointer pb now type name serialized = Some tr" and "type \<noteq> BY_TIME" and "codec_inverse pb"
  shows "gen_trigger_pointer pb now' type name (dump_pritimive pb (set_trigger_option opt tr)) = Some tr"
proof -
  let ?tr = "set_trigger_option opt tr"
  have "gen_trigger_pointer pb now' (trigger_type ?tr) (trigger_name ?tr) (dump_pritimive pb ?tr) =
      Some (?tr\<lparr>trigger_option := 0, trigger_body := fresh_body now' (trigger_body ?tr)\<rparr>)"
    by (rule gen_trigger_pointer_dump)
      (use gen_trigger_pointer_wf [OF assms(1)] assms(3) in \<open>simp_all add: trigger_with_option\<close>)
  then show ?thesis
    using generated_trigger [OF assms(1)] assms(2) by (simp add: trigger_with_option set_trigger_option_def)
qed

definition rerun_metas :: "RerunHint list \<Rightarrow> RerunMetadata list" where
  "rerun_metas = map (\<lambda>h. \<lparr>rr_source_func = rh_source_function h, rr_source_key = rh_source_key h, rr_timeout = rh_timeout h\<rparr>)"

lemma fold_add_hint [simp]:
  "rg_triggers (fold (add_hint p) hints rg) = rg_triggers rg"
  "rg_bucket_triggers (fold (add_hint p) hints rg) = rg_bucket_triggers rg"
  by (induction hints arbitrary: rg) (simp_all add: add_hint_def Let_def)

lemma installed_trigger:
  "rg_triggers (install_trigger entity tr rg) = rg_triggers rg @
     [set_rerun_metadata (rerun_metas (te_hints entity)) (set_trigger_option (sint (te_trigger_option entity)) tr)]"
  "rg_bucket_triggers (install_trigger entity tr rg) = (rg_bucket_triggers rg)(te_bucket_name entity \<mapsto>
     map_at [] (rg_bucket_triggers rg) (te_bucket_name entity) @ [length (rg_triggers rg)])"
  by (simp_all add: install_trigger_def rerun_metas_def Let_def)

text \<open>
  Property C11: a trigger that a client adds at the coordinator is the trigger that every node installs.
  Each node that is told appends to the triggers of the bucket the same trigger that the coordinator
  appends, with the option of the request and the re-execution rules of its hints on top. This rests on
  the generated code reading back what it has written. Triggers by time stay at the coordinator.
\<close>

theorem trigger_reaches_nodes:
  assumes "tor_operation_type request = ADD_TRIGGER" and "co_bucket_app s (tor_bucket_name request) \<noteq> None"
    and "gen_trigger_pointer (ce_codec cenv) (ce_now cenv) (tor_primitive_type request) (tor_trigger_name request)
           (tor_primitive request) = Some tr"
    and "tor_primitive_type request \<noteq> BY_TIME" and "tor_trigger_name request \<noteq> []"
    and "codec_inverse (ce_codec cenv)" and "he_codec env = ce_codec cenv"
  shows "\<exists>out s'. trigger_op_handler cenv request s = Ok (out, s') \<and>
    map_at [] (co_triggers s') (tor_bucket_name request) = map_at [] (co_triggers s) (tor_bucket_name request) @
      [set_trigger_option (sint (tor_trigger_option request)) tr] \<and>
    (\<forall>a msg rg ch. Send a (Update_Msg msg) \<in> set out \<longrightarrow>
      (\<exists>rg' ch'. handle_coord_msg env msg rg ch = Ok (rg', ch') \<and>
        map_at [] (rg_bucket_triggers rg') (tor_bucket_name request) =
          map_at [] (rg_bucket_triggers rg) (tor_bucket_name request) @ [length (rg_triggers rg)] \<and>
        rg_triggers rg' = rg_triggers rg @ [set_rerun_metadata (rerun_metas (tor_hints request))
          (set_trigger_option (sint (tor_trigger_option request)) tr)]))"
proof -
  let ?tr = "set_trigger_option (sint (tor_trigger_option request)) tr"
  let ?entity = "empty_entity\<lparr>te_bucket_name := tor_bucket_name request, te_trigger_name := tor_trigger_name request,
    te_trigger_option := tor_trigger_option request, te_primitive_type := tor_primitive_type request,
    te_primitive := dump_pritimive (ce_codec cenv) ?tr, te_hints := tor_hints request\<rparr>"
  let ?msg = "empty_update\<lparr>uc_ip := ce_private_ip cenv, uc_thread_id := ce_thread_id cenv,
    uc_app_name := tor_app_name request, uc_msg_type := 0, uc_triggers := [?entity]\<rparr>"
  have "add_trigger cenv request s = Ok ([?entity], push_trigger (tor_bucket_name request) ?tr s)"
    using assms(3,4) generated_trigger(1) [OF assms(3)] by (simp add: add_trigger_def trigger_with_option Let_def)
  then obtain resp where op: "trigger_op_handler cenv request s =
      Ok (resp # broadcast (push_trigger (tor_bucket_name request) ?tr s) ?msg, push_trigger (tor_bucket_name request) ?tr s)"
    and resp: "\<nexists>a msg. resp = Send a (Update_Msg msg)"
    using assms(1,2) by (simp add: trigger_op_handler_def Let_def)
  have "\<exists>rg' ch'. handle_coord_msg env ?msg rg ch = Ok (rg', ch') \<and>
      map_at [] (rg_bucket_triggers rg') (tor_bucket_name request) =
        map_at [] (rg_bucket_triggers rg) (tor_bucket_name request) @ [length (rg_triggers rg)] \<and>
      rg_triggers rg' = rg_triggers rg @ [set_rerun_metadata (rerun_metas (tor_hints request)) ?tr]" for rg ch
    using synchronized_trigger [OF assms(3,4,6)] assms(5,7)
    by (simp add: handle_coord_msg_def empty_update_def empty_entity_def add_entity_def installed_trigger map_at_def Let_def)
  then show ?thesis
    using resp by (auto simp: op push_trigger_def broadcast_def map_at_def)
qed

definition ex_trigger_op :: "TriggerOperationType \<Rightarrow> PrimitiveType \<Rightarrow> string \<Rightarrow> TriggerOperationRequest" where
  "ex_trigger_op op type prim =
     \<lparr>tor_operation_type = op, tor_app_name = ''app'', tor_bucket_name = ''b'', tor_trigger_name = ''t'', tor_trigger_option = 1,
      tor_primitive_type = type, tor_primitive = prim, tor_request_id = ''1'', tor_response_address = ''client'', tor_hints = []\<rparr>"

definition ex_bucket_state :: CoordState where
  "ex_bucket_state = (ex_coord [(''n1'', 1)])\<lparr>co_bucket_app := [''b'' \<mapsto> ''app'']\<rparr>"

theorem trigger_reaches_nodes_witness:
  "\<exists>out s' a msg rg' ch'. trigger_op_handler (ex_env\<lparr>ce_codec := item_codec\<rparr>)
       (ex_trigger_op ADD_TRIGGER REDUNDANT (ser_Redundant item_codec (''f'', 2, 5))) ex_bucket_state = Ok (out, s') \<and>
     Send a (Update_Msg msg) \<in> set out \<and>
     handle_coord_msg ((ex_henv 5)\<lparr>he_codec := item_codec\<rparr>) msg empty_registry ex_helper = Ok (rg', ch') \<and>
     rg_triggers rg' = [set_rerun_metadata [] (set_trigger_option 1 (new_Redundant ''f'' ''t'' 2 5))]"
proof -
  let ?env = "ex_env\<lparr>ce_codec := item_codec\<rparr>" and ?henv = "(ex_henv 5)\<lparr>he_codec := item_codec\<rparr>"
  let ?r = "ex_trigger_op ADD_TRIGGER REDUNDANT (ser_Redundant item_codec (''f'', 2, 5))"
  have r: "tor_operation_type ?r = ADD_TRIGGER" "co_bucket_app ex_bucket_state (tor_bucket_name ?r) \<noteq> None"
    "tor_primitive_type ?r \<noteq> BY_TIME" "tor_trigger_name ?r \<noteq> []" "he_codec ?henv = ce_codec ?env" "codec_inverse (ce_codec ?env)"
    by (simp_all add: ex_trigger_op_def ex_bucket_state_def item_codec_inverse)
  have gen: "gen_trigger_pointer (ce_codec ?env) (ce_now ?env) (tor_primitive_type ?r) (tor_trigger_name ?r) (tor_primitive ?r) =
      Some (new_Redundant ''f'' ''t'' 2 5)"
    using item_codec_inverse by (simp add: ex_trigger_op_def gen_trigger_pointer_def codec_inverse_def)
  obtain out s' a msg where op: "trigger_op_handler ?env ?r ex_bucket_state = Ok (out, s')" "Send a (Update_Msg msg) \<in> set out"
    using r gen by (auto simp: trigger_op_handler_def add_trigger_def broadcast_def push_trigger_def Let_def
        ex_bucket_state_def ex_coord_def ex_nodes_def)
  from trigger_reaches_nodes [OF r(1,2) gen r(3,4,6,5)] op(1)
  have "Send a (Update_Msg msg) \<in> set out \<longrightarrow>
      (\<exists>rg' ch'. handle_coord_msg ?henv msg empty_registry ex_helper = Ok (rg', ch') \<and>
        rg_triggers rg' = rg_triggers empty_registry @ [set_rerun_metadata (rerun_metas (tor_hints ?r))
          (set_trigger_option (sint (tor_trigger_option ?r)) (new_Redundant ''f'' ''t'' 2 5))])"
    by (elim exE conjE) (simp only: res.inject prod.inject, blast)
  with op show ?thesis by (auto simp: ex_trigger_op_def empty_registry_def rerun_metas_def)
qed

lemma erase_named_missing:
  "(\<And>p. p \<in> set ps \<Longrightarrow> trigger_name (trs ! p) \<noteq> name) \<Longrightarrow> erase_named trs name ps = Fault Out_Of_Range"
  by (induction ps) auto

text \<open>
  Property C39: a trigger by time cannot be deleted safely. The coordinator does not announce it to the
  nodes, but announces its deletion, and a node that has no trigger of that name in the bucket then
  searches past the end of its list.
\<close>

theorem delete_by_time_trigger_faults:
  assumes "tor_operation_type add = ADD_TRIGGER" and "tor_primitive_type add = BY_TIME"
    and "trigger_op_handler cenv add s = Ok (out, s1)" and "co_bucket_app s (tor_bucket_name add) \<noteq> None"
    and "Send a (Update_Msg msg) \<in> set out" and "handle_coord_msg env msg rg ch = Ok (rg1, ch1)"
    and "\<And>p. p \<in> set (map_at [] (rg_bucket_triggers rg) (tor_bucket_name add)) \<Longrightarrow>
      trigger_name (rg_triggers rg ! p) \<noteq> tor_trigger_name add"
    and "tor_operation_type del = DELETE_TRIGGER" and "tor_bucket_name del = tor_bucket_name add"
    and "tor_trigger_name del = tor_trigger_name add" and "trigger_op_handler cenv' del s1 = Ok (out', s2)"
    and "Send a' (Update_Msg msg') \<in> set out'"
  shows "handle_coord_msg env' msg' rg1 ch1 = Fault Out_Of_Range"
proof -
  obtain f w where "parse_ByTime (ce_codec cenv) (tor_primitive add) = (f, w)" by fastforce
  then have gen: "gen_trigger_pointer (ce_codec cenv) (ce_now cenv) (tor_primitive_type add) (tor_trigger_name add) (tor_primitive add) =
      Some (new_ByTime (ce_now cenv) f (tor_trigger_name add) w)"
    by (simp add: assms(2) gen_trigger_pointer_def)
  define tr where "tr = set_trigger_option (sint (tor_trigger_option add)) (new_ByTime (ce_now cenv) f (tor_trigger_name add) w)"
  have tr: "trigger_type tr = BY_TIME" "trigger_name tr = tor_trigger_name add"
    by (simp_all add: tr_def set_trigger_option_def new_ByTime_def new_trigger_def)
  have s1: "s1 = push_trigger (tor_bucket_name add) tr s" and msg: "uc_msg_type msg = 0" "uc_triggers msg = []"
    "uc_functions msg = []" "uc_dependencies msg = []"
    using assms(1,3-5) gen tr
    by (auto simp: trigger_op_handler_def add_trigger_def Let_def tr_def [symmetric] broadcast_def empty_update_def)
  have rg1: "rg_triggers rg1 = rg_triggers rg" "rg_bucket_triggers rg1 = rg_bucket_triggers rg"
    using assms(6) msg by (auto simp: handle_coord_msg_def Let_def)
  have "co_bucket_app s1 (tor_bucket_name add) \<noteq> None" using assms(4) by (simp add: s1 push_trigger_def)
  moreover have "fst (delete_trigger del s1)"
    using tr(2) assms(9,10) by (simp add: delete_trigger_def s1 push_trigger_def map_at_def Let_def le_imp_less_Suc)
  ultimately have msg': "uc_msg_type msg' = 2" "\<exists>e. uc_triggers msg' = [e] \<and> te_bucket_name e = tor_bucket_name add \<and>
      te_trigger_name e = tor_trigger_name add"
    using assms(8-12)
    by (auto simp: trigger_op_handler_def Let_def broadcast_def empty_update_def empty_entity_def split: prod.splits)
  then show ?thesis
    using erase_named_missing [OF assms(7)] rg1 by (auto simp: handle_coord_msg_def delete_entity_def Let_def)
qed

theorem delete_by_time_trigger_faults_witness:
  "\<exists>out s1 out' s2 a msg. trigger_op_handler ex_env (ex_trigger_op ADD_TRIGGER BY_TIME []) ex_bucket_state = Ok (out, s1) \<and>
     trigger_op_handler ex_env (ex_trigger_op DELETE_TRIGGER BY_TIME []) s1 = Ok (out', s2) \<and>
     Send a (Update_Msg msg) \<in> set out' \<and> (\<exists>rg ch. handle_coord_msg (ex_henv 5) msg rg ch = Fault Out_Of_Range)"
proof -
  let ?add = "ex_trigger_op ADD_TRIGGER BY_TIME []" and ?del = "ex_trigger_op DELETE_TRIGGER BY_TIME []"
  obtain out s1 a msg rg1 ch1 out' s2 a' msg' where
      op: "trigger_op_handler ex_env ?add ex_bucket_state = Ok (out, s1)" "Send a (Update_Msg msg) \<in> set out"
        "handle_coord_msg (ex_henv 5) msg empty_registry ex_helper = Ok (rg1, ch1)"
        "trigger_op_handler ex_env ?del s1 = Ok (out', s2)" "Send a' (Update_Msg msg') \<in> set out'"
    by (simp add: trigger_op_handler_def add_trigger_def broadcast_def push_trigger_def Let_def ex_trigger_op_def
        ex_bucket_state_def ex_coord_def ex_nodes_def gen_trigger_pointer_def ex_env_def ex_codec_def init_coord_def
        new_ByTime_def new_trigger_def set_trigger_option_def handle_coord_msg_def empty_update_def delete_trigger_def map_at_def)
  have "handle_coord_msg (ex_henv 5) msg' rg1 ch1 = Fault Out_Of_Range"
    by (rule delete_by_time_trigger_faults [OF _ _ op(1) _ op(2,3) _ _ _ _ op(4,5)])
      (simp_all add: ex_trigger_op_def ex_bucket_state_def empty_registry_def)
  with op show ?thesis by blast
qed

section \<open>Objects: from one node to the next\<close>

text \<open>
  Property C18: an object that one node announces is found by another. When the coordinator has handled the
  announcement, the query of any node for the object is answered, to that node, with success, and among
  the addresses is one of an additional input/output thread of the first node, at which that node serves
  its objects. With a single thread it is the address of a thread that does not exist.
\<close>

theorem announced_object_found:
  assumes "notify_put bk triggers resp_address payload ch = Ok ([Net (Send thread (Notify_Msg request))], ch')"
    and "payload \<noteq> [] \<or> co_bucket_app s (bk_bucket bk) \<noteq> None" and "notify_handler cenv request s = Ok (out, s')"
    and "key_query_async bk other = ([Net (Send thread' (Query_Msg q))], other')" and "io_ok ch"
  shows "\<exists>resp found tid. query_handler q s' = ([Send (key_query_connect_address (ch_ut other)) (Query_Response_Msg resp)], s') \<and>
    kqr_error resp = SUCCESS \<and> kqr_addresses resp = [found] \<and> get_bucket_key_from_addr found = bk \<and>
    ''tcp://'' @ ch_ip ch @ '':'' @ to_string (unat (tid + kvs_port dataAccessServerPort)) \<in> set (bka_ips found) \<and>
    1 \<le> tid \<and> (tid < ch_io_thread_count ch \<longleftrightarrow> 1 < ch_io_thread_count ch)"
proof -
  obtain rid ch1 where rid: "helper_request_id ch = (rid, ch1)" by fastforce
  then have ip: "ch_ip ch1 = ch_ip ch" "ch_io_thread_count ch1 = ch_io_thread_count ch" "io_ok ch1"
    using assms(5) by (auto simp: helper_request_id_def io_ok_def split: prod.splits)
  obtain addr ch2 where addr: "get_data_server_addr True ch1 = Ok (addr, ch2)"
    and req: "kn_addresses request = [(get_addr_from_bucket_key bk empty_addr)\<lparr>
        bka_ips := bka_ips (get_addr_from_bucket_key bk empty_addr) @ [addr], bka_payload := payload\<rparr>]"
    using assms(1) rid by (auto simp: notify_put_def Let_def split: if_splits elim!: res_bind_OkE)
  obtain tid where tid: "addr = ''tcp://'' @ ch_ip ch @ '':'' @ to_string (unat (tid + kvs_port dataAccessServerPort))"
    and range: "1 \<le> tid" "tid < ch_io_thread_count ch \<longleftrightarrow> 1 < ch_io_thread_count ch"
    using addr announced_address [OF ip(3)] ip(1,2) by auto
  let ?a = "(get_addr_from_bucket_key bk empty_addr)\<lparr>bka_ips := bka_ips (get_addr_from_bucket_key bk empty_addr) @ [addr],
    bka_payload := payload\<rparr>"
  have a: "get_bucket_key_from_addr ?a = bk" "get_bucket_key_from_addr (get_addr_from_bucket_key bk empty_addr) = bk"
    "hd (bka_ips ?a) = addr" "bka_payload ?a = payload" "bka_bucket ?a = bk_bucket bk"
    by (simp_all add: get_bucket_key_from_addr_def get_addr_from_bucket_key_def empty_addr_def)
  have q: "kq_addresses q = [get_addr_from_bucket_key bk empty_addr]"
    "kq_response_address q = key_query_connect_address (ch_ut other)"
    using assms(4) by (auto simp: key_query_async_def split: prod.splits)
  have "\<exists>resp found. query_handler q s' = ([Send (kq_response_address q) (Query_Response_Msg resp)], s') \<and>
      kqr_error resp = SUCCESS \<and> kqr_addresses resp = [found] \<and>
      get_bucket_key_from_addr found = get_bucket_key_from_addr ?a \<and> hd (bka_ips ?a) \<in> set (bka_ips found)"
    by (rule notify_then_query [OF assms(3) req _ q(1)]) (use assms(2) a in simp_all)
  then show ?thesis using range unfolding a(1,3) q(2) unfolding tid by blast
qed

theorem announced_object_found_witness:
  "\<exists>thread request ch' out s' thread' q other' resp.
     notify_put \<lparr>bk_bucket = ''b'', bk_key = ''k'', bk_session = ''s''\<rparr> [] [] ''v''
       (ex_helper\<lparr>ch_bucket_coord_map := [''b'' \<mapsto> new_thread ''c'' 0]\<rparr>) = Ok ([Net (Send thread (Notify_Msg request))], ch') \<and>
     notify_handler ex_env request (init_coord 7) = Ok (out, s') \<and>
     key_query_async \<lparr>bk_bucket = ''b'', bk_key = ''k'', bk_session = ''s''\<rparr> ex_helper = ([Net (Send thread' (Query_Msg q))], other') \<and>
     query_handler q s' = ([Send (key_query_connect_address (ch_ut ex_helper)) (Query_Response_Msg resp)], s') \<and>
     kqr_error resp = SUCCESS"
proof -
  let ?bk = "\<lparr>bk_bucket = ''b'', bk_key = ''k'', bk_session = ''s''\<rparr>"
  let ?ch = "ex_helper\<lparr>ch_bucket_coord_map := [''b'' \<mapsto> new_thread ''c'' 0]\<rparr>"
  obtain thread request ch' addr where put: "notify_put ?bk [] [] ''v'' ?ch = Ok ([Net (Send thread (Notify_Msg request))], ch')"
    and req: "kn_addresses request = [(get_addr_from_bucket_key ?bk empty_addr)\<lparr>bka_ips := [''tcp://'' @ addr], bka_payload := ''v''\<rparr>]"
    by (auto simp: notify_put_def get_notifying_thread_def notify_handler_connect_address_def connect_address_def helper_request_id_def
        get_data_server_addr_def get_io_thread_id_def ex_helper_def new_CommHelper_def get_addr_from_bucket_key_def
        empty_addr_def next_request_id_def Let_def)
  obtain out s' where h: "notify_handler ex_env request (init_coord 7) = Ok (out, s')"
    by (auto simp: notify_handler_def req empty_addr_def get_addr_from_bucket_key_def nth_res_def record_object_def host_of_def
        notify_triggers_def sync_nodes_def init_coord_def get_bucket_key_from_addr_def Let_def)
  obtain thread' q other' where q: "key_query_async ?bk ex_helper = ([Net (Send thread' (Query_Msg q))], other')"
    by (simp add: key_query_async_def helper_request_id_def next_request_id_def Let_def)
  have "io_ok ?ch" by (simp add: io_ok_def ex_helper_def new_CommHelper_def)
  from announced_object_found [OF put _ h q this] put h q show ?thesis by (simp, blast)
qed

end
